(* ===== verification/Go_Prelude.thy ===== *)
theory Go_Prelude
  imports Main "HOL-Library.Word"
begin

text \<open>
  The vocabulary the component theories share: what a Go call can do (return or panic), the
  fragments of \<^verbatim>\<open>fmt\<close>, \<^verbatim>\<open>strconv\<close> and \<^verbatim>\<open>strings\<close> the sources call, slices and maps, and the
  generic lemmas on lists, options and maps the component proofs use.

  Conventions of the whole development:
  \<^item> a Go \<^verbatim>\<open>string\<close> is an Isabelle \<open>string\<close> read as its bytes; \<open>len\<close> is \<open>length\<close>;
  \<^item> \<^verbatim>\<open>time.Time\<close> and \<^verbatim>\<open>time.Duration\<close> are \<open>int\<close>s counting nanoseconds, the current time is an
    argument;
  \<^item> \<^verbatim>\<open>int\<close> is \<open>int\<close> where the code cannot overflow it, a \<open>64 word\<close> where it can;
  \<^item> a function that returns \<^verbatim>\<open>(T, error)\<close> returns a pair with an optional error;
  \<^item> a function with effects takes the state it works on and returns the new one;
  \<^item> a panic is a value of the type \<open>exec\<close> below.
\<close>

section \<open>Outcomes of Go code\<close>

named_theorems exec_simps \<open>unfolding of sequenced effects\<close>
named_theorems go_inv \<open>preservation of a component's invariant by its operations\<close>

datatype 'a exec = Ret 'a | Panic string

type_synonym ('s, 'a) go = "'s \<Rightarrow> 'a exec \<times> 's"

text \<open>Sequencing: a panic of the first computation unwinds past the second.\<close>

definition go_return :: "'a \<Rightarrow> ('s, 'a) go" where
  "go_return v = (\<lambda>s. (Ret v, s))"

definition go_panic :: "string \<Rightarrow> ('s, 'a) go" where
  "go_panic p = (\<lambda>s. (Panic p, s))"

definition go_bind :: "('s, 'a) go \<Rightarrow> ('a \<Rightarrow> ('s, 'b) go) \<Rightarrow> ('s, 'b) go" where
  "go_bind m f =
     (\<lambda>s. case m s of (r, s') \<Rightarrow> (case r of Ret v \<Rightarrow> f v s' | Panic p \<Rightarrow> (Panic p, s')))"

lemma go_bind_Ret [exec_simps]: "m s = (Ret v, s') \<Longrightarrow> go_bind m f s = f v s'"
  by (simp add: go_bind_def)

lemma go_bind_Panic [exec_simps]: "m s = (Panic p, s') \<Longrightarrow> go_bind m f s = (Panic p, s')"
  by (simp add: go_bind_def)

lemma go_bind_return [simp]: "go_bind (go_return v) f = f v" "go_bind (Pair (Ret v)) f = f v"
  by (simp_all add: go_bind_def go_return_def)

lemma go_bind_panic [simp]:
  "go_bind (go_panic p) f = go_panic p" "go_bind (Pair (Panic p)) f = go_panic p"
  by (simp_all add: go_bind_def go_panic_def)

lemma go_return_apply [simp]: "go_return v s = (Ret v, s)"
  by (simp add: go_return_def)

lemma go_panic_apply [simp]: "go_panic p s = (Panic p, s)"
  by (simp add: go_panic_def)

lemma go_bind_assoc: "go_bind (go_bind m f) g = go_bind m (\<lambda>x. go_bind (f x) g)"
  by (auto simp: go_bind_def fun_eq_iff split: prod.splits exec.splits)

lemma go_bind_cases:
  assumes "go_bind m f s = (r, t)"
  obtains (panic) p where "m s = (Panic p, t)" and "r = Panic p"
  | (ret) v s' where "m s = (Ret v, s')" and "f v s' = (r, t)"
  using assms by (auto simp: go_bind_def split: prod.splits exec.splits)

subsection \<open>Reasoning about sequenced effects\<close>

text \<open>
  \<open>wp m Q s\<close>: running \<open>m\<close> in \<open>s\<close> ends in an outcome and a state that \<open>Q\<close> accepts. The rules
  \<open>wp_intro\<close> follow the text of a definition; what is left is one goal per path through it.
\<close>

named_theorems wp_intro \<open>one rule per construct of a definition\<close>

definition wp :: "('s, 'a) go \<Rightarrow> ('a exec \<Rightarrow> 's \<Rightarrow> bool) \<Rightarrow> 's \<Rightarrow> bool" where
  "wp m Q s \<longleftrightarrow> (case m s of (r, s') \<Rightarrow> Q r s')"

lemma wpD: "wp m Q s \<Longrightarrow> m s = (r, s') \<Longrightarrow> Q r s'"
  by (simp add: wp_def)

lemma wpI: "(\<And>r s'. m s = (r, s') \<Longrightarrow> Q r s') \<Longrightarrow> wp m Q s"
  by (auto simp: wp_def)

lemma wp_mono: "wp m P s \<Longrightarrow> (\<And>r s'. P r s' \<Longrightarrow> Q r s') \<Longrightarrow> wp m Q s"
  by (auto simp: wp_def)

lemma wp_Pair [simp]: "wp (Pair r) Q s = Q r s"
  by (simp add: wp_def)

lemma wp_return [wp_intro]: "Q (Ret v) s \<Longrightarrow> wp (go_return v) Q s"
  by (simp add: wp_def)

lemma wp_panic [wp_intro]: "Q (Panic p) s \<Longrightarrow> wp (go_panic p) Q s"
  by (simp add: wp_def)

lemma wp_bind:
  "wp m (\<lambda>r s'. case r of Ret v \<Rightarrow> wp (k v) Q s' | Panic p \<Rightarrow> Q (Panic p) s') s \<Longrightarrow>
   wp (go_bind m k) Q s"
  by (auto simp: wp_def go_bind_def split: prod.splits exec.splits)

lemma wp_case_sum [wp_intro]:
  "(\<And>a. x = Inl a \<Longrightarrow> wp (f a) Q s) \<Longrightarrow> (\<And>b. x = Inr b \<Longrightarrow> wp (g b) Q s) \<Longrightarrow>
   wp (case x of Inl a \<Rightarrow> f a | Inr b \<Rightarrow> g b) Q s"
  by (cases x) auto

lemma wp_case_option [wp_intro]:
  "(x = None \<Longrightarrow> wp f Q s) \<Longrightarrow> (\<And>a. x = Some a \<Longrightarrow> wp (g a) Q s) \<Longrightarrow>
   wp (case x of None \<Rightarrow> f | Some a \<Rightarrow> g a) Q s"
  by (cases x) auto

lemma wp_case_prod [wp_intro]:
  "(\<And>a b. x = (a, b) \<Longrightarrow> wp (f a b) Q s) \<Longrightarrow> wp (case x of (a, b) \<Rightarrow> f a b) Q s"
  by (cases x) auto

lemma wp_case_list [wp_intro]:
  "(x = [] \<Longrightarrow> wp f Q s) \<Longrightarrow> (\<And>a as. x = a # as \<Longrightarrow> wp (g a as) Q s) \<Longrightarrow>
   wp (case x of [] \<Rightarrow> f | a # as \<Rightarrow> g a as) Q s"
  by (cases x) auto

lemma wp_if [wp_intro]:
  "(b \<Longrightarrow> wp f Q s) \<Longrightarrow> (\<not> b \<Longrightarrow> wp g Q s) \<Longrightarrow> wp (if b then f else g) Q s"
  by simp

section \<open>Strings\<close>

text \<open>\<^verbatim>\<open>strconv.Itoa\<close> and the verb \<^verbatim>\<open>%d\<close>.\<close>

fun nat_digits :: "nat \<Rightarrow> string" where
  "nat_digits n =
     (if n < 10 then [char_of (48 + n)] else nat_digits (n div 10) @ [char_of (48 + n mod 10)])"

declare nat_digits.simps [simp del]

definition digits_value :: "string \<Rightarrow> nat" where
  "digits_value = foldl (\<lambda>a c. 10 * a + (of_char c - 48)) 0"

lemma digits_value_nat_digits: "digits_value (nat_digits n) = n"
proof (induction n rule: nat_digits.induct)
  case (1 n)
  have d: "of_char (char_of (48 + m) :: char) = 48 + (m :: nat)" if "m < 10" for m
    using that by simp
  show ?case
  proof (cases "n < 10")
    case True
    with d [of n] show ?thesis by (simp add: nat_digits.simps [of n] digits_value_def)
  next
    case False
    have "digits_value (nat_digits n) = 10 * digits_value (nat_digits (n div 10)) + n mod 10"
      using False d [of "n mod 10"] by (simp add: nat_digits.simps [of n] digits_value_def)
    with 1 False show ?thesis by simp
  qed
qed

lemma nat_digits_inject [simp]: "nat_digits m = nat_digits n \<longleftrightarrow> m = n"
  by (metis digits_value_nat_digits)

definition itoa :: "int \<Rightarrow> string" where
  "itoa i = (if i < 0 then CHR ''-'' # nat_digits (nat (- i)) else nat_digits (nat i))"

text \<open>
  The verb \<^verbatim>\<open>%q\<close> (\<^verbatim>\<open>strconv.Quote\<close>) on a string of printable bytes: a backslash goes before a
  double quote and before a backslash.
\<close>

fun quote_body :: "string \<Rightarrow> string" where
  "quote_body [] = []"
| "quote_body (c # cs) =
     (if c = CHR 0x22 \<or> c = CHR 0x5C then CHR 0x5C # c # quote_body cs else c # quote_body cs)"

definition quote :: "string \<Rightarrow> string" where
  "quote s = CHR 0x22 # quote_body s @ [CHR 0x22]"

text \<open>\<^verbatim>\<open>strings.Join\<close>.\<close>

fun join :: "string \<Rightarrow> string list \<Rightarrow> string" where
  "join sep [] = []"
| "join sep [s] = s"
| "join sep (s # t # ts) = s @ sep @ join sep (t # ts)"

text \<open>\<^verbatim>\<open>strings.HasPrefix\<close>.\<close>

fun has_prefix :: "string \<Rightarrow> string \<Rightarrow> bool" where
  "has_prefix s [] = True"
| "has_prefix [] (p # ps) = False"
| "has_prefix (c # cs) (p # ps) = (c = p \<and> has_prefix cs ps)"

text \<open>\<^verbatim>\<open>strings.Contains\<close>.\<close>

fun contains_str :: "string \<Rightarrow> string \<Rightarrow> bool" where
  "contains_str [] sub = (sub = [])"
| "contains_str (c # cs) sub = (has_prefix (c # cs) sub \<or> contains_str cs sub)"

text \<open>\<^verbatim>\<open>strings.TrimSpace\<close>: the ASCII white space of \<^verbatim>\<open>unicode.IsSpace\<close>.\<close>

definition is_space :: "char \<Rightarrow> bool" where
  "is_space c \<longleftrightarrow> c \<in> {CHR 0x09, CHR 0x0A, CHR 0x0B, CHR 0x0C, CHR 0x0D, CHR 0x20}"

definition trim_space :: "string \<Rightarrow> string" where
  "trim_space s = rev (dropWhile is_space (rev (dropWhile is_space s)))"

text \<open>\<^verbatim>\<open>strings.ToLower\<close> on ASCII.\<close>

definition lower_char :: "char \<Rightarrow> char" where
  "lower_char c =
     (if 65 \<le> (of_char c :: nat) \<and> (of_char c :: nat) \<le> 90 then char_of ((of_char c :: nat) + 32)
      else c)"

definition to_lower :: "string \<Rightarrow> string" where
  "to_lower = map lower_char"

text \<open>\<^verbatim>\<open>strings.Split\<close> at a one-byte separator: never empty, and joining gives the input back.\<close>

fun split_at :: "char \<Rightarrow> string \<Rightarrow> string list" where
  "split_at sep [] = [[]]"
| "split_at sep (c # cs) =
     (if c = sep then [] # split_at sep cs
      else (case split_at sep cs of [] \<Rightarrow> [[c]] | p # ps \<Rightarrow> (c # p) # ps))"

lemma split_at_nonempty [simp]: "split_at sep s \<noteq> []"
  by (induction s) (auto split: list.splits)

lemma join_split_at: "join [sep] (split_at sep s) = s"
proof (induction s)
  case Nil
  then show ?case by simp
next
  case (Cons c cs)
  obtain p ps where "split_at sep cs = p # ps"
    by (cases "split_at sep cs") auto
  with Cons show ?case by (cases ps) auto
qed

lemma split_at_no_sep: "p \<in> set (split_at sep s) \<Longrightarrow> sep \<notin> set p"
  by (induction s arbitrary: p) (auto split: if_splits list.splits)

lemma has_prefix_append [simp]: "has_prefix (p @ s) p"
  by (induction p) auto

lemma has_prefix_iff: "has_prefix s p \<longleftrightarrow> (\<exists>r. s = p @ r)"
  by (induction s p rule: has_prefix.induct) auto

section \<open>Slices and maps\<close>

text \<open>
  A Go map is a partial function. A \<^verbatim>\<open>range\<close> over it visits its keys in an order the language
  leaves open: a function that ranges over a map takes that order as an argument, a list that
  \<open>ranges\<close> over the map.
\<close>

definition ranges :: "'k list \<Rightarrow> ('k \<rightharpoonup> 'v) \<Rightarrow> bool" where
  "ranges ks m \<longleftrightarrow> distinct ks \<and> set ks = dom m"

lemma ranges_empty [simp]: "ranges ks Map.empty \<longleftrightarrow> ks = []"
  by (auto simp: ranges_def)

lemma rangesD: "ranges ks m \<Longrightarrow> distinct ks" "ranges ks m \<Longrightarrow> set ks = dom m"
  by (auto simp: ranges_def)

text \<open>A missing key of a \<^verbatim>\<open>map[string]string\<close> reads as the empty string.\<close>

definition get_str :: "('k \<rightharpoonup> string) \<Rightarrow> 'k \<Rightarrow> string" where
  "get_str m k = (case m k of None \<Rightarrow> [] | Some v \<Rightarrow> v)"

lemma get_str_simps [simp]:
  "get_str Map.empty k = []"
  "get_str (m(k \<mapsto> v)) k = v"
  "k \<noteq> j \<Longrightarrow> get_str (m(k \<mapsto> v)) j = get_str m j"
  by (simp_all add: get_str_def)

text \<open>The first element of a slice, if it has one.\<close>

fun head_opt :: "'a list \<Rightarrow> 'a option" where
  "head_opt [] = None"
| "head_opt (x # xs) = Some x"

lemma head_opt_append [simp]:
  "head_opt (xs @ ys) = (case head_opt xs of None \<Rightarrow> head_opt ys | Some x \<Rightarrow> Some x)"
  by (cases xs) auto

lemma head_opt_None [simp]: "head_opt xs = None \<longleftrightarrow> xs = []"
  by (cases xs) auto

lemma map_of_map_key: "distinct (map k xs) \<Longrightarrow> x \<in> set xs \<Longrightarrow> map_of (map (\<lambda>x. (k x, x)) xs) (k x) = Some x"
  by (induction xs) (auto simp: image_iff)

end
