(* ===== verification/Wolf_Errors.thy ===== *)
theory Wolf_Errors
  imports Go_Prelude
begin

text \<open>
  The application errors of \<^verbatim>\<open>src/errors\<close> and their translation to transport codes.

  A Go error value is a tree: an \<^verbatim>\<open>*AppError\<close>, a \<^verbatim>\<open>*wrappedError\<close> of \<^verbatim>\<open>capture.go\<close>, the result of
  \<^verbatim>\<open>fmt.Errorf\<close> (literal text and \<^verbatim>\<open>%w\<close> operands), a sentinel of \<^verbatim>\<open>errors.New\<close>, or the result of
  \<^verbatim>\<open>errors.Join\<close>. \<open>errors_As\<close> and \<open>errors_Is\<close> are the library's depth-first walks of that tree.
  The second half holds the error mappings of the HTTP and gRPC layers.
\<close>

section \<open>Codes and error values\<close>

type_synonym error_code = string

abbreviation ErrNotFound :: error_code where "ErrNotFound \<equiv> ''NOT_FOUND''"
abbreviation ErrConflict :: error_code where "ErrConflict \<equiv> ''CONFLICT''"
abbreviation ErrValidation :: error_code where "ErrValidation \<equiv> ''VALIDATION''"
abbreviation ErrUnauthorized :: error_code where "ErrUnauthorized \<equiv> ''UNAUTHORIZED''"
abbreviation ErrForbidden :: error_code where "ErrForbidden \<equiv> ''FORBIDDEN''"
abbreviation ErrInternal :: error_code where "ErrInternal \<equiv> ''INTERNAL''"
abbreviation ErrRateLimited :: error_code where "ErrRateLimited \<equiv> ''RATE_LIMITED''"
abbreviation ErrUnavailable :: error_code where "ErrUnavailable \<equiv> ''UNAVAILABLE''"
abbreviation ErrTimeout :: error_code where "ErrTimeout \<equiv> ''TIMEOUT''"

datatype goerr =
    AppError error_code string string "goerr option"
  | WrappedError string goerr
  | Errorf "fmt_piece list"
  | ErrorsNew string
  | JoinError "goerr list"
and fmt_piece =
    Lit string
  | Verb_w goerr

text \<open>The causes an error unwraps to, in the order \<^verbatim>\<open>errors.Is\<close> and \<^verbatim>\<open>errors.As\<close> visit them.\<close>

fun piece_causes :: "fmt_piece \<Rightarrow> goerr list" where
  "piece_causes (Lit s) = []"
| "piece_causes (Verb_w e) = [e]"

fun err_Unwrap :: "goerr \<Rightarrow> goerr list" where
  "err_Unwrap (AppError c m f None) = []"
| "err_Unwrap (AppError c m f (Some e)) = [e]"
| "err_Unwrap (WrappedError msg e) = [e]"
| "err_Unwrap (Errorf ps) = concat (map piece_causes ps)"
| "err_Unwrap (ErrorsNew s) = []"
| "err_Unwrap (JoinError es) = es"

text \<open>The text \<^verbatim>\<open>Error()\<close> renders.\<close>

fun err_text :: "goerr \<Rightarrow> string"
  and piece_text :: "fmt_piece \<Rightarrow> string" where
  "err_text (AppError c m f cause) =
     (if f \<noteq> [] then
        (case cause of
           Some e \<Rightarrow> ''['' @ c @ ''] '' @ f @ '': '' @ m @ '': '' @ err_text e
         | None \<Rightarrow> ''['' @ c @ ''] '' @ f @ '': '' @ m)
      else
        (case cause of
           Some e \<Rightarrow> ''['' @ c @ ''] '' @ m @ '': '' @ err_text e
         | None \<Rightarrow> ''['' @ c @ ''] '' @ m))"
| "err_text (WrappedError msg e) = msg @ '': '' @ err_text e"
| "err_text (Errorf ps) = concat (map piece_text ps)"
| "err_text (ErrorsNew s) = s"
| "err_text (JoinError es) = join [CHR 0x0A] (map err_text es)"
| "piece_text (Lit s) = s"
| "piece_text (Verb_w e) = err_text e"

text \<open>\<^verbatim>\<open>fmt.Errorf("<prefix>: %w", err)\<close>, the form most call sites use.\<close>

definition errorf_w :: "string \<Rightarrow> goerr \<Rightarrow> goerr" where
  "errorf_w prefix e = Errorf [Lit (prefix @ '': ''), Verb_w e]"

definition errorf :: "string \<Rightarrow> goerr" where
  "errorf s = Errorf [Lit s]"

section \<open>errors.As, errors.Is\<close>

text \<open>\<^verbatim>\<open>errors.As(err, &appErr)\<close>: the first \<^verbatim>\<open>*AppError\<close> of the tree, depth first.\<close>

fun first_app :: "goerr \<Rightarrow> goerr option"
  and first_app_piece :: "fmt_piece \<Rightarrow> goerr option"
  and first_app_list :: "goerr list \<Rightarrow> goerr option"
  and first_app_pieces :: "fmt_piece list \<Rightarrow> goerr option" where
  "first_app (AppError c m f cause) = Some (AppError c m f cause)"
| "first_app (WrappedError msg e) = first_app e"
| "first_app (Errorf ps) = first_app_pieces ps"
| "first_app (ErrorsNew s) = None"
| "first_app (JoinError es) = first_app_list es"
| "first_app_piece (Lit s) = None"
| "first_app_piece (Verb_w e) = first_app e"
| "first_app_list [] = None"
| "first_app_list (e # es) =
     (case first_app e of Some a \<Rightarrow> Some a | None \<Rightarrow> first_app_list es)"
| "first_app_pieces [] = None"
| "first_app_pieces (p # ps) =
     (case first_app_piece p of Some a \<Rightarrow> Some a | None \<Rightarrow> first_app_pieces ps)"

definition errors_As :: "goerr \<Rightarrow> (error_code \<times> string \<times> string) option" where
  "errors_As e =
     (case first_app e of
        Some (AppError c m f cause) \<Rightarrow> Some (c, m, f)
      | _ \<Rightarrow> None)"

text \<open>
  The method \<^verbatim>\<open>(e *AppError) Is(target)\<close>, and the test \<^verbatim>\<open>errors.Is\<close> makes at one node: the two
  values are the same sentinel, or the node's \<^verbatim>\<open>Is\<close> method accepts the target. Targets in the
  sources are \<^verbatim>\<open>*AppError\<close> sentinels and values of \<^verbatim>\<open>errors.New\<close>.
\<close>

definition AppError_Is :: "error_code \<Rightarrow> goerr \<Rightarrow> bool" where
  "AppError_Is c target = (case errors_As target of Some (c', m', f') \<Rightarrow> c = c' | None \<Rightarrow> False)"

fun is_node :: "goerr \<Rightarrow> goerr \<Rightarrow> bool" where
  "is_node (AppError c m f cause) target = AppError_Is c target"
| "is_node (ErrorsNew s) target = (target = ErrorsNew s)"
| "is_node e target = False"

fun is_tree :: "goerr \<Rightarrow> goerr \<Rightarrow> bool"
  and is_tree_piece :: "goerr \<Rightarrow> fmt_piece \<Rightarrow> bool" where
  "is_tree target (AppError c m f cause) =
     (is_node (AppError c m f cause) target \<or>
      (case cause of None \<Rightarrow> False | Some e \<Rightarrow> is_tree target e))"
| "is_tree target (WrappedError msg e) =
     (is_node (WrappedError msg e) target \<or> is_tree target e)"
| "is_tree target (Errorf ps) = list_ex (is_tree_piece target) ps"
| "is_tree target (ErrorsNew s) = is_node (ErrorsNew s) target"
| "is_tree target (JoinError es) = list_ex (is_tree target) es"
| "is_tree_piece target (Lit s) = False"
| "is_tree_piece target (Verb_w e) = is_tree target e"

definition errors_Is :: "goerr option \<Rightarrow> goerr \<Rightarrow> bool" where
  "errors_Is err target = (case err of None \<Rightarrow> False | Some e \<Rightarrow> is_tree target e)"

section \<open>Constructors and predicates\<close>

definition sentinel :: "error_code \<Rightarrow> goerr" where
  "sentinel c = AppError c [] [] None"

definition NewNotFound :: "string \<Rightarrow> string \<Rightarrow> goerr" where
  "NewNotFound entity ident =
     AppError ErrNotFound (entity @ '' with id '' @ quote ident @ '' not found'') [] None"

definition NewConflict :: "string \<Rightarrow> goerr" where
  "NewConflict msg = AppError ErrConflict msg [] None"

definition NewValidation :: "string \<Rightarrow> string \<Rightarrow> goerr" where
  "NewValidation fld msg = AppError ErrValidation msg fld None"

definition NewUnauthorized :: "string \<Rightarrow> goerr" where
  "NewUnauthorized msg = AppError ErrUnauthorized msg [] None"

definition NewForbidden :: "string \<Rightarrow> goerr" where
  "NewForbidden msg = AppError ErrForbidden msg [] None"

definition NewInternal :: "goerr option \<Rightarrow> goerr" where
  "NewInternal err = AppError ErrInternal ''an internal server error occurred'' [] err"

definition NewRateLimited :: goerr where
  "NewRateLimited = AppError ErrRateLimited ''too many requests, please slow down'' [] None"

definition NewUnavailable :: "string \<Rightarrow> goerr" where
  "NewUnavailable msg = AppError ErrUnavailable msg [] None"

definition NewTokenExpired :: goerr where
  "NewTokenExpired = AppError ErrUnauthorized ''token has expired'' [] None"

definition NewTokenInvalid :: "string \<Rightarrow> goerr" where
  "NewTokenInvalid reason = AppError ErrUnauthorized (''invalid token: '' @ reason) [] None"

definition NewTokenRevoked :: goerr where
  "NewTokenRevoked = AppError ErrUnauthorized ''token has been revoked'' [] None"

definition NewInsufficientRole :: "string list \<Rightarrow> goerr" where
  "NewInsufficientRole required =
     AppError ErrForbidden (''requires one of roles: '' @ join '', '' required) [] None"

definition NewInsufficientPermission :: "string \<Rightarrow> goerr" where
  "NewInsufficientPermission perm = AppError ErrForbidden (''missing permission: '' @ perm) [] None"

abbreviation NewPasswordMismatch :: goerr where
  "NewPasswordMismatch \<equiv> AppError ErrValidation ''incorrect email or password'' [] None"

abbreviation IsNotFound :: "goerr option \<Rightarrow> bool" where
  "IsNotFound err \<equiv> errors_Is err (sentinel ErrNotFound)"
abbreviation IsConflict :: "goerr option \<Rightarrow> bool" where
  "IsConflict err \<equiv> errors_Is err (sentinel ErrConflict)"
abbreviation IsValidation :: "goerr option \<Rightarrow> bool" where
  "IsValidation err \<equiv> errors_Is err (sentinel ErrValidation)"
abbreviation IsUnauthorized :: "goerr option \<Rightarrow> bool" where
  "IsUnauthorized err \<equiv> errors_Is err (sentinel ErrUnauthorized)"
abbreviation IsForbidden :: "goerr option \<Rightarrow> bool" where
  "IsForbidden err \<equiv> errors_Is err (sentinel ErrForbidden)"
abbreviation IsInternal :: "goerr option \<Rightarrow> bool" where
  "IsInternal err \<equiv> errors_Is err (sentinel ErrInternal)"
abbreviation IsRateLimited :: "goerr option \<Rightarrow> bool" where
  "IsRateLimited err \<equiv> errors_Is err (sentinel ErrRateLimited)"
abbreviation IsUnavailable :: "goerr option \<Rightarrow> bool" where
  "IsUnavailable err \<equiv> errors_Is err (sentinel ErrUnavailable)"

section \<open>Wrap and Do\<close>

definition Wrap :: "goerr option \<Rightarrow> string \<Rightarrow> goerr option" where
  "Wrap cause msg = (case cause of None \<Rightarrow> None | Some e \<Rightarrow> Some (WrappedError msg e))"

text \<open>\<^verbatim>\<open>errors.Join\<close>: nil errors are dropped, and with none left the result is nil.\<close>

definition errors_Join :: "goerr option list \<Rightarrow> goerr option" where
  "errors_Join errs =
     (let es = map the (filter (\<lambda>e. e \<noteq> None) errs) in if es = [] then None else Some (JoinError es))"

text \<open>
  \<^verbatim>\<open>Do(&err, closer, msg)\<close>: the closer runs on the caller's state and \<^verbatim>\<open>*err\<close> is returned with that
  state.
\<close>

definition Do :: "goerr option \<Rightarrow> ('s \<Rightarrow> goerr option \<times> 's) \<Rightarrow> string \<Rightarrow> 's \<Rightarrow> goerr option \<times> 's" where
  "Do err closer msg s =
     (case closer s of (closeErr, s') \<Rightarrow>
        if closeErr = None then (err, s')
        else (errors_Join [err, Wrap closeErr msg], s'))"

section \<open>Loops that stop at the first error\<close>

text \<open>
  The shape \<^verbatim>\<open>for _, x := range xs { if err := f(x); err != nil { return err } }\<close>, with the panics of
  \<^verbatim>\<open>f\<close> unwinding the loop.
\<close>

fun for_err :: "('a \<Rightarrow> ('s, goerr option) go) \<Rightarrow> 'a list \<Rightarrow> ('s, goerr option) go" where
  "for_err f [] = go_return None"
| "for_err f (x # xs) =
     go_bind (f x) (\<lambda>err. case err of Some e \<Rightarrow> go_return (Some e) | None \<Rightarrow> for_err f xs)"

section \<open>The codes of an error tree\<close>

text \<open>Every \<^verbatim>\<open>AppError\<close> code of the tree, in the order the walk of \<^verbatim>\<open>errors.Is\<close> meets them.\<close>

fun codes_of :: "goerr \<Rightarrow> error_code list"
  and codes_of_piece :: "fmt_piece \<Rightarrow> error_code list" where
  "codes_of (AppError c m f cause) =
     c # (case cause of None \<Rightarrow> [] | Some e \<Rightarrow> codes_of e)"
| "codes_of (WrappedError msg e) = codes_of e"
| "codes_of (Errorf ps) = concat (map codes_of_piece ps)"
| "codes_of (ErrorsNew s) = []"
| "codes_of (JoinError es) = concat (map codes_of es)"
| "codes_of_piece (Lit s) = []"
| "codes_of_piece (Verb_w e) = codes_of e"

lemma errors_As_sentinel [simp]: "errors_As (sentinel c) = Some (c, [], [])"
  by (simp add: errors_As_def sentinel_def)

lemma AppError_Is_sentinel [simp]: "AppError_Is c (sentinel d) = (c = d)"
  by (simp add: AppError_Is_def)

lemma is_node_ErrorsNew_sentinel [simp]: "\<not> is_node (ErrorsNew s) (sentinel c)"
  by (simp add: sentinel_def)

lemma is_tree_sentinel:
  "is_tree (sentinel c) e = (c \<in> set (codes_of e))"
  "is_tree_piece (sentinel c) p = (c \<in> set (codes_of_piece p))"
proof (induction e and p)
  case (AppError d m f cause)
  then show ?case by (cases cause) auto
qed (auto simp: list_ex_iff sentinel_def)

lemma errors_Is_sentinel:
  "errors_Is (Some e) (sentinel c) = (c \<in> set (codes_of e))"
  by (simp add: errors_Is_def is_tree_sentinel)

lemma first_app_codes:
  "map_option (\<lambda>a. hd (codes_of a)) (first_app e)
     = head_opt (codes_of e)"
  "map_option (\<lambda>a. hd (codes_of a)) (first_app_piece p)
     = head_opt (codes_of_piece p)"
  "map_option (\<lambda>a. hd (codes_of a)) (first_app_list es)
     = head_opt (concat (map codes_of es))"
  "map_option (\<lambda>a. hd (codes_of a)) (first_app_pieces ps)
     = head_opt (concat (map codes_of_piece ps))"
proof (induction e and p and es and ps
    rule: first_app_first_app_piece_first_app_list_first_app_pieces.induct)
  case (9 e es)
  then show ?case by (cases "first_app e") (auto split: option.splits)
next
  case (11 p ps)
  then show ?case by (cases "first_app_piece p") (auto split: option.splits)
qed (auto split: option.splits)

lemma first_app_is_app:
  "first_app e = Some a \<Longrightarrow> \<exists>c m f cause. a = AppError c m f cause"
  "first_app_piece p = Some a \<Longrightarrow> \<exists>c m f cause. a = AppError c m f cause"
  "first_app_list es = Some a \<Longrightarrow> \<exists>c m f cause. a = AppError c m f cause"
  "first_app_pieces ps = Some a \<Longrightarrow> \<exists>c m f cause. a = AppError c m f cause"
  by (induction e and p and es and ps
      rule: first_app_first_app_piece_first_app_list_first_app_pieces.induct)
    (auto split: option.splits)

lemma errors_As_code:
  "map_option fst (errors_As e) = head_opt (codes_of e)"
proof (cases "first_app e")
  case None
  then show ?thesis using first_app_codes(1) [of e] by (simp add: errors_As_def)
next
  case (Some a)
  then obtain c m f cause where "a = AppError c m f cause"
    using first_app_is_app(1) by blast
  then show ?thesis
    using first_app_codes(1) [of e] Some
    by (cases "codes_of e") (simp_all add: errors_As_def)
qed

lemma codes_of_Wrap [simp]: "Wrap (Some e) msg = Some (WrappedError msg e)"
  by (simp add: Wrap_def)

lemma errors_Is_errorf_w [simp]:
  "is_tree t (errorf_w p e) = is_tree t e"
  by (simp add: errorf_w_def)

lemma errors_As_errorf_w [simp]: "errors_As (errorf_w p e) = errors_As e"
  by (simp add: errorf_w_def errors_As_def split: option.splits)

lemma errors_Join_Is:
  "errors_Is (errors_Join errs) t = (\<exists>err \<in> set errs. errors_Is err t)"
  by (auto simp: errors_Join_def errors_Is_def Let_def list_ex_iff filter_empty_conv
      split: option.splits)

lemma Do_Is:
  "closer s = (closeErr, s') \<Longrightarrow>
   errors_Is (fst (Do err closer msg s)) t = (errors_Is err t \<or> errors_Is closeErr t)"
proof (cases closeErr)
  case (Some e)
  moreover have "errors_Is (Some (WrappedError msg e)) t = errors_Is (Some e) t"
    by (simp add: errors_Is_def)
  ultimately show "closer s = (closeErr, s') \<Longrightarrow> ?thesis"
    by (simp add: Do_def errors_Join_Is)
qed (simp add: Do_def errors_Is_def)

section \<open>Facts on the loops\<close>

text \<open>Sequencing of two steps that stop at an error: the locales of the buses are stated with it.\<close>

definition and_then :: "('s, goerr option) go \<Rightarrow> ('s, goerr option) go \<Rightarrow> ('s, goerr option) go" where
  "and_then m k = go_bind m (\<lambda>err. case err of Some e \<Rightarrow> go_return (Some e) | None \<Rightarrow> k)"

lemma for_err_Cons_and_then: "for_err f (x # xs) = and_then (f x) (for_err f xs)"
  by (simp add: and_then_def)

lemma and_then_return [simp]:
  "and_then (go_return None) k = k"
  "and_then m (go_return None) = m"
  "and_then (Pair (Ret None)) k = k"
  "and_then m (Pair (Ret None)) = m"
  by (auto simp: and_then_def go_bind_def fun_eq_iff split: prod.splits exec.splits option.splits)

lemma for_err_single: "for_err f [x] = f x"
  by (simp add: for_err_Cons_and_then del: for_err.simps(2))

lemma and_then_assoc: "and_then (and_then a b) c = and_then a (and_then b c)"
  by (auto simp: and_then_def go_bind_def fun_eq_iff split: prod.splits exec.splits option.splits)

lemma for_err_append: "for_err f (xs @ ys) = and_then (for_err f xs) (for_err f ys)"
  by (induction xs) (simp_all add: for_err_Cons_and_then and_then_assoc del: for_err.simps(2))

lemma and_then_None:
  "and_then a b s = (Ret None, t) \<longleftrightarrow> (\<exists>u. a s = (Ret None, u) \<and> b u = (Ret None, t))"
  by (auto simp: and_then_def go_bind_def split: prod.splits exec.splits option.splits)

text \<open>A property every step keeps is kept by the loop.\<close>

lemma for_err_inv:
  assumes "for_err f xs s = (r, t)" and "P s"
    and "\<And>x s r t. x \<in> set xs \<Longrightarrow> f x s = (r, t) \<Longrightarrow> P s \<Longrightarrow> P t"
  shows "P t"
  using assms
proof (induction xs arbitrary: s)
  case (Cons x xs)
  obtain y u where y: "f x s = (y, u)" by fastforce
  have "P u" using Cons.prems(2) Cons.prems(3) [of x s y u] y by simp
  moreover have "t = u \<or> for_err f xs u = (r, t)"
    using Cons.prems(1) y by (auto simp: go_bind_def split: exec.splits option.splits)
  moreover have "P t" if "for_err f xs u = (r, t)"
    using Cons.IH [OF that \<open>P u\<close>] Cons.prems(3) by (meson list.set_intros(2))
  ultimately show ?case by blast
qed simp

text \<open>A loop none of whose steps fails visits every element.\<close>

lemma for_err_all_ok:
  assumes "\<And>x s. x \<in> set xs \<Longrightarrow> f x s = (Ret None, g x s)"
  shows "for_err f xs s = (Ret None, fold g xs s)"
  using assms by (induction xs arbitrary: s) (simp_all add: go_bind_def)

text \<open>A loop that ends with an error or a panic stopped at one element, after its predecessors
  succeeded.\<close>

lemma for_err_stops:
  assumes "for_err f xs s = (r, t)" and "r \<noteq> Ret None"
  obtains ys x zs u where "xs = ys @ x # zs" and "for_err f ys s = (Ret None, u)" and "f x u = (r, t)"
  using assms
proof (induction xs arbitrary: s thesis)
  case (Cons y ys)
  show ?case
  proof (cases "\<exists>u. f y s = (Ret None, u)")
    case True
    then obtain u where u: "f y s = (Ret None, u)" by blast
    with Cons.prems have "for_err f ys u = (r, t)" by (simp add: go_bind_def)
    with Cons.prems(3) obtain as x bs w
      where "ys = as @ x # bs" "for_err f as u = (Ret None, w)" "f x w = (r, t)"
      using Cons.IH by blast
    with u Cons.prems(1) [of "y # as" x bs w] show ?thesis by (simp add: go_bind_def)
  next
    case False
    with Cons.prems have "f y s = (r, t)"
      by (auto simp: go_bind_def split: prod.splits exec.splits option.splits)
    with Cons.prems(1) [of "[]"] show ?thesis by simp
  qed
qed simp

section \<open>Property of the error tree\<close>

text \<open>codes are found through any wrapping: \<^verbatim>\<open>errors.Is\<close> with a sentinel holds exactly when its code
  occurs somewhere in the tree, \<^verbatim>\<open>errors.As\<close> finds the first application error in the order of the
  walk, \<^verbatim>\<open>Wrap\<close> and \<^verbatim>\<open>fmt.Errorf\<close> with \<^verbatim>\<open>%w\<close> change neither, and a join matches what one of its parts
  matches.\<close>

theorem error_tree_search:
  "errors_Is (Some e) (sentinel c) = (c \<in> set (codes_of e))
   \<and> map_option fst (errors_As e) = head_opt (codes_of e)
   \<and> errors_Is (Wrap (Some e) m) (sentinel c) = errors_Is (Some e) (sentinel c)
   \<and> errors_Is (Some (errorf_w p e)) (sentinel c) = errors_Is (Some e) (sentinel c)
   \<and> errors_As (errorf_w p e) = errors_As e
   \<and> errors_Is (errors_Join errs) (sentinel c) = (\<exists>err \<in> set errs. errors_Is err (sentinel c))"
  using errors_Is_sentinel [of e c] errors_As_code [of e] errors_Join_Is [of errs "sentinel c"]
  by (auto simp: errors_Is_def is_tree_sentinel)

end
