(* ===== verification/Error_Mapping.thy ===== *)
theory Error_Mapping
  imports Wolf_Errors
begin

text \<open>
  From errors to transports: the error bodies of \<^verbatim>\<open>src/infra/http/response.go\<close> and
  \<^verbatim>\<open>src/infra/http/httputil/response.go\<close>, the mappers of \<^verbatim>\<open>src/infra/middleware/http/error_handler.go\<close>
  and \<^verbatim>\<open>src/infra/middleware/grpc/error_mapper.go\<close>, and the authentication errors of both layers.

  The gin context is outside the repository: a handler is modelled by the calls it makes on it, in
  order, and what it reads from the request (the path, the request id, the headers) is a record.
  gRPC status values are likewise a code and a message; \<^verbatim>\<open>status.FromError\<close> is a parameter.
\<close>

section \<open>HTTP responses\<close>

record error_response =
  er_Type :: string
  er_Status :: int
  er_Code :: string
  er_Message :: string
  er_Instance :: string
  er_RequestID :: string
  er_Field :: string

record gin_request =
  url_path :: string
  request_id :: "string option"
  headers :: "string \<rightharpoonup> string"

datatype gin_call =
    Header string string
  | AbortWithStatusJSON int error_response
  | WriteJSON int error_response
  | SetKey string string
  | Next

fun replace_byte :: "char \<Rightarrow> char \<Rightarrow> string \<Rightarrow> string" where
  "replace_byte a b [] = []"
| "replace_byte a b (c # cs) = (if c = a then b else c) # replace_byte a b cs"

definition ErrorTypeURI :: "string \<Rightarrow> string" where
  "ErrorTypeURI code = ''/errors/'' @ to_lower (replace_byte (CHR ''_'') (CHR ''-'') code)"

definition newErrorResponse :: "int \<Rightarrow> string \<Rightarrow> string \<Rightarrow> error_response" where
  "newErrorResponse status code message =
     \<lparr>er_Type = ErrorTypeURI code, er_Status = status, er_Code = code, er_Message = message,
      er_Instance = [], er_RequestID = [], er_Field = []\<rparr>"

definition AbortWithError :: "gin_request \<Rightarrow> int \<Rightarrow> string \<Rightarrow> string \<Rightarrow> gin_call list" where
  "AbortWithError c status code message =
     (let resp = (newErrorResponse status code message)\<lparr>er_Instance := url_path c\<rparr>;
          resp = (case request_id c of None \<Rightarrow> resp | Some rid \<Rightarrow> resp\<lparr>er_RequestID := rid\<rparr>)
      in [AbortWithStatusJSON status resp])"

definition AbortUnauthorized :: "gin_request \<Rightarrow> string \<Rightarrow> gin_call list" where
  "AbortUnauthorized c message = AbortWithError c 401 ErrUnauthorized message"

definition AbortForbidden :: "gin_request \<Rightarrow> string \<Rightarrow> gin_call list" where
  "AbortForbidden c message = AbortWithError c 403 ErrForbidden message"

definition AbortTooManyRequests :: "gin_request \<Rightarrow> string \<Rightarrow> gin_call list" where
  "AbortTooManyRequests c message =
     Header ''Retry-After'' ''1'' # AbortWithError c 429 ErrRateLimited message"

definition AbortServiceUnavailable :: "gin_request \<Rightarrow> string \<Rightarrow> gin_call list" where
  "AbortServiceUnavailable c message =
     Header ''Retry-After'' ''1'' # AbortWithError c 503 ErrUnavailable message"

abbreviation AbortInternalError :: "gin_request \<Rightarrow> string \<Rightarrow> gin_call list" where
  "AbortInternalError c message \<equiv> AbortWithError c 500 ErrInternal message"

abbreviation AbortBadRequest :: "gin_request \<Rightarrow> string \<Rightarrow> gin_call list" where
  "AbortBadRequest c message \<equiv> AbortWithError c 400 ErrValidation message"

section \<open>The HTTP mappers\<close>

definition mapError :: "goerr \<Rightarrow> int \<times> string \<times> string" where
  "mapError err =
     (case errors_As err of
        Some (code, message, fld) \<Rightarrow>
          (if code = ErrNotFound then (404, code, message)
           else if code = ErrConflict then (409, code, message)
           else if code = ErrValidation then (400, code, message)
           else if code = ErrUnauthorized then (401, code, message)
           else if code = ErrForbidden then (403, code, message)
           else if code = ErrInternal then (500, code, message)
           else if code = ErrRateLimited then (429, code, message)
           else if code = ErrUnavailable then (503, code, message)
           else if code = ErrTimeout then (504, code, message)
           else (500, code, message))
      | None \<Rightarrow> (500, ''INTERNAL_ERROR'', ''an unexpected error occurred''))"

definition HandleError :: "gin_request \<Rightarrow> goerr option \<Rightarrow> gin_call list" where
  "HandleError c err =
     (case err of
        None \<Rightarrow> []
      | Some e \<Rightarrow> (case mapError e of (status, code, message) \<Rightarrow> AbortWithError c status code message))"

text \<open>The handlers run by \<^verbatim>\<open>c.Next()\<close> leave the list \<^verbatim>\<open>c.Errors\<close>.\<close>

definition ErrorHandler :: "gin_request \<Rightarrow> goerr list \<Rightarrow> gin_call list" where
  "ErrorHandler c errs = Next # (if errs = [] then [] else HandleError c (Some (last errs)))"

definition CodeToStatus :: "error_code \<Rightarrow> int" where
  "CodeToStatus code =
     (if code = ErrNotFound then 404
      else if code = ErrValidation then 400
      else if code = ErrConflict then 409
      else if code = ErrUnauthorized then 401
      else if code = ErrForbidden then 403
      else if code = ErrRateLimited then 429
      else if code = ErrUnavailable then 503
      else if code = ErrTimeout then 504
      else if code = ErrInternal then 500
      else 500)"

definition DefaultErrorMapper :: "gin_request \<Rightarrow> goerr \<Rightarrow> int \<times> error_response" where
  "DefaultErrorMapper c err =
     (case errors_As err of
        None \<Rightarrow>
          (500,
           \<lparr>er_Type = ErrorTypeURI ErrInternal, er_Status = 500, er_Code = ErrInternal,
            er_Message = ''an internal server error occurred'', er_Instance = url_path c,
            er_RequestID = [], er_Field = []\<rparr>)
      | Some (code, message, fld) \<Rightarrow>
          (let status = CodeToStatus code in
           (status,
            \<lparr>er_Type = ErrorTypeURI code, er_Status = status, er_Code = code, er_Message = message,
             er_Instance = url_path c, er_RequestID = [], er_Field = fld\<rparr>)))"

definition Responder_Error ::
  "(gin_request \<Rightarrow> goerr \<Rightarrow> int \<times> error_response) \<Rightarrow> gin_request \<Rightarrow> goerr \<Rightarrow> gin_call list" where
  "Responder_Error errorMapper c err =
     (case errorMapper c err of (status, body) \<Rightarrow> [WriteJSON status body])"

section \<open>The gRPC mappers\<close>

datatype grpc_code =
    InvalidArgument | NotFound | AlreadyExists | PermissionDenied | ResourceExhausted
  | Internal | Unauthenticated | Unavailable

type_synonym grpc_status = "grpc_code \<times> string"

definition mapGRPCError :: "goerr \<Rightarrow> grpc_status" where
  "mapGRPCError err =
     (case errors_As err of
        None \<Rightarrow> (Internal, ''internal server error'')
      | Some (code, message, fld) \<Rightarrow>
          (if code = ErrNotFound then (NotFound, message)
           else if code = ErrValidation then (InvalidArgument, message)
           else if code = ErrConflict then (AlreadyExists, message)
           else if code = ErrUnauthorized then (Unauthenticated, message)
           else if code = ErrForbidden then (PermissionDenied, message)
           else if code = ErrInternal then (Internal, message)
           else if code = ErrRateLimited then (ResourceExhausted, message)
           else (Internal, message)))"

definition ErrorMappingInterceptor ::
  "(goerr \<Rightarrow> grpc_status option) \<Rightarrow> 'r option \<times> goerr option \<Rightarrow>
   'r option \<times> (goerr + grpc_status) option" where
  "ErrorMappingInterceptor FromError handled =
     (case handled of (resp, err) \<Rightarrow>
        (case err of
           None \<Rightarrow> (resp, None)
         | Some e \<Rightarrow>
             if FromError e \<noteq> None then (None, Some (Inl e))
             else (None, Some (Inr (mapGRPCError e)))))"

definition mapAuthError :: "goerr \<Rightarrow> grpc_status" where
  "mapAuthError err =
     (case errors_As err of
        Some (code, message, fld) \<Rightarrow>
          (if code = ErrForbidden then (PermissionDenied, message) else (Unauthenticated, message))
      | None \<Rightarrow> (Unauthenticated, err_text err))"

definition writeAuthError :: "gin_request \<Rightarrow> goerr \<Rightarrow> gin_call list" where
  "writeAuthError c err =
     (if map_option fst (errors_As err) = Some ErrForbidden
      then AbortForbidden c (err_text err)
      else AbortUnauthorized c (err_text err))"

section \<open>Lemmas\<close>

text \<open>The HTTP status the public error-code tables give a gRPC status code.\<close>

fun http_of_grpc :: "grpc_code \<Rightarrow> int" where
  "http_of_grpc InvalidArgument = 400"
| "http_of_grpc NotFound = 404"
| "http_of_grpc AlreadyExists = 409"
| "http_of_grpc PermissionDenied = 403"
| "http_of_grpc ResourceExhausted = 429"
| "http_of_grpc Internal = 500"
| "http_of_grpc Unauthenticated = 401"
| "http_of_grpc Unavailable = 503"

lemma errors_As_None: "errors_As e = None \<longleftrightarrow> codes_of e = []"
  using errors_As_code [of e] by (metis head_opt_None map_option_is_None)

lemma errors_As_Some: "errors_As e = Some (c, m, f) \<Longrightarrow> head_opt (codes_of e) = Some c"
  using errors_As_code [of e] by simp

lemma error_codes_distinct:
  "distinct [ErrNotFound, ErrConflict, ErrValidation, ErrUnauthorized, ErrForbidden, ErrInternal,
             ErrRateLimited, ErrUnavailable, ErrTimeout]"
  by simp

lemma mapError_status:
  "fst (mapError e) = (case errors_As e of None \<Rightarrow> 500 | Some (c, m, f) \<Rightarrow> CodeToStatus c)"
  by (auto simp: mapError_def CodeToStatus_def split: option.splits)

lemma DefaultErrorMapper_status:
  "fst (DefaultErrorMapper c e) = (case errors_As e of None \<Rightarrow> 500 | Some (c, m, f) \<Rightarrow> CodeToStatus c)"
  by (auto simp: DefaultErrorMapper_def Let_def split: option.splits)

lemma HandleError_calls:
  "HandleError c (Some e) = AbortWithError c (fst (mapError e)) (fst (snd (mapError e))) (snd (snd (mapError e)))"
  by (simp add: HandleError_def split: prod.splits)

text \<open>the two HTTP error paths answer with the same status: what \<^verbatim>\<open>ErrorHandler\<close> aborts with for
  the last error of the request is what the default responder writes for it, and it is the status of
  the first application error met in the error tree (500 when there is none).\<close>

theorem http_error_paths_agree:
  "\<exists>b b'. ErrorHandler c (errs @ [e]) = [Next, AbortWithStatusJSON (er_Status b) b]
        \<and> Responder_Error DefaultErrorMapper c e = [WriteJSON (er_Status b) b']
        \<and> er_Status b' = er_Status b
        \<and> er_Status b = (case head_opt (codes_of e) of None \<Rightarrow> 500 | Some code \<Rightarrow> CodeToStatus code)"
proof -
  have st: "fst (mapError e) = (case head_opt (codes_of e) of None \<Rightarrow> 500 | Some code \<Rightarrow> CodeToStatus code)"
    using errors_As_None [of e]
    by (cases "errors_As e") (auto simp: mapError_status dest: errors_As_Some)
  obtain s body where m: "DefaultErrorMapper c e = (s, body)"
    by (cases "DefaultErrorMapper c e")
  then have "er_Status body = s" and "s = fst (mapError e)"
    by (auto simp: mapError_status DefaultErrorMapper_def Let_def split: option.splits)
  with m st show ?thesis
    by (auto simp: ErrorHandler_def HandleError_calls AbortWithError_def newErrorResponse_def
        Responder_Error_def Let_def split: option.splits)
qed

text \<open>the gRPC mapper agrees with the HTTP mapper on the status class of every error but two: an
  error whose first application code is UNAVAILABLE or TIMEOUT is 503 or 504 over HTTP and an
  \<^verbatim>\<open>Internal\<close> error over gRPC.\<close>

theorem grpc_http_agree_iff:
  "(http_of_grpc (fst (mapGRPCError e)) = fst (mapError e))
     \<longleftrightarrow> head_opt (codes_of e) \<notin> {Some ErrUnavailable, Some ErrTimeout}"
proof (cases "errors_As e")
  case None
  then have "codes_of e = []" using errors_As_None by blast
  with None show ?thesis by (simp add: mapGRPCError_def mapError_def)
next
  case (Some a)
  then obtain c m f where "errors_As e = Some (c, m, f)" by (cases a) auto
  then show ?thesis
    using errors_As_Some [of e c m f]
    by (auto simp: mapGRPCError_def mapError_def)
qed

end
