(* ===== verification/Wolf_Event.thy ===== *)
theory Wolf_Event
  imports Wolf_Errors
begin

text \<open>
  Domain events (\<^verbatim>\<open>src/event\<close>) and the aggregate root that records them (\<^verbatim>\<open>src/aggregate\<close>,
  \<^verbatim>\<open>src/entity\<close>, \<^verbatim>\<open>src/clock\<close>): the event value and its options, metadata and its map form, the
  in-memory bus, the typed dispatcher, the handler registry and the payload type registry.

  The payload type is a type variable. \<^verbatim>\<open>uuid.New\<close> and \<^verbatim>\<open>time.Now\<close> are arguments of the functions
  that call them; the zero \<^verbatim>\<open>time.Time\<close> is 0. An event handler is a computation on the state of
  the program around the bus.
\<close>

section \<open>Metadata\<close>

record metadata =
  TraceID :: string
  CorrelationID :: string
  CausationID :: string
  Source :: string

definition metadata_zero :: metadata where
  "metadata_zero = \<lparr>TraceID = [], CorrelationID = [], CausationID = [], Source = []\<rparr>"

abbreviation metadata_IsZero :: "metadata \<Rightarrow> bool" where
  "metadata_IsZero m \<equiv> TraceID m = [] \<and> CorrelationID m = [] \<and> CausationID m = [] \<and> Source m = []"

definition put_nonempty :: "string \<Rightarrow> string \<Rightarrow> (string \<rightharpoonup> string) \<Rightarrow> (string \<rightharpoonup> string)" where
  "put_nonempty k v m = (if v \<noteq> [] then m(k \<mapsto> v) else m)"

text \<open>The nil map is \<open>None\<close>; reading a key of it gives the empty string.\<close>

definition metadata_ToMap :: "metadata \<Rightarrow> (string \<rightharpoonup> string) option" where
  "metadata_ToMap m =
     (let n = (if TraceID m \<noteq> [] then 1 else 0) + (if CorrelationID m \<noteq> [] then 1 else 0)
            + (if CausationID m \<noteq> [] then 1 else 0) + (if Source m \<noteq> [] then (1::nat) else 0)
      in if n = 0 then None
         else Some (put_nonempty ''source'' (Source m)
                   (put_nonempty ''causation_id'' (CausationID m)
                   (put_nonempty ''correlation_id'' (CorrelationID m)
                   (put_nonempty ''trace_id'' (TraceID m) Map.empty)))))"

definition nil_get :: "(string \<rightharpoonup> string) option \<Rightarrow> string \<Rightarrow> string" where
  "nil_get m k = (case m of None \<Rightarrow> [] | Some m' \<Rightarrow> get_str m' k)"

definition MetadataFromMap :: "(string \<rightharpoonup> string) option \<Rightarrow> metadata" where
  "MetadataFromMap m =
     \<lparr>TraceID = nil_get m ''trace_id'', CorrelationID = nil_get m ''correlation_id'',
      CausationID = nil_get m ''causation_id'', Source = nil_get m ''source''\<rparr>"

section \<open>Events\<close>

record 'p event =
  ev_id :: string
  eventType :: string
  aggID :: string
  aggType :: string
  occurred :: int
  schemaVersion :: int
  payload :: 'p
  meta :: metadata

type_synonym 'p event_option = "'p event \<Rightarrow> 'p event"

definition WithCorrelationID :: "string \<Rightarrow> 'p event_option" where
  "WithCorrelationID i e = e\<lparr>meta := (meta e)\<lparr>CorrelationID := i\<rparr>\<rparr>"
definition WithCausationID :: "string \<Rightarrow> 'p event_option" where
  "WithCausationID i e = e\<lparr>meta := (meta e)\<lparr>CausationID := i\<rparr>\<rparr>"
definition WithTraceID :: "string \<Rightarrow> 'p event_option" where
  "WithTraceID i e = e\<lparr>meta := (meta e)\<lparr>TraceID := i\<rparr>\<rparr>"
definition WithSource :: "string \<Rightarrow> 'p event_option" where
  "WithSource s e = e\<lparr>meta := (meta e)\<lparr>Source := s\<rparr>\<rparr>"
abbreviation WithVersion :: "int \<Rightarrow> 'p event_option" where
  "WithVersion v e \<equiv> e\<lparr>schemaVersion := v\<rparr>"
definition WithAggregateInfo :: "string \<Rightarrow> string \<Rightarrow> 'p event_option" where
  "WithAggregateInfo i t e = e\<lparr>aggID := i, aggType := t\<rparr>"
abbreviation WithMetadata :: "metadata \<Rightarrow> 'p event_option" where
  "WithMetadata m e \<equiv> e\<lparr>meta := m\<rparr>"
definition WithID :: "string \<Rightarrow> 'p event_option" where
  "WithID i e = (if i \<noteq> [] then e\<lparr>ev_id := i\<rparr> else e)"
definition WithOccurredAt :: "int \<Rightarrow> 'p event_option" where
  "WithOccurredAt t e = (if t \<noteq> 0 then e\<lparr>occurred := t\<rparr> else e)"

definition NewEvent :: "string \<Rightarrow> int \<Rightarrow> string \<Rightarrow> 'p \<Rightarrow> 'p event_option list \<Rightarrow> 'p event" where
  "NewEvent uuid now et pl opts =
     fold (\<lambda>opt e. opt e) opts
       \<lparr>ev_id = uuid, eventType = et, aggID = [], aggType = [], occurred = now,
        schemaVersion = 1, payload = pl, meta = metadata_zero\<rparr>"

definition ToIntegrationEvent ::
  "string \<Rightarrow> int \<Rightarrow> 'q event \<Rightarrow> string \<Rightarrow> 'p \<Rightarrow> 'p event" where
  "ToIntegrationEvent uuid now d et pl =
     NewEvent uuid now et pl
       [WithAggregateInfo (aggID d) (aggType d),
        WithCorrelationID (CorrelationID (meta d)),
        WithCausationID (ev_id d),
        WithTraceID (TraceID (meta d)),
        WithSource (Source (meta d))]"

section \<open>The in-memory bus\<close>

type_synonym ('s, 'p) event_handler = "'p event \<Rightarrow> ('s, goerr option) go"
type_synonym ('s, 'p) in_memory_bus = "string \<rightharpoonup> ('s, 'p) event_handler list"

definition handlers_of :: "(string \<rightharpoonup> 'h list) \<Rightarrow> string \<Rightarrow> 'h list" where
  "handlers_of b et = (case b et of None \<Rightarrow> [] | Some hs \<Rightarrow> hs)"

definition NewInMemoryBus :: "('s, 'p) in_memory_bus" where
  "NewInMemoryBus = Map.empty"

definition InMemoryBus_Publish :: "('s, 'p) in_memory_bus \<Rightarrow> 'p event \<Rightarrow> ('s, goerr option) go" where
  "InMemoryBus_Publish b evt = for_err (\<lambda>h. h evt) (handlers_of b (eventType evt))"

definition InMemoryBus_Subscribe ::
  "string \<Rightarrow> ('s, 'p) event_handler \<Rightarrow> ('s, 'p) in_memory_bus \<Rightarrow> ('s, 'p) in_memory_bus" where
  "InMemoryBus_Subscribe et h b = b(et \<mapsto> handlers_of b et @ [h])"

section \<open>The handler registry\<close>

type_synonym ('s, 'p) handler_registry = "(string \<times> ('s, 'p) event_handler) list"

definition HandlerRegistry_Register ::
  "string \<Rightarrow> ('s, 'p) event_handler \<Rightarrow> ('s, 'p) handler_registry \<Rightarrow> ('s, 'p) handler_registry" where
  "HandlerRegistry_Register et h r = r @ [(et, h)]"

definition RegisterAll ::
  "(string \<Rightarrow> ('s, 'p) event_handler \<Rightarrow> 'b \<Rightarrow> 'b) \<Rightarrow> ('s, 'p) handler_registry \<Rightarrow> 'b \<Rightarrow> 'b" where
  "RegisterAll subscribe r sub = fold (\<lambda>(et, h) b. subscribe et h b) r sub"

section \<open>The typed dispatcher\<close>

text \<open>
  \<^verbatim>\<open>as_T\<close> is the type assertion \<^verbatim>\<open>payload.(T)\<close>, \<^verbatim>\<open>as_ptr_T\<close> is \<^verbatim>\<open>*payload.(*T)\<close>; \<open>type_T\<close> and
  \<open>type_name\<close> print \<^verbatim>\<open>%T\<close>.
\<close>

type_synonym ('s, 'p, 't) typed_handler = "'p event \<Rightarrow> 't \<Rightarrow> ('s, goerr option) go"

definition EventDispatcher_Register ::
  "('s, 'p, 't) typed_handler \<Rightarrow> ('s, 'p, 't) typed_handler list \<Rightarrow> ('s, 'p, 't) typed_handler list" where
  "EventDispatcher_Register h snapshot = snapshot @ [h]"

definition Dispatch ::
  "('p \<Rightarrow> 't option) \<Rightarrow> ('p \<Rightarrow> 't option) \<Rightarrow> string \<Rightarrow> ('p \<Rightarrow> string) \<Rightarrow>
   ('s, 'p, 't) typed_handler list \<Rightarrow> 'p event \<Rightarrow> ('s, goerr option) go" where
  "Dispatch as_T as_ptr_T type_T type_name snapshot evt =
     (case as_T (payload evt) of
        Some pl \<Rightarrow> for_err (\<lambda>h. h evt pl) snapshot
      | None \<Rightarrow>
          (case as_ptr_T (payload evt) of
             None \<Rightarrow> go_return (Some (errorf (''event: dispatcher expected payload type '' @ type_T
                                             @ '', got '' @ type_name (payload evt))))
           | Some pl \<Rightarrow> for_err (\<lambda>h. h evt pl) snapshot))"

definition AsEventHandler ::
  "('p \<Rightarrow> 't option) \<Rightarrow> ('p \<Rightarrow> 't option) \<Rightarrow> string \<Rightarrow> ('p \<Rightarrow> string) \<Rightarrow>
   ('s, 'p, 't) typed_handler list \<Rightarrow> ('s, 'p) event_handler" where
  "AsEventHandler as_T as_ptr_T type_T type_name snapshot =
     (\<lambda>evt. Dispatch as_T as_ptr_T type_T type_name snapshot evt)"

section \<open>The payload type registry\<close>

text \<open>A \<^verbatim>\<open>reflect.Type\<close>: a named type or a pointer to a type.\<close>

datatype rtype = Named string | Ptr rtype

fun rtype_string :: "rtype \<Rightarrow> string" where
  "rtype_string (Named n) = n"
| "rtype_string (Ptr t) = ''*'' @ rtype_string t"

fun elem_if_ptr :: "rtype \<Rightarrow> rtype" where
  "elem_if_ptr (Ptr t) = t"
| "elem_if_ptr (Named n) = Named n"

definition TypeRegistry_Register :: "string \<Rightarrow> rtype \<Rightarrow> (string \<rightharpoonup> rtype, unit) go" where
  "TypeRegistry_Register et exemplar r =
     (let t = elem_if_ptr exemplar in
      case r et of
        Some existing \<Rightarrow>
          if existing \<noteq> t
          then (Panic (''event: type '' @ quote et @ '' already registered as '' @ rtype_string existing
                       @ '', cannot re-register as '' @ rtype_string t), r)
          else (Ret (), r(et \<mapsto> t))
      | None \<Rightarrow> (Ret (), r(et \<mapsto> t)))"

text \<open>\<^verbatim>\<open>reflect.New(t).Interface()\<close> is a value of type \<^verbatim>\<open>*t\<close>: its type is what is modelled.\<close>

definition TypeRegistry_Build :: "(string \<rightharpoonup> rtype) \<Rightarrow> string \<Rightarrow> rtype option \<times> goerr option" where
  "TypeRegistry_Build r et =
     (case r et of
        None \<Rightarrow> (None, Some (errorf (''event: type '' @ quote et @ '' not registered'')))
      | Some t \<Rightarrow> (Some (Ptr t), None))"

definition IsRegistered :: "(string \<rightharpoonup> rtype) \<Rightarrow> string \<Rightarrow> bool" where
  "IsRegistered r et \<longleftrightarrow> r et \<noteq> None"

definition NewSerde :: "(string \<rightharpoonup> rtype) \<Rightarrow> string \<Rightarrow> string option \<times> goerr option" where
  "NewSerde r et =
     (if \<not> IsRegistered r et
      then (None, Some (errorf (''event: serde: type '' @ quote et @ '' not registered'')))
      else (Some et, None))"

definition MustSerde :: "(string \<rightharpoonup> rtype) \<Rightarrow> string \<Rightarrow> string option exec" where
  "MustSerde r et =
     (case NewSerde r et of
        (s, Some err) \<Rightarrow> Panic (err_text err)
      | (s, None) \<Rightarrow> Ret s)"

section \<open>Aggregates and entities\<close>

record 'p aggregate =
  agg_id :: string
  aggregateType :: string
  version :: int
  events :: "'p event list"
  createdAt :: int
  updatedAt :: int

definition NewBase :: "int \<Rightarrow> string \<Rightarrow> string \<Rightarrow> 'p aggregate" where
  "NewBase now i t =
     \<lparr>agg_id = i, aggregateType = t, version = 0, events = [], createdAt = now, updatedAt = now\<rparr>"

definition IncrementVersion :: "'p aggregate \<Rightarrow> 'p aggregate" where
  "IncrementVersion b = b\<lparr>version := version b + 1\<rparr>"

definition SetVersion :: "int \<Rightarrow> 'p aggregate \<Rightarrow> 'p aggregate" where
  "SetVersion v b = b\<lparr>version := v\<rparr>"

definition SetCreatedAt :: "int \<Rightarrow> 'p aggregate \<Rightarrow> 'p aggregate" where
  "SetCreatedAt t b = b\<lparr>createdAt := t\<rparr>"

definition SetUpdatedAt :: "int \<Rightarrow> 'p aggregate \<Rightarrow> 'p aggregate" where
  "SetUpdatedAt t b = b\<lparr>updatedAt := t\<rparr>"

definition AddEvent :: "'p event \<Rightarrow> 'p aggregate \<Rightarrow> 'p aggregate" where
  "AddEvent e b = b\<lparr>events := events b @ [e]\<rparr>"

definition AddDomainEvent ::
  "string \<Rightarrow> int \<Rightarrow> string \<Rightarrow> 'p \<Rightarrow> 'p event_option list \<Rightarrow> 'p aggregate \<Rightarrow> 'p aggregate" where
  "AddDomainEvent uuid now et pl opts b =
     b\<lparr>events := events b
        @ [NewEvent uuid now et pl (WithAggregateInfo (agg_id b) (aggregateType b) # opts)]\<rparr>"

definition ClearEvents :: "'p aggregate \<Rightarrow> 'p event list \<times> 'p aggregate" where
  "ClearEvents b = (events b, b\<lparr>events := []\<rparr>)"

abbreviation HasEvents :: "'p aggregate \<Rightarrow> bool" where
  "HasEvents b \<equiv> length (events b) > 0"

record entity =
  ent_id :: string
  ent_createdAt :: int
  ent_updatedAt :: int

definition NewEntity :: "int \<Rightarrow> string \<Rightarrow> entity" where
  "NewEntity now i = \<lparr>ent_id = i, ent_createdAt = now, ent_updatedAt = now\<rparr>"

definition entity_SetUpdatedAt :: "int \<Rightarrow> entity \<Rightarrow> entity" where
  "entity_SetUpdatedAt t b = b\<lparr>ent_updatedAt := t\<rparr>"

section \<open>Metadata and options: lemmas\<close>

lemma metadata_ToMap_None: "metadata_ToMap m = None \<longleftrightarrow> metadata_IsZero m"
  by (auto simp: metadata_ToMap_def)

lemma get_str_put_nonempty:
  "get_str (put_nonempty k v m) j = (if k = j \<and> v \<noteq> [] then v else get_str m j)"
  by (auto simp: put_nonempty_def get_str_def)

text \<open>trace metadata survives its map form (the form the message headers and the outbox carry):
  reading back the map gives the same four fields, and the nil map is used exactly for empty
  metadata.\<close>

theorem metadata_round_trip:
  "MetadataFromMap (metadata_ToMap m) = m \<and> (metadata_ToMap m = None \<longleftrightarrow> metadata_IsZero m)"
proof (cases "metadata_IsZero m")
  case True
  then have "MetadataFromMap None = m"
    by (cases m) (simp add: MetadataFromMap_def nil_get_def)
  with True show ?thesis using metadata_ToMap_None [of m] by auto
next
  case False
  then obtain f where "metadata_ToMap m = Some f"
      and "f = put_nonempty ''source'' (Source m)
             (put_nonempty ''causation_id'' (CausationID m)
             (put_nonempty ''correlation_id'' (CorrelationID m)
             (put_nonempty ''trace_id'' (TraceID m) Map.empty)))"
    by (auto simp: metadata_ToMap_def)
  then have "MetadataFromMap (metadata_ToMap m) = m"
    by (cases m) (simp add: MetadataFromMap_def nil_get_def get_str_put_nonempty)
  with False show ?thesis by (simp add: metadata_ToMap_None)
qed

section \<open>The bus contract\<close>

text \<open>
  What \<^verbatim>\<open>event.Bus\<close> promises its clients: publishing on an empty bus does nothing, and a
  subscription adds its handler behind those the event already reaches.
\<close>

locale event_bus =
  fixes publish :: "'b \<Rightarrow> 'p event \<Rightarrow> ('s, goerr option) go"
    and subscribe :: "string \<Rightarrow> ('s, 'p) event_handler \<Rightarrow> 'b \<Rightarrow> 'b"
    and empty_bus :: 'b
  assumes publish_empty: "publish empty_bus evt = go_return None"
    and publish_subscribe_same:
      "eventType evt = et \<Longrightarrow> publish (subscribe et h b) evt = and_then (publish b evt) (h evt)"
    and publish_subscribe_other:
      "eventType evt \<noteq> et \<Longrightarrow> publish (subscribe et h b) evt = publish b evt"
begin

lemma publish_RegisterAll:
  "publish (RegisterAll subscribe r b) evt
     = and_then (publish b evt) (for_err (\<lambda>(et, h). h evt) (filter (\<lambda>(et, h). et = eventType evt) r))"
proof (induction r arbitrary: b)
  case (Cons eh r)
  obtain et h where "eh = (et, h)" by (cases eh)
  with Cons [of "subscribe et h b"] show ?case
    by (cases "eventType evt = et")
      (simp_all add: RegisterAll_def publish_subscribe_same publish_subscribe_other
        for_err_Cons_and_then and_then_assoc del: for_err.simps(2))
qed (simp add: RegisterAll_def)

lemma publish_registered:
  "publish (RegisterAll subscribe r empty_bus) evt
     = for_err (\<lambda>(et, h). h evt) (filter (\<lambda>(et, h). et = eventType evt) r)"
  using publish_RegisterAll [of r empty_bus evt] by (simp add: publish_empty)

end

interpretation in_memory: event_bus InMemoryBus_Publish InMemoryBus_Subscribe NewInMemoryBus
proof unfold_locales
  show "InMemoryBus_Publish NewInMemoryBus evt = go_return None" for evt
    by (simp add: InMemoryBus_Publish_def NewInMemoryBus_def handlers_of_def)
  show "InMemoryBus_Publish (InMemoryBus_Subscribe et h b) evt
          = and_then (InMemoryBus_Publish b evt) (h evt)" if "eventType evt = et" for evt et h b
    using that
    by (simp add: InMemoryBus_Publish_def InMemoryBus_Subscribe_def handlers_of_def for_err_append
        for_err_Cons_and_then del: for_err.simps(2) split: option.splits)
  show "InMemoryBus_Publish (InMemoryBus_Subscribe et h b) evt = InMemoryBus_Publish b evt"
    if "eventType evt \<noteq> et" for evt et h b
    using that by (simp add: InMemoryBus_Publish_def InMemoryBus_Subscribe_def handlers_of_def)
qed

text \<open>a bus filled from a handler registry delivers an event to exactly the handlers registered
  for its type, in registration order, and stops at the first one that fails.\<close>

theorem registry_delivery:
  "InMemoryBus_Publish (RegisterAll InMemoryBus_Subscribe r NewInMemoryBus) evt
     = for_err (\<lambda>(et, h). h evt) (filter (\<lambda>(et, h). et = eventType evt) r)"
  by (rule in_memory.publish_registered)

section \<open>Aggregates: lemmas\<close>

lemma ToIntegrationEvent_links:
  "CausationID (meta (ToIntegrationEvent uuid now d et pl)) = ev_id d"
  "CorrelationID (meta (ToIntegrationEvent uuid now d et pl)) = CorrelationID (meta d)"
  "aggID (ToIntegrationEvent uuid now d et pl) = aggID d"
  "ev_id (ToIntegrationEvent uuid now d et pl) = uuid"
  by (simp_all add: ToIntegrationEvent_def NewEvent_def WithAggregateInfo_def WithCorrelationID_def
      WithCausationID_def WithTraceID_def WithSource_def)

lemma TypeRegistry_Build_after_Register:
  "TypeRegistry_Register et ex r = (Ret (), r') \<Longrightarrow>
   TypeRegistry_Build r' et = (Some (Ptr (elem_if_ptr ex)), None)"
  by (auto simp: TypeRegistry_Register_def TypeRegistry_Build_def Let_def split: option.splits if_splits)

lemma TypeRegistry_Register_other:
  "TypeRegistry_Register et ex r = (x, r') \<Longrightarrow> et' \<noteq> et \<Longrightarrow>
   TypeRegistry_Build r' et' = TypeRegistry_Build r et'"
  by (auto simp: TypeRegistry_Register_def TypeRegistry_Build_def Let_def split: option.splits if_splits)

end
