(* ===== verification/Wolf_Tx.thy ===== *)
theory Wolf_Tx
  imports Wolf_Event
begin

text \<open>
  Transactions: the part of \<^verbatim>\<open>database/sql\<close> the sources use, the transaction manager and runner of
  \<^verbatim>\<open>src/infra/db/tx.go\<close>, and the transaction a context carries (\<^verbatim>\<open>src/tx\<close>).

  A database is its committed contents and its open transactions. A transaction records the
  statements it has executed; they are applied to the committed contents when it commits, and a
  statement sees the committed contents with the transaction's own statements applied. A statement
  that fails aborts its transaction, as PostgreSQL does. Every call to the driver may fail: the
  outcomes of the coming calls are the list \<open>faults\<close>, so a theorem about every state is a theorem
  about every schedule of failures.
\<close>

section \<open>database/sql\<close>

datatype 'd tx_state = Active "('d \<Rightarrow> 'd) list" | Aborted

record 'd sqldb =
  committed :: 'd
  txs :: "nat \<rightharpoonup> 'd tx_state"
  next_tx :: nat
  faults :: "goerr option list"

text \<open>A statement answers with a value (rows, a row count) or an error, and changes the contents.\<close>

type_synonym ('d, 'a) statement = "'d \<Rightarrow> ('a + goerr) \<times> 'd"

definition ErrTxDone :: goerr where
  "ErrTxDone = ErrorsNew ''sql: transaction has already been committed or rolled back''"

definition ErrTxAborted :: goerr where
  "ErrTxAborted = ErrorsNew ''pq: Could not complete operation in a failed transaction''"

definition driver_call :: "'d sqldb \<Rightarrow> goerr option \<times> 'd sqldb" where
  "driver_call q = (case faults q of [] \<Rightarrow> (None, q) | f # fs \<Rightarrow> (f, q\<lparr>faults := fs\<rparr>))"

definition replay :: "('d \<Rightarrow> 'd) list \<Rightarrow> 'd \<Rightarrow> 'd" where
  "replay log d = fold (\<lambda>f. f) log d"

definition BeginTx :: "'d sqldb \<Rightarrow> (nat + goerr) \<times> 'd sqldb" where
  "BeginTx q =
     (case driver_call q of
        (Some e, q') \<Rightarrow> (Inr e, q')
      | (None, q') \<Rightarrow>
          (Inl (next_tx q'),
           q'\<lparr>txs := (txs q')(next_tx q' \<mapsto> Active []), next_tx := next_tx q' + 1\<rparr>))"

definition tx_Commit :: "nat \<Rightarrow> 'd sqldb \<Rightarrow> goerr option \<times> 'd sqldb" where
  "tx_Commit t q =
     (case txs q t of
        None \<Rightarrow> (Some ErrTxDone, q)
      | Some Aborted \<Rightarrow> (Some ErrTxAborted, q\<lparr>txs := (txs q)(t := None)\<rparr>)
      | Some (Active log) \<Rightarrow>
          (case driver_call (q\<lparr>txs := (txs q)(t := None)\<rparr>) of
             (Some e, q') \<Rightarrow> (Some e, q')
           | (None, q') \<Rightarrow> (None, q'\<lparr>committed := replay log (committed q')\<rparr>)))"

definition tx_Rollback :: "nat \<Rightarrow> 'd sqldb \<Rightarrow> goerr option \<times> 'd sqldb" where
  "tx_Rollback t q =
     (case txs q t of
        None \<Rightarrow> (Some ErrTxDone, q)
      | Some st \<Rightarrow> driver_call (q\<lparr>txs := (txs q)(t := None)\<rparr>))"

definition tx_Exec :: "nat \<Rightarrow> ('d, 'a) statement \<Rightarrow> 'd sqldb \<Rightarrow> ('a + goerr) \<times> 'd sqldb" where
  "tx_Exec t st q =
     (case txs q t of
        None \<Rightarrow> (Inr ErrTxDone, q)
      | Some Aborted \<Rightarrow> (Inr ErrTxAborted, q)
      | Some (Active log) \<Rightarrow>
          (case driver_call q of
             (Some e, q') \<Rightarrow> (Inr e, q'\<lparr>txs := (txs q')(t \<mapsto> Aborted)\<rparr>)
           | (None, q') \<Rightarrow>
               (case st (replay log (committed q')) of
                  (Inr e, d) \<Rightarrow> (Inr e, q'\<lparr>txs := (txs q')(t \<mapsto> Aborted)\<rparr>)
                | (Inl v, d) \<Rightarrow>
                    (Inl v, q'\<lparr>txs := (txs q')(t \<mapsto> Active (log @ [\<lambda>d. snd (st d)]))\<rparr>))))"

definition db_Exec :: "('d, 'a) statement \<Rightarrow> 'd sqldb \<Rightarrow> ('a + goerr) \<times> 'd sqldb" where
  "db_Exec st q =
     (case driver_call q of
        (Some e, q') \<Rightarrow> (Inr e, q')
      | (None, q') \<Rightarrow>
          (case st (committed q') of
             (Inr e, d) \<Rightarrow> (Inr e, q')
           | (Inl v, d) \<Rightarrow> (Inl v, q'\<lparr>committed := d\<rparr>)))"

section \<open>The program around the database\<close>

record 'd world =
  db :: "'d sqldb"

definition on_db :: "('d sqldb \<Rightarrow> 'a \<times> 'd sqldb) \<Rightarrow> (('d, 'm) world_scheme, 'a) go" where
  "on_db f w = (case f (db w) of (r, q) \<Rightarrow> (Ret r, w\<lparr>db := q\<rparr>))"

lemma wp_on_db [wp_intro]:
  "(\<And>r q. f (db w) = (r, q) \<Longrightarrow> Q (Ret r) (w\<lparr>db := q\<rparr>)) \<Longrightarrow> wp (on_db f) Q w"
  by (auto simp: wp_def on_db_def split: prod.splits)

lemma wp_bind_on_db [wp_intro]:
  "(\<And>r q. f (db w) = (r, q) \<Longrightarrow> wp (k r) Q (w\<lparr>db := q\<rparr>)) \<Longrightarrow> wp (go_bind (on_db f) k) Q w"
  by (rule wp_bind, rule wp_on_db) simp

section \<open>The transaction in the context\<close>

text \<open>The values a context carries that the sources read: a raw transaction, the trace id and the
  request id.\<close>

datatype raw_tx = SqlTx nat | OtherTx

record go_ctx =
  ctx_tx :: "raw_tx option"
  ctx_trace_id :: string
  ctx_request_id :: string

definition Inject :: "go_ctx \<Rightarrow> raw_tx \<Rightarrow> go_ctx" where
  "Inject ctx raw = ctx\<lparr>ctx_tx := Some raw\<rparr>"

definition Extract :: "go_ctx \<Rightarrow> raw_tx option" where
  "Extract ctx = ctx_tx ctx"

section \<open>WithTx, WithTxResult, RunInTx\<close>

definition rollback_failed :: "goerr \<Rightarrow> goerr \<Rightarrow> goerr" where
  "rollback_failed err rbErr =
     Errorf [Lit ''db: fn failed ('', Verb_w err, Lit (''); rollback also failed: '' @ err_text rbErr)]"

definition WithTx ::
  "(nat \<Rightarrow> (('d, 'm) world_scheme, goerr option) go) \<Rightarrow> (('d, 'm) world_scheme, goerr option) go" where
  "WithTx fn =
     go_bind (on_db BeginTx) (\<lambda>b.
       case b of
         Inr err \<Rightarrow> go_return (Some (errorf_w ''db: begin tx'' err))
       | Inl t \<Rightarrow>
           (\<lambda>w. case fn t w of
              (Panic p, w') \<Rightarrow> (Panic p, w'\<lparr>db := snd (tx_Rollback t (db w'))\<rparr>)
            | (Ret (Some err), w') \<Rightarrow>
                go_bind (on_db (tx_Rollback t)) (\<lambda>rb.
                  case rb of
                    Some rbErr \<Rightarrow> go_return (Some (rollback_failed err rbErr))
                  | None \<Rightarrow> go_return (Some (errorf_w ''db: tx fn'' err))) w'
            | (Ret None, w') \<Rightarrow>
                go_bind (on_db (tx_Commit t)) (\<lambda>ce.
                  case ce of
                    Some err \<Rightarrow> go_return (Some (errorf_w ''db: commit tx'' err))
                  | None \<Rightarrow> go_return None) w'))"

text \<open>The result of \<^verbatim>\<open>fn\<close> is a pair of a value and an error; \<^verbatim>\<open>zero\<close> is the zero value of its type.\<close>

definition WithTxResult ::
  "'a \<Rightarrow> (nat \<Rightarrow> (('d, 'm) world_scheme, 'a \<times> goerr option) go) \<Rightarrow>
   (('d, 'm) world_scheme, 'a \<times> goerr option) go" where
  "WithTxResult zero fn =
     go_bind (on_db BeginTx) (\<lambda>b.
       case b of
         Inr err \<Rightarrow> go_return (zero, Some (errorf_w ''db: begin tx'' err))
       | Inl t \<Rightarrow>
           (\<lambda>w. case fn t w of
              (Panic p, w') \<Rightarrow> (Panic p, w'\<lparr>db := snd (tx_Rollback t (db w'))\<rparr>)
            | (Ret (v, Some err), w') \<Rightarrow>
                go_bind (on_db (tx_Rollback t)) (\<lambda>rb.
                  case rb of
                    Some rbErr \<Rightarrow> go_return (zero, Some (rollback_failed err rbErr))
                  | None \<Rightarrow> go_return (zero, Some err)) w'
            | (Ret (v, None), w') \<Rightarrow>
                go_bind (on_db (tx_Commit t)) (\<lambda>ce.
                  case ce of
                    Some err \<Rightarrow> go_return (zero, Some (errorf_w ''db: commit tx'' err))
                  | None \<Rightarrow> go_return (v, None)) w'))"

definition RunInTx ::
  "go_ctx \<Rightarrow> (go_ctx \<Rightarrow> (('d, 'm) world_scheme, goerr option) go) \<Rightarrow>
   (('d, 'm) world_scheme, goerr option) go" where
  "RunInTx ctx fn = WithTx (\<lambda>sqlTx. fn (Inject ctx (SqlTx sqlTx)))"

section \<open>Lemmas on the driver\<close>

definition tx_view :: "nat \<Rightarrow> 'd sqldb \<Rightarrow> 'd option" where
  "tx_view t q =
     (case txs q t of Some (Active log) \<Rightarrow> Some (replay log (committed q)) | _ \<Rightarrow> None)"

lemma driver_call_keeps [simp]:
  "committed (snd (driver_call q)) = committed q"
  "txs (snd (driver_call q)) = txs q"
  "next_tx (snd (driver_call q)) = next_tx q"
  by (simp_all add: driver_call_def split: list.splits)

lemma driver_call_split:
  "driver_call q = (r, q') \<Longrightarrow> committed q' = committed q \<and> txs q' = txs q \<and> next_tx q' = next_tx q"
  using driver_call_keeps [of q] by simp

lemma replay_snoc [simp]: "replay (log @ [f]) d = f (replay log d)" "replay [] d = d"
  by (simp_all add: replay_def)

lemma BeginTx_cases:
  assumes "BeginTx q = (r, q')"
  shows "committed q' = committed q"
    and "r = Inl t \<Longrightarrow> tx_view t q' = Some (committed q)"
  using assms
  by (auto simp: BeginTx_def tx_view_def split: prod.splits option.splits dest!: driver_call_split)

lemma tx_Rollback_committed: "committed (snd (tx_Rollback t q)) = committed q"
  by (simp add: tx_Rollback_def split: option.splits)

lemma tx_RollbackD: "tx_Rollback t q = (r, q') \<Longrightarrow> committed q' = committed q"
  using tx_Rollback_committed [of t q] by simp

lemma tx_Commit_cases:
  assumes "tx_Commit t q = (r, q')"
  shows "r \<noteq> None \<Longrightarrow> committed q' = committed q"
    and "r = None \<Longrightarrow> tx_view t q = Some (committed q')"
  using assms
  by (auto simp: tx_Commit_def tx_view_def split: option.splits tx_state.splits prod.splits
      dest!: driver_call_split)

lemma tx_Exec_committed: "committed (snd (tx_Exec t st q)) = committed q"
  by (auto simp: tx_Exec_def split: option.splits tx_state.splits prod.splits sum.splits
      dest!: driver_call_split)

lemma tx_Exec_committedD: "tx_Exec t st q = (r, q') \<Longrightarrow> committed q' = committed q"
  using tx_Exec_committed [of t st q] by simp

lemma tx_Exec_ok:
  assumes "tx_Exec t st q = (Inl v, q')"
  shows "\<exists>d. tx_view t q = Some d \<and> fst (st d) = Inl v \<and> tx_view t q' = Some (snd (st d))"
  using assms
  by (auto simp: tx_Exec_def tx_view_def split: option.splits tx_state.splits prod.splits sum.splits
      dest!: driver_call_split)

lemma db_Exec_cases:
  assumes "db_Exec st q = (r, q')"
  shows "r = Inr e \<Longrightarrow> committed q' = committed q"
    and "r = Inl v \<Longrightarrow> fst (st (committed q)) = Inl v \<and> committed q' = snd (st (committed q))"
  using assms
  by (auto simp: db_Exec_def split: prod.splits option.splits sum.splits dest!: driver_call_split)

lemma db_Exec_no_faults:
  "faults q = [] \<Longrightarrow> db_Exec st q =
     (case st (committed q) of (Inr e, d) \<Rightarrow> (Inr e, q) | (Inl v, d) \<Rightarrow> (Inl v, q\<lparr>committed := d\<rparr>))"
  by (simp add: db_Exec_def driver_call_def)

section \<open>The contract of a transaction runner\<close>

definition tx_local :: "('w \<Rightarrow> 'd) \<Rightarrow> (go_ctx \<Rightarrow> bool) \<Rightarrow> (go_ctx \<Rightarrow> ('w, 'a) go) \<Rightarrow> bool" where
  "tx_local committed_of tx_ctx fn \<longleftrightarrow>
     (\<forall>ctx w. tx_ctx ctx \<longrightarrow> committed_of (snd (fn ctx w)) = committed_of w)"

text \<open>
  \<^verbatim>\<open>tx.Runner\<close>: \<open>run\<close> calls its function at most once, in a context that carries a transaction whose
  view starts as the committed contents. If it reports success, the committed contents become that
  view; on an error or a panic they are what they were. What the function does to the memory of the
  program (\<open>mem_of\<close>) stays in both cases.
\<close>

locale tx_runner =
  fixes run :: "go_ctx \<Rightarrow> (go_ctx \<Rightarrow> ('w, goerr option) go) \<Rightarrow> ('w, goerr option) go"
    and committed_of :: "'w \<Rightarrow> 'd"
    and mem_of :: "'w \<Rightarrow> 'm"
    and tx_ctx :: "go_ctx \<Rightarrow> bool"
    and view_of :: "go_ctx \<Rightarrow> 'w \<Rightarrow> 'd option"
  assumes run_failed:
      "tx_local committed_of tx_ctx fn \<Longrightarrow> run ctx fn w = (r, w') \<Longrightarrow> r \<noteq> Ret None \<Longrightarrow>
       committed_of w' = committed_of w"
    and run_ok:
      "run ctx fn w = (Ret None, w') \<Longrightarrow>
       \<exists>raw w1 w2. tx_ctx (Inject ctx raw) \<and> committed_of w1 = committed_of w
         \<and> view_of (Inject ctx raw) w1 = Some (committed_of w) \<and> mem_of w1 = mem_of w
         \<and> fn (Inject ctx raw) w1 = (Ret None, w2)
         \<and> view_of (Inject ctx raw) w2 = Some (committed_of w') \<and> mem_of w' = mem_of w2"

definition sql_ctx :: "go_ctx \<Rightarrow> bool" where
  "sql_ctx ctx \<longleftrightarrow> (case Extract ctx of Some (SqlTx t) \<Rightarrow> True | _ \<Rightarrow> False)"

definition world_committed :: "('d, 'm) world_scheme \<Rightarrow> 'd" where
  "world_committed w = committed (db w)"

definition world_view :: "go_ctx \<Rightarrow> ('d, 'm) world_scheme \<Rightarrow> 'd option" where
  "world_view ctx w = (case Extract ctx of Some (SqlTx t) \<Rightarrow> tx_view t (db w) | _ \<Rightarrow> None)"

lemma sql_ctx_Inject [simp]: "sql_ctx (Inject ctx (SqlTx t))"
  "world_view (Inject ctx (SqlTx t)) w = tx_view t (db w)"
  "Extract (Inject ctx raw) = Some raw"
  by (simp_all add: sql_ctx_def Inject_def Extract_def world_view_def)

lemma WithTx_cases:
  assumes "WithTx fn w = (r, w')"
  obtains (begin_failed) q e where "BeginTx (db w) = (Inr e, q)" and "w' = w\<lparr>db := q\<rparr>"
      and "r = Ret (Some (errorf_w ''db: begin tx'' e))"
  | (panicked) t q w2 p where "BeginTx (db w) = (Inl t, q)" and "fn t (w\<lparr>db := q\<rparr>) = (Panic p, w2)"
      and "w' = w2\<lparr>db := snd (tx_Rollback t (db w2))\<rparr>" and "r = Panic p"
  | (failed) t q w2 e q2 rb where "BeginTx (db w) = (Inl t, q)"
      and "fn t (w\<lparr>db := q\<rparr>) = (Ret (Some e), w2)" and "tx_Rollback t (db w2) = (rb, q2)"
      and "w' = w2\<lparr>db := q2\<rparr>"
      and "r = Ret (Some (case rb of Some rbErr \<Rightarrow> rollback_failed e rbErr | None \<Rightarrow> errorf_w ''db: tx fn'' e))"
  | (completed) t q w2 q2 ce where "BeginTx (db w) = (Inl t, q)"
      and "fn t (w\<lparr>db := q\<rparr>) = (Ret None, w2)" and "tx_Commit t (db w2) = (ce, q2)"
      and "w' = w2\<lparr>db := q2\<rparr>"
      and "r = Ret (map_option (errorf_w ''db: commit tx'') ce)"
proof -
  obtain b q where b: "BeginTx (db w) = (b, q)" by fastforce
  show thesis
  proof (cases b)
    case (Inr e)
    with b assms begin_failed show thesis by (simp add: WithTx_def go_bind_def on_db_def)
  next
    case (Inl t)
    obtain r2 w2 where f: "fn t (w\<lparr>db := q\<rparr>) = (r2, w2)" by fastforce
    show thesis
    proof (cases r2)
      case (Panic p)
      show thesis
        by (rule panicked [of t q p w2])
          (use b Inl f Panic assms in \<open>simp_all add: WithTx_def go_bind_def on_db_def\<close>)
    next
      case (Ret eo)
      show thesis
      proof (cases eo)
        case None
        obtain ce q2 where "tx_Commit t (db w2) = (ce, q2)" by fastforce
        with b Inl f Ret None assms show thesis
          by (intro completed [of t q w2 ce q2]; cases ce) (simp_all add: WithTx_def go_bind_def on_db_def)
      next
        case (Some e)
        obtain rb q2 where "tx_Rollback t (db w2) = (rb, q2)" by fastforce
        with b Inl f Ret Some assms show thesis
          by (intro failed [of t q e w2 rb q2]; cases rb) (simp_all add: WithTx_def go_bind_def on_db_def)
      qed
    qed
  qed
qed

lemma RunInTx_failed:
  assumes "tx_local world_committed sql_ctx fn" and "RunInTx ctx fn w = (r, w')" and "r \<noteq> Ret None"
  shows "world_committed w' = world_committed w"
proof -
  have fn: "world_committed (snd (fn (Inject ctx (SqlTx t)) v)) = world_committed v" for t v
    using assms(1) by (simp add: tx_local_def)
  from assms(2) have "WithTx (\<lambda>t. fn (Inject ctx (SqlTx t))) w = (r, w')"
    by (simp add: RunInTx_def)
  then show ?thesis
  proof (cases rule: WithTx_cases)
    case (begin_failed q e)
    then show ?thesis
      using BeginTx_cases(1) [of "db w" "Inr e" q] by (simp add: world_committed_def)
  next
    case (panicked t q w2 p)
    then show ?thesis
      using fn [of t "w\<lparr>db := q\<rparr>"] BeginTx_cases(1) [of "db w" "Inl t" q]
      by (simp add: world_committed_def tx_Rollback_committed)
  next
    case (failed t q w2 e q2 rb)
    then show ?thesis
      using fn [of t "w\<lparr>db := q\<rparr>"] BeginTx_cases(1) [of "db w" "Inl t" q] tx_Rollback_committed [of t "db w2"]
      by (simp add: world_committed_def)
  next
    case (completed t q w2 q2 ce)
    with assms(3) have "ce \<noteq> None" by auto
    with completed show ?thesis
      using fn [of t "w\<lparr>db := q\<rparr>"] BeginTx_cases(1) [of "db w" "Inl t" q] tx_Commit_cases(1) [of t "db w2" ce q2]
      by (simp add: world_committed_def)
  qed
qed

lemma RunInTx_ok:
  assumes "RunInTx ctx fn w = (Ret None, w')"
  shows "\<exists>raw w1 w2. sql_ctx (Inject ctx raw) \<and> world_committed w1 = world_committed w
         \<and> world_view (Inject ctx raw) w1 = Some (world_committed w) \<and> world.more w1 = world.more w
         \<and> fn (Inject ctx raw) w1 = (Ret None, w2)
         \<and> world_view (Inject ctx raw) w2 = Some (world_committed w') \<and> world.more w' = world.more w2"
proof -
  from assms have "WithTx (\<lambda>t. fn (Inject ctx (SqlTx t))) w = (Ret None, w')"
    by (simp add: RunInTx_def)
  then show ?thesis
  proof (cases rule: WithTx_cases)
    case (completed t q w2 q2 ce)
    from completed(5) have "ce = None" by simp
    then have v2: "tx_view t (db w2) = Some (committed q2)"
      using tx_Commit_cases(2) [OF completed(3)] by simp
    have v1: "committed q = committed (db w)" "tx_view t q = Some (committed (db w))"
      using BeginTx_cases [OF completed(1)] by simp_all
    show ?thesis
      by (rule exI [of _ "SqlTx t"], rule exI [of _ "w\<lparr>db := q\<rparr>"], rule exI [of _ w2])
        (simp add: world_committed_def v1 v2 completed(2,4))
  qed (simp_all only: exec.inject exec.distinct option.distinct)
qed

interpretation pg: tx_runner RunInTx world_committed world.more sql_ctx world_view
  by unfold_locales (erule (2) RunInTx_failed, erule RunInTx_ok)

end
