(* ===== verification/Outbox_Store.thy ===== *)
theory Outbox_Store
  imports Wolf_Tx
begin

text \<open>
  The tables of the event infrastructure and the stores on them: the outbox store of
  \<^verbatim>\<open>src/infra/events/outbox/store.go\<close> (with \<^verbatim>\<open>health.go\<close>) and the dead letter store of
  \<^verbatim>\<open>src/infra/events/deadletter/store.go\<close>.

  Each SQL text of the sources is a statement on the record \<open>database\<close>. \<^verbatim>\<open>NOW()\<close> is an argument,
  \<^verbatim>\<open>NULL\<close> is \<open>None\<close>, a \<^verbatim>\<open>jsonb\<close> object of strings is a map. \<^verbatim>\<open>ORDER BY\<close> keeps the order of
  insertion among equal keys. The repository holds no migration for \<^verbatim>\<open>outbox_events\<close>: \<open>id\<close> is taken
  to be its primary key, and the value an omitted \<^verbatim>\<open>lease_token\<close> gets is the field \<open>lease_default\<close>.
\<close>

section \<open>Tables\<close>

record outbox_row =
  row_id :: string
  row_aggregate_type :: string
  row_aggregate_id :: string
  row_event_type :: string
  row_payload :: string
  row_trace_id :: string
  row_metadata :: "string \<rightharpoonup> string"
  row_created_at :: int
  row_claimed_at :: "int option"
  row_lease_token :: "string option"
  row_published_at :: "int option"
  row_retry_count :: int
  row_last_error :: string

record dlq_entry =
  dlq_ID :: string
  dlq_Subject :: string
  dlq_Data :: string
  dlq_Headers :: "string \<rightharpoonup> string"
  dlq_Error :: string
  dlq_Attempts :: int
  dlq_OriginalAt :: int
  dlq_DeadAt :: int

record inbox_row =
  in_id :: string
  in_event_type :: string
  in_processed_at :: int

record database =
  outbox_events :: "outbox_row list"
  lease_default :: "string option"
  dead_letter_queue :: "dlq_entry list"
  inbox_events :: "inbox_row list"

record outbox_entry =
  oe_ID :: string
  oe_AggregateType :: string
  oe_AggregateID :: string
  oe_EventType :: string
  oe_Payload :: string
  oe_TraceID :: string
  oe_Metadata :: metadata
  oe_CreatedAt :: int
  oe_ClaimedAt :: "int option"
  oe_LeaseToken :: string
  oe_PublishedAt :: "int option"
  oe_RetryCount :: int
  oe_LastError :: string

definition duplicate_key :: goerr where
  "duplicate_key = ErrorsNew ''ERROR: duplicate key value violates unique constraint''"

definition second :: int where "second = 1000000000"

abbreviation leaseTimeout :: int where
  "leaseTimeout \<equiv> 5 * 60 * second"

section \<open>Insert\<close>

definition enrichMetadataFromContext :: "go_ctx \<Rightarrow> metadata \<Rightarrow> metadata" where
  "enrichMetadataFromContext ctx m =
     (let m = (if TraceID m = [] then m\<lparr>TraceID := ctx_trace_id ctx\<rparr> else m)
      in if CorrelationID m = [] then m\<lparr>CorrelationID := ctx_request_id ctx\<rparr> else m)"

text \<open>The \<^verbatim>\<open>omitempty\<close> object of the metadata; nil bytes stand for empty metadata and are stored as
  the empty object.\<close>

definition marshalMetadata :: "metadata \<Rightarrow> (string \<rightharpoonup> string) option" where
  "marshalMetadata m =
     (if metadata_IsZero m then None
      else Some (put_nonempty ''source'' (Source m)
                (put_nonempty ''causation_id'' (CausationID m)
                (put_nonempty ''correlation_id'' (CorrelationID m)
                (put_nonempty ''trace_id'' (TraceID m) Map.empty)))))"

definition jsonBytesToString :: "(string \<rightharpoonup> string) option \<Rightarrow> (string \<rightharpoonup> string)" where
  "jsonBytesToString b = (case b of None \<Rightarrow> Map.empty | Some j \<Rightarrow> j)"

definition insert_outbox_row :: "outbox_row \<Rightarrow> ('x database_scheme, unit) statement" where
  "insert_outbox_row r d =
     (if row_id r \<in> row_id ` set (outbox_events d) then (Inr duplicate_key, d)
      else (Inl (), d\<lparr>outbox_events :=
                       outbox_events d @ [r\<lparr>row_lease_token := lease_default d\<rparr>]\<rparr>))"

text \<open>\<^verbatim>\<open>executor(ctx)\<close> chooses the transaction of the context over the pool.\<close>

definition executor ::
  "go_ctx \<Rightarrow> ('d, 'a) statement \<Rightarrow> 'd sqldb \<Rightarrow> ('a + goerr) \<times> 'd sqldb" where
  "executor ctx st =
     (case Extract ctx of
        Some (SqlTx t) \<Rightarrow> tx_Exec t st
      | _ \<Rightarrow> db_Exec st)"

abbreviation event_row :: "'p event \<Rightarrow> string \<Rightarrow> metadata \<Rightarrow> outbox_row" where
  "event_row evt pl m \<equiv>
     \<lparr>row_id = ev_id evt, row_aggregate_type = aggType evt, row_aggregate_id = aggID evt,
      row_event_type = eventType evt, row_payload = pl, row_trace_id = TraceID m,
      row_metadata = jsonBytesToString (marshalMetadata m), row_created_at = occurred evt,
      row_claimed_at = None, row_lease_token = None, row_published_at = None,
      row_retry_count = 0, row_last_error = []\<rparr>"

text \<open>\<open>marshal\<close> is \<^verbatim>\<open>json.Marshal\<close> on the payload types of the application.\<close>

definition Insert ::
  "('p \<Rightarrow> string + goerr) \<Rightarrow> go_ctx \<Rightarrow> 'p event \<Rightarrow> metadata \<Rightarrow>
   (('x database_scheme, 'm) world_scheme, goerr option) go" where
  "Insert marshal ctx evt meta0 =
     (let m = enrichMetadataFromContext ctx meta0 in
      case marshal (payload evt) of
        Inr err \<Rightarrow> go_return (Some (errorf_w (''outbox: marshal event '' @ quote (ev_id evt)) err))
      | Inl pl \<Rightarrow>
          go_bind (on_db (executor ctx (insert_outbox_row (event_row evt pl m)))) (\<lambda>r.
            case r of
              Inr err \<Rightarrow> go_return (Some (errorf_w (''outbox: insert event '' @ quote (ev_id evt)) err))
            | Inl _ \<Rightarrow> go_return None))"

definition InsertEntry ::
  "int \<Rightarrow> outbox_entry \<Rightarrow> (('x database_scheme, 'm) world_scheme, goerr option) go" where
  "InsertEntry now entry =
     go_bind (on_db (db_Exec (insert_outbox_row
        \<lparr>row_id = oe_ID entry, row_aggregate_type = oe_AggregateType entry,
         row_aggregate_id = oe_AggregateID entry, row_event_type = oe_EventType entry,
         row_payload = oe_Payload entry, row_trace_id = oe_TraceID entry,
         row_metadata = jsonBytesToString (marshalMetadata (oe_Metadata entry)),
         row_created_at = now, row_claimed_at = None, row_lease_token = None,
         row_published_at = None, row_retry_count = 0, row_last_error = []\<rparr>))) (\<lambda>r.
       case r of
         Inr execErr \<Rightarrow> go_return (Some (errorf_w (''outbox: insert entry '' @ quote (oe_ID entry)) execErr))
       | Inl _ \<Rightarrow> go_return None)"

section \<open>ClaimBatch\<close>

definition claimable :: "int \<Rightarrow> outbox_row \<Rightarrow> bool" where
  "claimable now r \<longleftrightarrow>
     row_published_at r = None \<and>
     (case row_claimed_at r of None \<Rightarrow> True | Some c \<Rightarrow> c < now - leaseTimeout)"

definition select_claimable :: "int \<Rightarrow> int \<Rightarrow> 'x database_scheme \<Rightarrow> outbox_row list" where
  "select_claimable now batchSize d =
     take (nat batchSize) (sort_key row_created_at (filter (claimable now) (outbox_events d)))"

definition select_statement :: "int \<Rightarrow> int \<Rightarrow> ('x database_scheme, outbox_row list) statement" where
  "select_statement now batchSize d = (Inl (select_claimable now batchSize d), d)"

text \<open>
  \<^verbatim>\<open>rows.Scan\<close> into an entry. The destination of \<^verbatim>\<open>lease_token\<close> is a \<^verbatim>\<open>*string\<close>, into which
  \<^verbatim>\<open>database/sql\<close> refuses to convert \<^verbatim>\<open>NULL\<close>.
\<close>

definition null_lease_token :: goerr where
  "null_lease_token =
     ErrorsNew (''sql: Scan error on column index 9, name '' @ quote ''lease_token''
                @ '': converting NULL to string is unsupported'')"

definition scan_row :: "outbox_row \<Rightarrow> outbox_entry + goerr" where
  "scan_row r =
     (case row_lease_token r of
        None \<Rightarrow> Inr null_lease_token
      | Some token \<Rightarrow>
          (let m = MetadataFromMap (Some (row_metadata r));
               m = (if TraceID m = [] \<and> row_trace_id r \<noteq> [] then m\<lparr>TraceID := row_trace_id r\<rparr> else m)
           in Inl \<lparr>oe_ID = row_id r, oe_AggregateType = row_aggregate_type r,
                   oe_AggregateID = row_aggregate_id r, oe_EventType = row_event_type r,
                   oe_Payload = row_payload r, oe_TraceID = row_trace_id r, oe_Metadata = m,
                   oe_CreatedAt = row_created_at r, oe_ClaimedAt = row_claimed_at r,
                   oe_LeaseToken = token, oe_PublishedAt = row_published_at r,
                   oe_RetryCount = row_retry_count r, oe_LastError = row_last_error r\<rparr>))"

fun scan_rows :: "outbox_row list \<Rightarrow> outbox_entry list + goerr" where
  "scan_rows [] = Inl []"
| "scan_rows (r # rs) =
     (case scan_row r of
        Inr e \<Rightarrow> Inr e
      | Inl x \<Rightarrow> (case scan_rows rs of Inr e \<Rightarrow> Inr e | Inl xs \<Rightarrow> Inl (x # xs)))"

definition update_rows ::
  "(outbox_row \<Rightarrow> bool) \<Rightarrow> (outbox_row \<Rightarrow> outbox_row) \<Rightarrow> ('x database_scheme, unit) statement" where
  "update_rows p f d =
     (Inl (), d\<lparr>outbox_events := map (\<lambda>r. if p r then f r else r) (outbox_events d)\<rparr>)"

definition claim_statement :: "int \<Rightarrow> string list \<Rightarrow> string \<Rightarrow> ('x database_scheme, unit) statement" where
  "claim_statement now ids token =
     update_rows (\<lambda>r. row_id r \<in> set ids)
       (\<lambda>r. r\<lparr>row_claimed_at := Some now, row_lease_token := Some token\<rparr>)"

definition claimEntriesTx ::
  "nat \<Rightarrow> int \<Rightarrow> string list \<Rightarrow> string \<Rightarrow> (('x database_scheme, 'm) world_scheme, goerr option) go" where
  "claimEntriesTx t now ids token =
     go_bind (on_db (tx_Exec t (claim_statement now ids token))) (\<lambda>r.
       case r of
         Inr err \<Rightarrow> go_return (Some (errorf_w ''outbox: claim entries'' err))
       | Inl _ \<Rightarrow> go_return None)"

text \<open>
  The body after \<^verbatim>\<open>BeginTx\<close>, with the error its deferred calls see. Reading the rows is one more call
  to the driver (\<^verbatim>\<open>rows.Err\<close>); the rows are closed by then, so the deferred \<^verbatim>\<open>rows.Close\<close> adds no error
  of its own.
\<close>

definition claim_body ::
  "nat \<Rightarrow> string \<Rightarrow> int \<Rightarrow> int \<Rightarrow>
   (('x database_scheme, 'm) world_scheme, outbox_entry list \<times> goerr option) go" where
  "claim_body t token now batchSize =
     go_bind (on_db (tx_Exec t (select_statement now batchSize))) (\<lambda>q.
       case q of
         Inr err \<Rightarrow> go_return ([], Some (errorf_w ''outbox: query unpublished'' err))
       | Inl rows \<Rightarrow>
           (case scan_rows rows of
              Inr err \<Rightarrow> go_return ([], Some (errorf_w ''outbox: scan row'' err))
            | Inl entries \<Rightarrow>
                go_bind (on_db driver_call) (\<lambda>rerr.
                  case rerr of
                    Some err \<Rightarrow> go_return ([], Some (errorf_w ''outbox: iterate rows'' err))
                  | None \<Rightarrow>
                      go_bind (if entries \<noteq> [] then claimEntriesTx t now (map oe_ID entries) token
                               else go_return None) (\<lambda>cerr.
                        case cerr of
                          Some err \<Rightarrow> go_return ([], Some (errorf_w ''outbox: claim entries'' err))
                        | None \<Rightarrow>
                            go_bind (on_db (tx_Commit t)) (\<lambda>merr.
                              case merr of
                                Some err \<Rightarrow> go_return ([], Some (errorf_w ''outbox: commit tx'' err))
                              | None \<Rightarrow>
                                  go_return (map (\<lambda>e. e\<lparr>oe_LeaseToken := token\<rparr>) entries, None))))))"

definition ClaimBatch ::
  "string \<Rightarrow> int \<Rightarrow> int \<Rightarrow>
   (('x database_scheme, 'm) world_scheme, outbox_entry list \<times> goerr option) go" where
  "ClaimBatch token now batchSize =
     go_bind (on_db BeginTx) (\<lambda>b.
       case b of
         Inr err \<Rightarrow> go_return ([], Some (errorf_w ''outbox: begin tx'' err))
       | Inl t \<Rightarrow>
           go_bind (claim_body t token now batchSize) (\<lambda>(entries, err).
             case err of
               Some e \<Rightarrow> go_bind (on_db (tx_Rollback t)) (\<lambda>_. go_return (entries, err))
             | None \<Rightarrow> go_return (entries, err)))"

section \<open>Releasing and marking\<close>

record release_entry =
  rel_ID :: string
  rel_LastError :: string

abbreviation release_row :: "string \<Rightarrow> outbox_row \<Rightarrow> outbox_row" where
  "release_row lastError r \<equiv>
     r\<lparr>row_claimed_at := None, row_lease_token := None, row_retry_count := row_retry_count r + 1,
       row_last_error := lastError\<rparr>"

definition ReleaseClaim ::
  "string \<Rightarrow> string \<Rightarrow> (('x database_scheme, 'm) world_scheme, goerr option) go" where
  "ReleaseClaim i lastError =
     go_bind (on_db (db_Exec (update_rows (\<lambda>r. row_id r = i) (release_row lastError)))) (\<lambda>r.
       case r of
         Inr err \<Rightarrow> go_return (Some (errorf_w (''outbox: release claim '' @ quote i) err))
       | Inl _ \<Rightarrow> go_return None)"

text \<open>The \<^verbatim>\<open>VALUES\<close> join updates a row once, with the error text of an entry that names it.\<close>

abbreviation release_statement :: "release_entry list \<Rightarrow> ('x database_scheme, unit) statement" where
  "release_statement entries \<equiv>
     update_rows (\<lambda>r. row_id r \<in> rel_ID ` set entries)
       (\<lambda>r. release_row (case find (\<lambda>e. rel_ID e = row_id r) entries of
                           Some e \<Rightarrow> rel_LastError e | None \<Rightarrow> row_last_error r) r)"

definition ReleaseClaims ::
  "release_entry list \<Rightarrow> (('x database_scheme, 'm) world_scheme, goerr option) go" where
  "ReleaseClaims entries =
     (case entries of
        [] \<Rightarrow> go_return None
      | [e] \<Rightarrow> ReleaseClaim (rel_ID e) (rel_LastError e)
      | _ \<Rightarrow>
          go_bind (on_db (db_Exec (release_statement entries))) (\<lambda>r.
            case r of
              Inr err \<Rightarrow> go_return (Some (errorf_w ''outbox: batch release claims'' err))
            | Inl _ \<Rightarrow> go_return None))"

abbreviation mark_statement :: "int \<Rightarrow> string list \<Rightarrow> string \<Rightarrow> ('x database_scheme, unit) statement" where
  "mark_statement now ids leaseToken \<equiv>
     update_rows (\<lambda>r. row_lease_token r = Some leaseToken \<and> row_id r \<in> set ids)
       (\<lambda>r. r\<lparr>row_published_at := Some now\<rparr>)"

definition MarkPublished ::
  "int \<Rightarrow> string list \<Rightarrow> string \<Rightarrow> (('x database_scheme, 'm) world_scheme, goerr option) go" where
  "MarkPublished now ids leaseToken =
     (if ids = [] then go_return None
      else go_bind (on_db (db_Exec (mark_statement now ids leaseToken))) (\<lambda>r.
             case r of
               Inr err \<Rightarrow> go_return (Some (errorf_w ''outbox: mark published'' err))
             | Inl _ \<Rightarrow> go_return None))"

section \<open>Cleanup and counting\<close>

abbreviation cleanupBatchLimit :: nat where
  "cleanupBatchLimit \<equiv> 10000"

definition cleanup_ids :: "int \<Rightarrow> 'x database_scheme \<Rightarrow> string list" where
  "cleanup_ids cutoff d =
     map row_id (take cleanupBatchLimit
       (filter (\<lambda>r. case row_published_at r of None \<Rightarrow> False | Some p \<Rightarrow> p < cutoff) (outbox_events d)))"

abbreviation cleanup_statement :: "int \<Rightarrow> ('x database_scheme, int) statement" where
  "cleanup_statement cutoff d \<equiv>
     (let ids = cleanup_ids cutoff d;
          kept = filter (\<lambda>r. row_id r \<notin> set ids) (outbox_events d)
      in (Inl (int (length (outbox_events d)) - int (length kept)), d\<lparr>outbox_events := kept\<rparr>))"

definition Cleanup ::
  "int \<Rightarrow> int \<Rightarrow> (('x database_scheme, 'm) world_scheme, int \<times> goerr option) go" where
  "Cleanup now retention =
     go_bind (on_db (db_Exec (cleanup_statement (now - retention)))) (\<lambda>r.
       case r of
         Inr err \<Rightarrow> go_return (0, Some (errorf_w ''outbox: cleanup'' err))
       | Inl n \<Rightarrow>
           go_bind (on_db driver_call) (\<lambda>aerr.
             case aerr of
               Some err \<Rightarrow> go_return (0, Some (errorf_w ''outbox: cleanup rows affected'' err))
             | None \<Rightarrow> go_return (n, None)))"

definition count_pending :: "'x database_scheme \<Rightarrow> int" where
  "count_pending d = int (length (filter (\<lambda>r. row_published_at r = None) (outbox_events d)))"

definition CountPending :: "(('x database_scheme, 'm) world_scheme, int \<times> goerr option) go" where
  "CountPending =
     go_bind (on_db (db_Exec (\<lambda>d. (Inl (count_pending d), d)))) (\<lambda>r.
       case r of
         Inr err \<Rightarrow> go_return (0, Some (errorf_w ''outbox: count pending'' err))
       | Inl n \<Rightarrow> go_return (n, None))"

text \<open>The lag health check; \<open>show_duration\<close> is \<^verbatim>\<open>time.Duration.String\<close>.\<close>

definition LagChecker_HealthCheck ::
  "(int \<Rightarrow> string) \<Rightarrow> int \<Rightarrow> int \<Rightarrow> (('x database_scheme, 'm) world_scheme, goerr option) go" where
  "LagChecker_HealthCheck show_duration now threshold =
     go_bind (on_db (db_Exec (\<lambda>d.
       (Inl (int (length (filter (\<lambda>r. row_published_at r = None \<and> row_created_at r < now - threshold)
                            (outbox_events d)))), d)))) (\<lambda>r.
       case r of
         Inr err \<Rightarrow> go_return (Some (errorf_w ''outbox_lag: query'' err))
       | Inl count \<Rightarrow>
           go_return (if count > 0
             then Some (errorf (''outbox_lag: '' @ itoa count @ '' entries older than ''
                                @ show_duration threshold @ '' remain unpublished''))
             else None))"

section \<open>The dead letter store\<close>

abbreviation dlq_insert_statement :: "int \<Rightarrow> dlq_entry \<Rightarrow> ('x database_scheme, unit) statement" where
  "dlq_insert_statement now e d \<equiv>
     (if dlq_ID e \<in> dlq_ID ` set (dead_letter_queue d) then (Inl (), d)
      else (Inl (), d\<lparr>dead_letter_queue := dead_letter_queue d @ [e\<lparr>dlq_DeadAt := now\<rparr>]\<rparr>))"

definition DLQ_Insert ::
  "int \<Rightarrow> dlq_entry \<Rightarrow> (('x database_scheme, 'm) world_scheme, goerr option) go" where
  "DLQ_Insert now e =
     go_bind (on_db (db_Exec (dlq_insert_statement now e))) (\<lambda>r.
       case r of
         Inr err \<Rightarrow> go_return (Some (errorf_w (''deadletter: insert '' @ quote (dlq_ID e)) err))
       | Inl _ \<Rightarrow> go_return None)"

definition GetDeadLetters ::
  "int \<Rightarrow> (('x database_scheme, 'm) world_scheme, dlq_entry list \<times> goerr option) go" where
  "GetDeadLetters limit =
     go_bind (on_db (db_Exec (\<lambda>d. (Inl (take (nat limit) (sort_key dlq_DeadAt (dead_letter_queue d))), d)))) (\<lambda>r.
       case r of
         Inr err \<Rightarrow> go_return ([], Some (errorf_w ''deadletter: query'' err))
       | Inl entries \<Rightarrow>
           go_bind (on_db driver_call) (\<lambda>rerr.
             case rerr of
               Some err \<Rightarrow> go_return ([], Some (errorf_w ''deadletter: iterate rows'' err))
             | None \<Rightarrow> go_return (entries, None)))"

definition DLQ_Retry :: "string \<Rightarrow> (('x database_scheme, 'm) world_scheme, goerr option) go" where
  "DLQ_Retry i =
     go_bind (on_db (db_Exec (\<lambda>d.
       (Inl (), d\<lparr>dead_letter_queue := filter (\<lambda>e. dlq_ID e \<noteq> i) (dead_letter_queue d)\<rparr>)))) (\<lambda>r.
       case r of
         Inr err \<Rightarrow> go_return (Some (errorf_w (''deadletter: retry (delete) '' @ quote i) err))
       | Inl _ \<Rightarrow> go_return None)"

section \<open>Lemmas on statements\<close>

lemma update_rows_ids [simp]:
  assumes "\<And>r. row_id (f r) = row_id r"
  shows "map row_id (outbox_events (snd (update_rows p f d))) = map row_id (outbox_events d)"
  using assms by (simp add: update_rows_def)

text \<open>The primary key of the outbox table.\<close>

definition outbox_key :: "'x database_scheme \<Rightarrow> bool" where
  "outbox_key d \<longleftrightarrow> distinct (map row_id (outbox_events d))"

lemma outbox_key_statements [go_inv]:
  "outbox_key d \<Longrightarrow> outbox_key (snd (insert_outbox_row r d))"
  "outbox_key d \<Longrightarrow> outbox_key (snd (claim_statement now ids token d))"
  "outbox_key d \<Longrightarrow> outbox_key (snd (mark_statement now ids token d))"
  "outbox_key d \<Longrightarrow> outbox_key (snd (release_statement es d))"
  by (auto simp: outbox_key_def insert_outbox_row_def claim_statement_def)

lemma outbox_key_cleanup [go_inv]: "outbox_key d \<Longrightarrow> outbox_key (snd (cleanup_statement c d))"
  by (simp add: outbox_key_def Let_def distinct_map inj_on_def)

lemma set_take_sort_filter:
  "r \<in> set (select_claimable now n d) \<Longrightarrow> r \<in> set (outbox_events d) \<and> claimable now r"
  by (auto simp: select_claimable_def dest!: in_set_takeD)

lemma select_claimable_ids:
  assumes "outbox_key d"
  shows "distinct (map row_id (select_claimable now n d))"
proof -
  have "distinct (map row_id (sort_key row_created_at (filter (claimable now) (outbox_events d))))"
    using assms by (auto simp: outbox_key_def distinct_map intro: inj_on_subset)
  then show ?thesis
    by (simp add: select_claimable_def take_map [symmetric])
qed

lemma scan_rows_Inl:
  "scan_rows rs = Inl es \<Longrightarrow>
   map oe_ID es = map row_id rs \<and> list_all2 (\<lambda>r e. scan_row r = Inl e) rs es"
proof (induction rs arbitrary: es)
  case (Cons r rs)
  then obtain x xs where "scan_row r = Inl x" "scan_rows rs = Inl xs" "es = x # xs"
    by (auto split: sum.splits)
  moreover have "oe_ID x = row_id r"
    using \<open>scan_row r = Inl x\<close> by (auto simp: scan_row_def Let_def split: option.splits)
  ultimately show ?case using Cons.IH by auto
qed simp

lemma scan_rows_Inr:
  "scan_rows rs = Inr e \<longleftrightarrow> e = null_lease_token \<and> (\<exists>r \<in> set rs. row_lease_token r = None)"
  by (induction rs) (auto simp: scan_row_def Let_def split: sum.splits option.splits)

section \<open>What ClaimBatch does\<close>

lemma tx_Exec_view:
  assumes "tx_Exec t st q = (r, q')" and "tx_view t q = Some d"
  shows "committed q' = committed q"
    and "r = Inl v \<Longrightarrow> fst (st d) = Inl v \<and> tx_view t q' = Some (snd (st d))"
  using assms tx_Exec_committed [of t st q] tx_Exec_ok [of t st q v q'] by auto

lemma tx_view_driver_call:
  "driver_call q = (r, q') \<Longrightarrow> tx_view t q' = tx_view t q"
  by (auto simp: tx_view_def split: option.splits tx_state.splits dest!: driver_call_split)

lemma claim_statement_Nil [simp]: "claim_statement now [] token d = (Inl (), d)"
  by (simp add: claim_statement_def update_rows_def)

lemma wp_claimEntriesTx:
  assumes "tx_view t (db w) = Some d"
  shows "wp (claimEntriesTx t now ids token)
     (\<lambda>x w'. committed (db w') = committed (db w)
           \<and> (\<exists>r. x = Ret r \<and> (r = None \<longrightarrow> tx_view t (db w') = Some (snd (claim_statement now ids token d))))) w"
  unfolding claimEntriesTx_def
  by (intro wp_intro) (use assms in \<open>auto dest: tx_Exec_view\<close>)

definition claim_post ::
  "string \<Rightarrow> int \<Rightarrow> int \<Rightarrow> 'x database_scheme \<Rightarrow> (outbox_entry list \<times> goerr option) exec \<Rightarrow>
   ('x database_scheme, 'm) world_scheme \<Rightarrow> bool" where
  "claim_post token now n d x w' \<longleftrightarrow>
     (\<exists>e. x = Ret ([], Some e)) \<and> committed (db w') = d
     \<or> (\<exists>es. scan_rows (select_claimable now n d) = Inl es
          \<and> x = Ret (map (\<lambda>e. e\<lparr>oe_LeaseToken := token\<rparr>) es, None)
          \<and> committed (db w') = snd (claim_statement now (map oe_ID es) token d))"

lemma wp_claim_update:
  assumes "tx_view t (db w) = Some d"
  shows "wp (if es \<noteq> [] then claimEntriesTx t now (map oe_ID es) token else go_return None)
     (\<lambda>x w'. committed (db w') = committed (db w)
           \<and> (\<exists>r. x = Ret r
                \<and> (r = None \<longrightarrow> tx_view t (db w') = Some (snd (claim_statement now (map oe_ID es) token d))))) w"
  using assms by (intro wp_if) (auto intro!: wp_claimEntriesTx wp_return)

lemma wp_claim_body:
  assumes "tx_view t (db w) = Some d" and "committed (db w) = d"
  shows "wp (claim_body t token now n) (claim_post token now n d) w"
  unfolding claim_body_def
proof (intro wp_intro)
  fix r q rows es f q' assume q: "tx_Exec t (select_statement now n) (db w) = (r, q)" "r = Inl rows"
    and es: "scan_rows rows = Inl es" and f: "driver_call (db (w\<lparr>db := q\<rparr>)) = (f, q')"
  have rows: "rows = select_claimable now n d" and v: "tx_view t q = Some d" and c: "committed q = d"
    using tx_Exec_view [OF q(1) assms(1)] q(2) assms(2) by (simp_all add: select_statement_def)
  let ?w = "w\<lparr>db := q, db := q'\<rparr>"
  have v': "tx_view t (db ?w) = Some d" and c': "committed (db ?w) = d"
    using f v c by (auto simp: tx_view_driver_call dest: driver_call_split)
  show "wp (go_bind (if es \<noteq> [] then claimEntriesTx t now (map oe_ID es) token else go_return None)
          (\<lambda>cerr. case cerr of None \<Rightarrow>
             go_bind (on_db (tx_Commit t)) (\<lambda>merr. case merr of
                 None \<Rightarrow> go_return (map (oe_LeaseToken_update (\<lambda>_. token)) es, None)
               | Some err \<Rightarrow> go_return ([], Some (errorf_w ''outbox: commit tx'' err)))
           | Some err \<Rightarrow> go_return ([], Some (errorf_w ''outbox: claim entries'' err))))
        (claim_post token now n d) ?w"
    apply (rule wp_bind, rule wp_mono [OF wp_claim_update [OF v']])
    apply (clarsimp split: exec.splits)
    apply (intro wp_intro)
    using c' es rows
    by (auto simp: claim_post_def dest: tx_Commit_cases)
qed (use assms in \<open>auto simp: claim_post_def dest!: driver_call_split dest: tx_Exec_view(1)\<close>)

lemma wp_ClaimBatch: "wp (ClaimBatch token now n) (claim_post token now n (committed (db w))) w"
  unfolding ClaimBatch_def
proof (intro wp_intro)
  fix r q t assume b: "BeginTx (db w) = (r, q)" "r = Inl t"
  let ?d = "committed (db w)"
  have "wp (claim_body t token now n) (claim_post token now n ?d) (w\<lparr>db := q\<rparr>)"
    using BeginTx_cases [OF b(1)] b(2) by (intro wp_claim_body) simp_all
  then show "wp (go_bind (claim_body t token now n) (\<lambda>(entries, err). case err of
        None \<Rightarrow> go_return (entries, err)
      | Some e \<Rightarrow> go_bind (on_db (tx_Rollback t)) (\<lambda>_. go_return (entries, err))))
      (claim_post token now n ?d) (w\<lparr>db := q\<rparr>)"
    by (intro wp_bind, elim wp_mono)
      (auto simp: claim_post_def wp_def go_bind_def on_db_def split: prod.splits dest!: tx_RollbackD)
qed (auto simp: claim_post_def dest: BeginTx_cases(1))

lemmas ClaimBatch_post = wpD [OF wp_ClaimBatch, unfolded claim_post_def]

lemma ClaimBatch_more: "world.more (snd (ClaimBatch token now n w)) = world.more w"
proof -
  have claim: "wp (claimEntriesTx t now ids token) (\<lambda>x w'. world.more w' = world.more w) w" for t ids and w :: "('x database_scheme, 'm) world_scheme"
    unfolding claimEntriesTx_def by (intro wp_intro) simp_all
  have body: "wp (claim_body t token now n) (\<lambda>x w'. world.more w' = world.more w) w" for t and w :: "('x database_scheme, 'm) world_scheme"
    unfolding claim_body_def
    by (intro wp_intro wp_bind [where m = "if P then M else N" for P M N])
      (auto intro!: wp_mono [OF claim] wp_intro split: exec.splits)
  have "wp (ClaimBatch token now n) (\<lambda>x w'. world.more w' = world.more w) w"
    unfolding ClaimBatch_def
    by (intro wp_intro wp_bind [where m = "claim_body t token now n" for t])
      (auto intro!: wp_mono [OF body] wp_intro split: exec.splits)
  then show ?thesis by (simp add: wp_def split: prod.splits)
qed

lemma update_rows_set:
  "set (outbox_events (snd (update_rows p f d))) = (\<lambda>r. if p r then f r else r) ` set (outbox_events d)"
  by (simp add: update_rows_def)

lemma claimed_row_of:
  assumes "outbox_key d" and "ids = map row_id (select_claimable now n d)"
    and "r \<in> set (outbox_events (snd (claim_statement now ids token d)))"
  shows "\<exists>r0 \<in> set (outbox_events d).
     if row_id r \<in> set ids
     then claimable now r0 \<and> r = r0\<lparr>row_claimed_at := Some now, row_lease_token := Some token\<rparr>
     else r = r0"
proof -
  obtain r0 where r0: "r0 \<in> set (outbox_events d)"
    and r: "r = (if row_id r0 \<in> set ids
                 then r0\<lparr>row_claimed_at := Some now, row_lease_token := Some token\<rparr> else r0)"
    using assms(3) by (auto simp: claim_statement_def update_rows_set)
  have "claimable now r0" if "row_id r0 \<in> set ids"
  proof -
    from that assms(2) obtain r1 where "r1 \<in> set (select_claimable now n d)" "row_id r1 = row_id r0"
      by auto
    moreover from this have "r1 = r0"
      using assms(1) r0 set_take_sort_filter [of r1 now n d]
      by (auto simp: outbox_key_def distinct_map inj_on_def)
    ultimately show ?thesis using set_take_sort_filter by blast
  qed
  with r0 r show ?thesis by auto
qed

lemma ClaimBatch_ok:
  assumes "ClaimBatch token now n w = (Ret (entries, None), w')"
  shows "map oe_ID entries = map row_id (select_claimable now n (committed (db w)))"
    and "\<forall>e \<in> set entries. oe_LeaseToken e = token"
    and "committed (db w') =
           snd (claim_statement now (map row_id (select_claimable now n (committed (db w)))) token (committed (db w)))"
proof -
  obtain es where es: "scan_rows (select_claimable now n (committed (db w))) = Inl es"
    "entries = map (\<lambda>e. e\<lparr>oe_LeaseToken := token\<rparr>) es"
    "committed (db w') = snd (claim_statement now (map oe_ID es) token (committed (db w)))"
    using ClaimBatch_post [OF assms] by auto
  have "map oe_ID es = map row_id (select_claimable now n (committed (db w)))"
    using scan_rows_Inl [OF es(1)] by simp
  with es show "map oe_ID entries = map row_id (select_claimable now n (committed (db w)))"
    and "\<forall>e \<in> set entries. oe_LeaseToken e = token"
    and "committed (db w') =
           snd (claim_statement now (map row_id (select_claimable now n (committed (db w)))) token (committed (db w)))"
    by (auto simp: comp_def)
qed

text \<open>With a driver that does not fail and a token in every selected row, a claim succeeds.\<close>

lemma ClaimBatch_no_faults:
  assumes "faults (db w) = []" and "scan_rows (select_claimable now n (committed (db w))) = Inl es"
  shows "\<exists>w'. ClaimBatch token now n w = (Ret (map (\<lambda>e. e\<lparr>oe_LeaseToken := token\<rparr>) es, None), w')
           \<and> faults (db w') = [] \<and> world.more w' = world.more w
           \<and> committed (db w') = snd (claim_statement now (map oe_ID es) token (committed (db w)))"
  using assms
  by (cases "es = []")
    (simp_all add: ClaimBatch_def claim_body_def claimEntriesTx_def go_bind_def on_db_def BeginTx_def
      tx_Exec_def tx_Commit_def driver_call_def select_statement_def claim_statement_def update_rows_def
      replay_def)

text \<open>A claim fails, with nothing changed, as soon as one selected row has no lease token.\<close>

lemma ClaimBatch_null_token:
  assumes "r \<in> set (select_claimable now n (committed (db w)))" and "row_lease_token r = None"
  shows "\<exists>e. fst (ClaimBatch token now n w) = Ret ([], Some e)
           \<and> committed (db (snd (ClaimBatch token now n w))) = committed (db w)"
proof -
  obtain x w' where c: "ClaimBatch token now n w = (x, w')" by fastforce
  have "scan_rows (select_claimable now n (committed (db w))) = Inr null_lease_token"
    using assms by (auto simp: scan_rows_Inr)
  with ClaimBatch_post [OF c] c show ?thesis by auto
qed

lemma ReleaseClaim_ok:
  assumes "ReleaseClaim i msg w = (Ret None, w')"
  shows "committed (db w') = snd (update_rows (\<lambda>r. row_id r = i) (release_row msg) (committed (db w)))"
proof -
  have "wp (ReleaseClaim i msg) (\<lambda>x w'. x = Ret None \<longrightarrow>
    committed (db w') = snd (update_rows (\<lambda>r. row_id r = i) (release_row msg) (committed (db w)))) w"
    unfolding ReleaseClaim_def
    by (intro wp_intro) (auto dest: db_Exec_cases)
  from wpD [OF this assms] show ?thesis by simp
qed

section \<open>Properties of the store\<close>

text \<open>a successful \<^verbatim>\<open>ClaimBatch\<close> leases exactly the oldest claimable rows, at most
  \<^verbatim>\<open>batchSize\<close> of them: every returned entry carries the new token, its row was unpublished and not
  leased within the lease timeout and is now claimed with the token, and no other row changes.\<close>

theorem claim_batch_leases:
  assumes "ClaimBatch token now batchSize w = (Ret (entries, None), w')"
    and "outbox_key (committed (db w))"
  shows "map oe_ID entries = map row_id (select_claimable now batchSize (committed (db w)))
    \<and> length entries \<le> nat batchSize
    \<and> (\<forall>e \<in> set entries. oe_LeaseToken e = token)
    \<and> map row_id (outbox_events (committed (db w'))) = map row_id (outbox_events (committed (db w)))
    \<and> (\<forall>r \<in> set (outbox_events (committed (db w'))).
         \<exists>r0 \<in> set (outbox_events (committed (db w))).
           if row_id r \<in> oe_ID ` set entries
           then claimable now r0 \<and> r = r0\<lparr>row_claimed_at := Some now, row_lease_token := Some token\<rparr>
           else r = r0)"
proof (intro conjI)
  note ok = ClaimBatch_ok [OF assms(1)]
  have ids: "set (map row_id (select_claimable now batchSize (committed (db w)))) = oe_ID ` set entries"
    using ok(1) by (metis list.set_map)
  show "map oe_ID entries = map row_id (select_claimable now batchSize (committed (db w)))"
    and "\<forall>e \<in> set entries. oe_LeaseToken e = token" by (fact ok)+
  have "length entries = length (select_claimable now batchSize (committed (db w)))"
    using ok(1) by (metis length_map)
  then show "length entries \<le> nat batchSize" by (simp add: select_claimable_def)
  show "map row_id (outbox_events (committed (db w'))) = map row_id (outbox_events (committed (db w)))"
    by (simp add: ok(3) claim_statement_def)
  show "\<forall>r \<in> set (outbox_events (committed (db w'))).
         \<exists>r0 \<in> set (outbox_events (committed (db w))).
           if row_id r \<in> oe_ID ` set entries
           then claimable now r0 \<and> r = r0\<lparr>row_claimed_at := Some now, row_lease_token := Some token\<rparr>
           else r = r0"
    using claimed_row_of [OF assms(2) refl, of _ now batchSize token, folded ok(3), unfolded ids] by blast
qed

definition sample_row :: "string \<Rightarrow> int \<Rightarrow> string option \<Rightarrow> outbox_row" where
  "sample_row i c token =
     \<lparr>row_id = i, row_aggregate_type = ''order'', row_aggregate_id = ''o1'', row_event_type = ''order.created'',
      row_payload = ''{}'', row_trace_id = [], row_metadata = Map.empty, row_created_at = c,
      row_claimed_at = None, row_lease_token = token, row_published_at = None, row_retry_count = 0,
      row_last_error = []\<rparr>"

definition sample_world :: "outbox_row list \<Rightarrow> database world" where
  "sample_world rows =
     \<lparr>db = \<lparr>committed = \<lparr>outbox_events = rows, lease_default = Some [], dead_letter_queue = [], inbox_events = []\<rparr>,
           txs = Map.empty, next_tx = 0, faults = []\<rparr>\<rparr>"

definition two_rows :: "database world" where
  "two_rows = sample_world [sample_row ''a'' 20 (Some []), sample_row ''b'' 10 (Some [])]"

lemmas row_eval =
  sample_world_def sample_row_def select_claimable_def claimable_def scan_row_def Let_def
  second_def claim_statement_def update_rows_def

lemma two_rows_claim:
  "\<exists>e w'. ClaimBatch ''t1'' 100 1 two_rows = (Ret ([e], None), w')
     \<and> faults (db w') = [] \<and> oe_ID e = ''b''
     \<and> committed (db w') = snd (claim_statement 100 [''b''] ''t1'' (committed (db two_rows)))"
proof -
  obtain e where e: "scan_rows (select_claimable 100 1 (committed (db two_rows))) = Inl [e]" "oe_ID e = ''b''"
    by (simp add: two_rows_def row_eval)
  show ?thesis
    using ClaimBatch_no_faults [OF _ e(1), of "''t1''"] e(2)
    by (simp add: two_rows_def sample_world_def) auto
qed

lemma two_rows_key: "outbox_key (committed (db two_rows))"
  by (simp add: outbox_key_def two_rows_def sample_world_def sample_row_def)

theorem claim_batch_leases_witness:
  "\<exists>e w'. ClaimBatch ''t1'' 100 1 two_rows = (Ret ([e], None), w')
     \<and> oe_LeaseToken e = ''t1''
     \<and> map row_id (outbox_events (committed (db w'))) = [''a'', ''b'']"
proof -
  obtain e w' where c: "ClaimBatch ''t1'' 100 1 two_rows = (Ret ([e], None), w')"
    using two_rows_claim by blast
  show ?thesis
    using claim_batch_leases [OF c two_rows_key] c
    by (simp add: two_rows_def sample_world_def sample_row_def)
qed

text \<open>C7: leases are exclusive: after a successful claim, another claim within the lease timeout
  returns none of the same entries.\<close>

theorem claim_batches_exclusive:
  assumes "ClaimBatch t1 now1 n1 w = (Ret (entries1, None), w1)"
    and "ClaimBatch t2 now2 n2 w1 = (Ret (entries2, None), w2)"
    and "now2 \<le> now1 + leaseTimeout"
  shows "oe_ID ` set entries1 \<inter> oe_ID ` set entries2 = {}"
proof -
  note ok1 = ClaimBatch_ok [OF assms(1)] and ok2 = ClaimBatch_ok [OF assms(2)]
  have s1: "oe_ID ` set entries1 = set (map row_id (select_claimable now1 n1 (committed (db w))))"
    and s2: "oe_ID ` set entries2 = set (map row_id (select_claimable now2 n2 (committed (db w1))))"
    using ok1(1) ok2(1) by (metis list.set_map)+
  have "\<not> claimable now2 r"
    if "r \<in> set (outbox_events (committed (db w1)))" "row_id r \<in> oe_ID ` set entries1" for r
    using that assms(3)
    by (auto simp: ok1(3) claim_statement_def update_rows_set s1 claimable_def split: if_splits)
  then show ?thesis
    unfolding s2 by (auto dest!: set_take_sort_filter) (metis imageI)
qed

lemma two_rows_claim_twice:
  "\<exists>e e' w1 w2. ClaimBatch ''t1'' 100 1 two_rows = (Ret ([e], None), w1)
     \<and> ClaimBatch ''t2'' 200 5 w1 = (Ret ([e'], None), w2)"
proof -
  obtain e w1 where c: "ClaimBatch ''t1'' 100 1 two_rows = (Ret ([e], None), w1)" "faults (db w1) = []"
      "committed (db w1) = snd (claim_statement 100 [''b''] ''t1'' (committed (db two_rows)))"
    using two_rows_claim by blast
  obtain e' where "scan_rows (select_claimable 200 5 (committed (db w1))) = Inl [e']"
    by (simp add: c(3) two_rows_def row_eval)
  from ClaimBatch_no_faults [OF c(2) this, of "''t2''"] c(1) show ?thesis by auto
qed

theorem claim_batches_exclusive_witness:
  "\<exists>e e' w1 w2. ClaimBatch ''t1'' 100 1 two_rows = (Ret ([e], None), w1)
     \<and> ClaimBatch ''t2'' 200 5 w1 = (Ret ([e'], None), w2)
     \<and> oe_ID ` set [e] \<inter> oe_ID ` set [e'] = {}"
proof -
  obtain e e' w1 w2 where c: "ClaimBatch ''t1'' 100 1 two_rows = (Ret ([e], None), w1)"
      "ClaimBatch ''t2'' 200 5 w1 = (Ret ([e'], None), w2)"
    using two_rows_claim_twice by blast
  have "oe_ID ` set [e] \<inter> oe_ID ` set [e'] = {}"
    by (rule claim_batches_exclusive [OF c]) (simp add: second_def)
  with c show ?thesis by blast
qed

text \<open>C39: an entry that was released after a failed delivery blocks the queue: \<^verbatim>\<open>ReleaseClaim\<close> sets
  its \<^verbatim>\<open>lease_token\<close> to NULL, which \<^verbatim>\<open>ClaimBatch\<close> cannot scan, so every later claim that would select
  the entry fails and claims nothing.\<close>

theorem released_entry_blocks_claims:
  assumes "ReleaseClaim i msg w = (Ret None, w1)"
    and "i \<in> row_id ` set (select_claimable now n (committed (db w1)))"
  shows "\<exists>e. fst (ClaimBatch token now n w1) = Ret ([], Some e)
           \<and> committed (db (snd (ClaimBatch token now n w1))) = committed (db w1)"
proof -
  from assms(2) obtain r where r: "r \<in> set (select_claimable now n (committed (db w1)))" "row_id r = i"
    by auto
  obtain r0 where "r = (if row_id r0 = i then release_row msg r0 else r0)"
    using set_take_sort_filter [OF r(1)]
    unfolding ReleaseClaim_ok [OF assms(1)] update_rows_set by blast
  with r(2) have "row_lease_token r = None"
    by (cases "row_id r0 = i") (simp_all)
  with r(1) show ?thesis by (rule ClaimBatch_null_token)
qed

theorem released_entry_blocks_claims_witness:
  "\<exists>w1 e. ReleaseClaim ''b'' ''boom'' two_rows = (Ret None, w1)
     \<and> fst (ClaimBatch ''t2'' 100 10 w1) = Ret ([], Some e)"
proof -
  obtain w1 where c: "ReleaseClaim ''b'' ''boom'' two_rows = (Ret None, w1)"
    and r: "''b'' \<in> row_id ` set (select_claimable 100 10 (committed (db w1)))"
    by (simp add: ReleaseClaim_def go_bind_def on_db_def db_Exec_def driver_call_def update_rows_def
        two_rows_def sample_world_def sample_row_def select_claimable_def claimable_def)
  show ?thesis using released_entry_blocks_claims [OF c r] c by blast
qed

end
