(* ===== verification/Wolf_UoW.thy ===== *)
theory Wolf_UoW
  imports Outbox_Store
begin

text \<open>
  The unit of work of \<^verbatim>\<open>src/uow/unit_of_work.go\<close>: the business function and the pending events of the
  aggregates go into one transaction. The two interfaces the struct holds are its fields here; an
  aggregate is an address in the memory \<open>aggs\<close> of the program, which no rollback restores.
\<close>

section \<open>The unit of work\<close>

record ('d, 'p) uow_world = "'d world" +
  aggs :: "nat \<Rightarrow> 'p aggregate"

record ('w, 'p) unit_of_work =
  txRunner :: "go_ctx \<Rightarrow> (go_ctx \<Rightarrow> ('w, goerr option) go) \<Rightarrow> ('w, goerr option) go"
  outboxStore :: "go_ctx \<Rightarrow> 'p event \<Rightarrow> metadata \<Rightarrow> ('w, goerr option) go"
  uow_source :: string

definition uow_New ::
  "(go_ctx \<Rightarrow> (go_ctx \<Rightarrow> ('w, goerr option) go) \<Rightarrow> ('w, goerr option) go) option \<Rightarrow>
   (go_ctx \<Rightarrow> 'p event \<Rightarrow> metadata \<Rightarrow> ('w, goerr option) go) option \<Rightarrow> string \<Rightarrow>
   ('w, 'p) unit_of_work exec" where
  "uow_New runner store src =
     (case runner of
        None \<Rightarrow> Panic ''uow: txRunner must not be nil''
      | Some rn \<Rightarrow>
          (case store of
             None \<Rightarrow> Panic ''uow: outboxStore must not be nil''
           | Some st \<Rightarrow>
               if src = [] then Panic ''uow: source must not be empty''
               else Ret \<lparr>txRunner = rn, outboxStore = st, uow_source = src\<rparr>))"

definition agg_ClearEvents :: "nat \<Rightarrow> (('d, 'p, 'm) uow_world_scheme, 'p event list) go" where
  "agg_ClearEvents a w =
     (case ClearEvents (aggs w a) of (pending, b) \<Rightarrow> (Ret pending, w\<lparr>aggs := (aggs w)(a := b)\<rparr>))"

abbreviation uow_meta :: "('w, 'p) unit_of_work \<Rightarrow> metadata" where
  "uow_meta u \<equiv> metadata_zero\<lparr>Source := uow_source u\<rparr>"

definition insert_event ::
  "('w, 'p) unit_of_work \<Rightarrow> go_ctx \<Rightarrow> 'p event \<Rightarrow> ('w, goerr option) go" where
  "insert_event u txCtx evt =
     go_bind (outboxStore u txCtx evt (uow_meta u)) (\<lambda>err.
       case err of
         Some e \<Rightarrow> go_return (Some (errorf_w (''uow: publish event '' @ quote (eventType evt)) e))
       | None \<Rightarrow> go_return None)"

definition publishEvents ::
  "(('d, 'p, 'm) uow_world_scheme, 'p) unit_of_work \<Rightarrow> go_ctx \<Rightarrow> nat \<Rightarrow>
   (('d, 'p, 'm) uow_world_scheme, goerr option) go" where
  "publishEvents u txCtx agg =
     go_bind (agg_ClearEvents agg) (\<lambda>pending. for_err (insert_event u txCtx) pending)"

definition Execute ::
  "(('d, 'p, 'm) uow_world_scheme, 'p) unit_of_work \<Rightarrow> go_ctx \<Rightarrow> nat \<Rightarrow>
   (go_ctx \<Rightarrow> (('d, 'p, 'm) uow_world_scheme, goerr option) go) \<Rightarrow>
   (('d, 'p, 'm) uow_world_scheme, goerr option) go" where
  "Execute u ctx agg fn =
     txRunner u ctx (\<lambda>txCtx.
       go_bind (fn txCtx) (\<lambda>err.
         case err of
           Some e \<Rightarrow> go_return (Some e)
         | None \<Rightarrow> publishEvents u txCtx agg))"

definition ExecuteMulti ::
  "(('d, 'p, 'm) uow_world_scheme, 'p) unit_of_work \<Rightarrow> go_ctx \<Rightarrow> nat list \<Rightarrow>
   (go_ctx \<Rightarrow> (('d, 'p, 'm) uow_world_scheme, goerr option) go) \<Rightarrow>
   (('d, 'p, 'm) uow_world_scheme, goerr option) go" where
  "ExecuteMulti u ctx as fn =
     txRunner u ctx (\<lambda>txCtx.
       go_bind (fn txCtx) (\<lambda>err.
         case err of
           Some e \<Rightarrow> go_return (Some e)
         | None \<Rightarrow> for_err (publishEvents u txCtx) as))"

lemma Execute_ExecuteMulti: "Execute u ctx a fn = ExecuteMulti u ctx [a] fn"
  unfolding Execute_def ExecuteMulti_def for_err_single by (rule refl)

section \<open>The contract of the outbox inserter\<close>

text \<open>Additions one after the other, each of which may be refused.\<close>

fun add_all :: "('e \<Rightarrow> 'c \<Rightarrow> 'c option) \<Rightarrow> 'e list \<Rightarrow> 'c \<Rightarrow> 'c option" where
  "add_all add [] d = Some d"
| "add_all add (e # es) d = Option.bind (add e d) (add_all add es)"

lemma add_all_none [simp]: "Option.bind x (add_all add []) = x"
  by (cases x) simp_all

lemma add_all_append: "add_all add (xs @ ys) d = Option.bind (add_all add xs d) (add_all add ys)"
  by (induction xs arbitrary: d) (auto split: Option.bind_split)

text \<open>
  What \<^verbatim>\<open>uow.OutboxInserter\<close> promises inside a transaction: nothing is committed and no aggregate is
  touched, and an insert that reports success was not refused and has added its row to the view of the transaction.
\<close>

locale uow_env = tx_runner run committed_of mem_of tx_ctx view_of
  for run :: "go_ctx \<Rightarrow> (go_ctx \<Rightarrow> (('d, 'p, 'm) uow_world_scheme, goerr option) go) \<Rightarrow>
              (('d, 'p, 'm) uow_world_scheme, goerr option) go"
    and committed_of :: "('d, 'p, 'm) uow_world_scheme \<Rightarrow> 'c"
    and mem_of :: "('d, 'p, 'm) uow_world_scheme \<Rightarrow> 'e"
    and tx_ctx view_of +
  fixes ins :: "go_ctx \<Rightarrow> 'p event \<Rightarrow> metadata \<Rightarrow> (('d, 'p, 'm) uow_world_scheme, goerr option) go"
    and add :: "go_ctx \<Rightarrow> 'p event \<Rightarrow> metadata \<Rightarrow> 'c \<Rightarrow> 'c option"
  assumes ins_local: "tx_ctx ctx \<Longrightarrow> committed_of (snd (ins ctx e m w)) = committed_of w"
    and ins_aggs: "aggs (snd (ins ctx e m w)) = aggs w"
    and ins_ok: "tx_ctx ctx \<Longrightarrow> ins ctx e m w = (Ret None, w') \<Longrightarrow>
                   \<exists>d d'. view_of ctx w = Some d \<and> add ctx e m d = Some d' \<and> view_of ctx w' = Some d'"
    and clear_local: "committed_of (w\<lparr>aggs := f\<rparr>) = committed_of w"
    and clear_view: "view_of ctx (w\<lparr>aggs := f\<rparr>) = view_of ctx w"
    and mem_aggs: "mem_of w = mem_of w' \<Longrightarrow> aggs w = aggs w'"
begin

lemma insert_event_run:
  assumes "outboxStore u = ins" and "tx_ctx ctx" and "insert_event u ctx e w = (x, w')"
  shows "committed_of w' = committed_of w" and "aggs w' = aggs w"
    and "x = Ret None \<Longrightarrow> view_of ctx w' = Option.bind (view_of ctx w) (add ctx e (uow_meta u))"
proof -
  obtain y v where y: "ins ctx e (uow_meta u) w = (y, v)" by fastforce
  have v: "w' = v" "x = Ret None \<Longrightarrow> y = Ret None"
    using assms(1,3) y
    by (auto simp: insert_event_def go_bind_def split: exec.splits option.splits)
  show "committed_of w' = committed_of w" and "aggs w' = aggs w"
    using ins_local [OF assms(2), of e "uow_meta u" w] ins_aggs [of ctx e "uow_meta u" w] y v
    by simp_all
  show "view_of ctx w' = Option.bind (view_of ctx w) (add ctx e (uow_meta u))" if "x = Ret None"
    using ins_ok [OF assms(2), of e "uow_meta u" w v] y v that by fastforce
qed

lemma insert_events_run:
  assumes "outboxStore u = ins" and "tx_ctx ctx" and "for_err (insert_event u ctx) es w = (x, w')"
  shows "committed_of w' = committed_of w" and "aggs w' = aggs w"
    and "x = Ret None \<Longrightarrow>
           view_of ctx w' = Option.bind (view_of ctx w) (add_all (\<lambda>e. add ctx e (uow_meta u)) es)"
proof -
  note step = insert_event_run [OF assms(1,2)]
  show "committed_of w' = committed_of w"
    by (rule for_err_inv [OF assms(3)]) (auto dest: step(1))
  show "aggs w' = aggs w"
    by (rule for_err_inv [OF assms(3)]) (auto dest: step(2))
  have "x = Ret None \<longrightarrow>
      view_of ctx w' = Option.bind (view_of ctx w) (add_all (\<lambda>e. add ctx e (uow_meta u)) es)"
    using assms(3)
  proof (induction es arbitrary: w)
    case (Cons e es)
    show ?case
    proof
      assume "x = Ret None"
      with Cons.prems obtain v where "insert_event u ctx e w = (Ret None, v)"
          "for_err (insert_event u ctx) es v = (x, w')"
        by (auto simp: for_err_Cons_and_then and_then_None simp del: for_err.simps(2))
      with Cons.IH \<open>x = Ret None\<close> step(3)
      show "view_of ctx w' = Option.bind (view_of ctx w) (add_all (\<lambda>e. add ctx e (uow_meta u)) (e # es))"
        by (cases "view_of ctx w") simp_all
    qed
  qed simp
  then show "x = Ret None \<Longrightarrow>
      view_of ctx w' = Option.bind (view_of ctx w) (add_all (\<lambda>e. add ctx e (uow_meta u)) es)"
    by simp
qed

lemma publishEvents_run:
  assumes "outboxStore u = ins" and "tx_ctx ctx" and "publishEvents u ctx a w = (x, w')"
  shows "committed_of w' = committed_of w" and "aggs w' = (aggs w)(a := (aggs w a)\<lparr>events := []\<rparr>)"
    and "x = Ret None \<Longrightarrow> view_of ctx w' =
           Option.bind (view_of ctx w) (add_all (\<lambda>e. add ctx e (uow_meta u)) (events (aggs w a)))"
proof -
  let ?w = "w\<lparr>aggs := (aggs w)(a := (aggs w a)\<lparr>events := []\<rparr>)\<rparr>"
  have "for_err (insert_event u ctx) (events (aggs w a)) ?w = (x, w')"
    using assms(3) by (simp add: publishEvents_def agg_ClearEvents_def ClearEvents_def go_bind_def)
  note run = insert_events_run [OF assms(1,2) this]
  show "committed_of w' = committed_of w" using run(1) by (simp add: clear_local)
  show "aggs w' = (aggs w)(a := (aggs w a)\<lparr>events := []\<rparr>)" using run(2) by simp
  show "x = Ret None \<Longrightarrow> view_of ctx w' =
      Option.bind (view_of ctx w) (add_all (\<lambda>e. add ctx e (uow_meta u)) (events (aggs w a)))"
    using run(3) by (simp add: clear_view)
qed

lemma publish_all_committed:
  assumes "outboxStore u = ins" and "tx_ctx ctx" and "for_err (publishEvents u ctx) as w = (x, w')"
  shows "committed_of w' = committed_of w"
  by (rule for_err_inv [OF assms(3)]) (auto dest: publishEvents_run(1) [OF assms(1,2)])

lemma publish_all_cleared:
  assumes "outboxStore u = ins" and "tx_ctx ctx" and "for_err (publishEvents u ctx) as w = (Ret None, w')"
    and "a \<in> set as"
  shows "events (aggs w' a) = []"
proof -
  from assms(4) obtain as1 as2 where "as = as1 @ a # as2" by (auto simp: in_set_conv_decomp)
  with assms(3) obtain w1 w2 where "publishEvents u ctx a w1 = (Ret None, w2)"
      and rest: "for_err (publishEvents u ctx) as2 w2 = (Ret None, w')"
    by (auto simp: for_err_append for_err_Cons_and_then and_then_None simp del: for_err.simps(2))
  then have "events (aggs w2 a) = []" using publishEvents_run(2) [OF assms(1,2)] by fastforce
  then show ?thesis
    by (rule for_err_inv [OF rest]) (auto dest!: publishEvents_run(2) [OF assms(1,2)])
qed

lemma publish_all_view:
  assumes "outboxStore u = ins" and "tx_ctx ctx" and "distinct as"
    and "for_err (publishEvents u ctx) as w = (Ret None, w')"
  shows "view_of ctx w' = Option.bind (view_of ctx w)
           (add_all (\<lambda>e. add ctx e (uow_meta u)) (concat (map (\<lambda>a. events (aggs w a)) as)))"
  using assms(3,4)
proof (induction as arbitrary: w)
  case (Cons a as)
  then obtain v where v: "publishEvents u ctx a w = (Ret None, v)"
      and rest: "for_err (publishEvents u ctx) as v = (Ret None, w')"
    by (auto simp: for_err_Cons_and_then and_then_None simp del: for_err.simps(2))
  note run = publishEvents_run(2,3) [OF assms(1,2) v]
  have "concat (map (\<lambda>b. events (aggs v b)) as) = concat (map (\<lambda>b. events (aggs w b)) as)"
    using Cons.prems(1) run(1) by (intro arg_cong [where f = concat] map_cong) auto
  with Cons.IH [OF _ rest] Cons.prems(1) run(2) show ?case
    by (cases "view_of ctx w") (simp_all add: add_all_append)
qed simp

lemma ExecuteMulti_failed:
  assumes "txRunner u = run" and "outboxStore u = ins" and "tx_local committed_of tx_ctx fn"
    and "ExecuteMulti u ctx as fn w = (r, w')" and "r \<noteq> Ret None"
  shows "committed_of w' = committed_of w"
proof (rule run_failed [OF _ _ assms(5)])
  let ?body = "\<lambda>txCtx. and_then (fn txCtx) (for_err (publishEvents u txCtx) as)"
  show "run ctx ?body w = (r, w')"
    using assms(1,4) by (simp add: ExecuteMulti_def and_then_def)
  show "tx_local committed_of tx_ctx ?body"
    unfolding tx_local_def
  proof (intro allI impI)
    fix c v assume c: "tx_ctx c"
    have "committed_of (snd (fn c v)) = committed_of v"
      using assms(3) c by (simp add: tx_local_def)
    moreover have "committed_of (snd (for_err (publishEvents u c) as v')) = committed_of v'" for v'
      using publish_all_committed [OF assms(2) c] by (metis prod.collapse)
    ultimately show "committed_of (snd (?body c v)) = committed_of v"
      by (auto simp: and_then_def go_bind_def split: prod.splits exec.splits option.splits)
  qed
qed

lemma ExecuteMulti_ok:
  assumes "txRunner u = run" and "outboxStore u = ins" and "distinct as"
    and "ExecuteMulti u ctx as fn w = (Ret None, w')"
  shows "\<exists>raw w1 w2 d. committed_of w1 = committed_of w \<and> aggs w1 = aggs w
      \<and> view_of (Inject ctx raw) w1 = Some (committed_of w)
      \<and> fn (Inject ctx raw) w1 = (Ret None, w2) \<and> view_of (Inject ctx raw) w2 = Some d
      \<and> add_all (\<lambda>e. add (Inject ctx raw) e (uow_meta u)) (concat (map (\<lambda>a. events (aggs w2 a)) as)) d
          = Some (committed_of w')
      \<and> (\<forall>a \<in> set as. events (aggs w' a) = [])"
proof -
  let ?body = "\<lambda>txCtx. and_then (fn txCtx) (for_err (publishEvents u txCtx) as)"
  have "run ctx ?body w = (Ret None, w')"
    using assms(1,4) by (simp add: ExecuteMulti_def and_then_def)
  from run_ok [OF this] obtain raw w1 w3
    where r: "tx_ctx (Inject ctx raw)" "committed_of w1 = committed_of w" "mem_of w1 = mem_of w"
      "view_of (Inject ctx raw) w1 = Some (committed_of w)" "?body (Inject ctx raw) w1 = (Ret None, w3)"
      "view_of (Inject ctx raw) w3 = Some (committed_of w')" "mem_of w' = mem_of w3"
    by blast
  from r(5) obtain w2 where f: "fn (Inject ctx raw) w1 = (Ret None, w2)"
      and p: "for_err (publishEvents u (Inject ctx raw)) as w2 = (Ret None, w3)"
    by (auto simp: and_then_None)
  obtain d where d: "view_of (Inject ctx raw) w2 = Some d"
      "add_all (\<lambda>e. add (Inject ctx raw) e (uow_meta u)) (concat (map (\<lambda>a. events (aggs w2 a)) as)) d = Some (committed_of w')"
    using publish_all_view [OF assms(2) r(1) assms(3) p] r(6)
    by (cases "view_of (Inject ctx raw) w2") auto
  have "\<forall>a \<in> set as. events (aggs w' a) = []"
    using publish_all_cleared [OF assms(2) r(1) p] mem_aggs [OF r(7)] by simp
  then show ?thesis using r(2,4) mem_aggs [OF r(3)] f d by blast
qed

end

section \<open>The unit of work on the outbox store\<close>

text \<open>
  The row of an event, appended to the table. An event whose payload cannot be marshalled or whose id the table has is
  refused.
\<close>

definition outbox_add ::
  "('p \<Rightarrow> string + goerr) \<Rightarrow> go_ctx \<Rightarrow> 'p event \<Rightarrow> metadata \<Rightarrow> 'x database_scheme \<Rightarrow> 'x database_scheme option" where
  "outbox_add marshal ctx e m d =
     (case marshal (payload e) of
        Inl pl \<Rightarrow>
          if ev_id e \<in> row_id ` set (outbox_events d) then None
          else Some (d\<lparr>outbox_events := outbox_events d @
            [(event_row e pl (enrichMetadataFromContext ctx m))\<lparr>row_lease_token := lease_default d\<rparr>]\<rparr>)
      | Inr err \<Rightarrow> None)"

text \<open>\<open>rows\<close> are the rows of the events \<open>es\<close>, one for each and in order, waiting to be claimed.\<close>

definition rows_of ::
  "('p \<Rightarrow> string + goerr) \<Rightarrow> go_ctx \<Rightarrow> metadata \<Rightarrow> string option \<Rightarrow> 'p event list \<Rightarrow> outbox_row list \<Rightarrow> bool" where
  "rows_of marshal ctx m lease es rows \<longleftrightarrow>
     list_all2 (\<lambda>e r. \<exists>pl. marshal (payload e) = Inl pl
       \<and> r = (event_row e pl (enrichMetadataFromContext ctx m))\<lparr>row_lease_token := lease\<rparr>) es rows"

lemma add_all_rows:
  assumes "add_all (\<lambda>e. outbox_add marshal ctx e m) es d = Some d'"
  shows "\<exists>rows. rows_of marshal ctx m (lease_default d) es rows \<and> d' = d\<lparr>outbox_events := outbox_events d @ rows\<rparr>
      \<and> distinct (map ev_id es) \<and> ev_id ` set es \<inter> row_id ` set (outbox_events d) = {}"
  using assms
proof (induction es arbitrary: d)
  case (Cons e es)
  then obtain pl where pl: "marshal (payload e) = Inl pl" "ev_id e \<notin> row_id ` set (outbox_events d)"
    by (auto simp: outbox_add_def split: sum.splits if_splits)
  let ?r = "(event_row e pl (enrichMetadataFromContext ctx m))\<lparr>row_lease_token := lease_default d\<rparr>"
  let ?d = "d\<lparr>outbox_events := outbox_events d @ [?r]\<rparr>"
  have "outbox_add marshal ctx e m d = Some ?d" using pl by (simp add: outbox_add_def)
  then have "add_all (\<lambda>e. outbox_add marshal ctx e m) es ?d = Some d'" using Cons.prems by simp
  from Cons.IH [OF this] obtain rows where "rows_of marshal ctx m (lease_default d) es rows"
      "d' = ?d\<lparr>outbox_events := outbox_events ?d @ rows\<rparr>" "distinct (map ev_id es)"
      "ev_id ` set es \<inter> row_id ` set (outbox_events ?d) = {}"
    by auto
  then show ?case using pl by (intro exI [of _ "?r # rows"]) (auto simp: rows_of_def)
qed (simp add: rows_of_def)

lemma insert_row_added:
  assumes "tx_Exec t (insert_outbox_row (event_row e pl (enrichMetadataFromContext ctx m))) q = (Inl v, q')"
    and "marshal (payload e) = Inl pl"
  shows "\<exists>d d'. tx_view t q = Some d \<and> outbox_add marshal ctx e m d = Some d' \<and> tx_view t q' = Some d'"
  using tx_Exec_ok [OF assms(1)] assms(2) by (auto simp: outbox_add_def insert_outbox_row_def split: if_splits)

lemma wp_Insert:
  assumes "sql_ctx ctx"
  shows "wp (Insert marshal ctx e m) (\<lambda>x w'. world_committed w' = world_committed w
      \<and> world.more w' = world.more w
      \<and> (x = Ret None \<longrightarrow> (\<exists>d d'. world_view ctx w = Some d \<and> outbox_add marshal ctx e m d = Some d' \<and> world_view ctx w' = Some d'))) w"
proof -
  obtain t where t: "Extract ctx = Some (SqlTx t)"
    using assms by (auto simp: sql_ctx_def split: option.splits raw_tx.splits)
  show ?thesis
    unfolding Insert_def Let_def
    by (intro wp_intro)
      (auto simp: t executor_def world_committed_def world_view_def
        dest: insert_row_added tx_Exec_committedD)
qed

lemma Insert_aggs: "aggs (snd (Insert marshal ctx e m w)) = aggs w"
  by (auto simp: Insert_def Let_def go_bind_def on_db_def split: sum.splits prod.splits)

lemma world_more_aggs:
  fixes w w' :: "('d, 'p, 'm) uow_world_scheme"
  shows "world.more w = world.more w' \<Longrightarrow> aggs w = aggs w'"
  by (cases w; cases w') simp

interpretation pg_uow: uow_env RunInTx world_committed world.more sql_ctx world_view
    "Insert marshal" "outbox_add marshal" for marshal
proof unfold_locales
  fix ctx e m and w w' :: "('x database_scheme, 'p, 'm) uow_world_scheme" and f
  show "sql_ctx ctx \<Longrightarrow> world_committed (snd (Insert marshal ctx e m w)) = world_committed w"
    using wpD [OF wp_Insert [of ctx marshal e m w]] by (metis prod.collapse)
  show "aggs (snd (Insert marshal ctx e m w)) = aggs w" by (rule Insert_aggs)
  show "sql_ctx ctx \<Longrightarrow> Insert marshal ctx e m w = (Ret None, w') \<Longrightarrow>
      \<exists>d d'. world_view ctx w = Some d \<and> outbox_add marshal ctx e m d = Some d' \<and> world_view ctx w' = Some d'"
    using wpD [OF wp_Insert [of ctx marshal e m w]] by blast
  show "world_committed (w\<lparr>aggs := f\<rparr>) = world_committed w" by (simp add: world_committed_def)
  show "world_view ctx (w\<lparr>aggs := f\<rparr>) = world_view ctx w"
    by (simp add: world_view_def split: option.splits raw_tx.splits)
  show "world.more w = world.more w' \<Longrightarrow> aggs w = aggs w'" by (rule world_more_aggs)
qed

lemma uow_New_Ret:
  "uow_New (Some rn) (Some st) src = Ret u \<Longrightarrow> u = \<lparr>txRunner = rn, outboxStore = st, uow_source = src\<rparr>"
  by (simp add: uow_New_def split: if_splits)

section \<open>Properties of the unit of work\<close>

text \<open>C3: a unit of work that does not report success leaves the database as it was, whichever step
  failed: beginning the transaction, the business function (by an error or a panic), an outbox insert,
  the rollback or the commit. The business function may do what it likes within its transaction.\<close>

theorem uow_failure_atomic:
  assumes "uow_New (Some RunInTx) (Some (Insert marshal)) src = Ret u"
    and "tx_local world_committed sql_ctx fn"
    and "ExecuteMulti u ctx as fn w = (r, w')" and "r \<noteq> Ret None"
  shows "world_committed w' = world_committed w"
  using pg_uow.ExecuteMulti_failed [OF _ _ assms(2,3,4)] uow_New_Ret [OF assms(1)] by simp

definition sample_ctx :: go_ctx where
  "sample_ctx = \<lparr>ctx_tx = None, ctx_trace_id = ''trace'', ctx_request_id = ''req''\<rparr>"

definition sample_agg :: "string aggregate" where
  "sample_agg = AddDomainEvent ''e1'' 7 ''order.created'' ''{}'' [] (NewBase 5 ''o1'' ''order'')"

definition sample_uow_world :: "goerr option list \<Rightarrow> (database, string) uow_world" where
  "sample_uow_world fs =
     \<lparr>db = (db (sample_world []))\<lparr>faults := fs\<rparr>, aggs = (\<lambda>_. sample_agg)\<rparr>"

definition sample_uow :: "((database, string) uow_world, string) unit_of_work" where
  "sample_uow = \<lparr>txRunner = RunInTx, outboxStore = Insert Inl, uow_source = ''orders''\<rparr>"

lemma sample_uow_New: "uow_New (Some RunInTx) (Some (Insert Inl)) ''orders'' = Ret sample_uow"
  by (simp add: uow_New_def sample_uow_def)

lemma noop_tx_local: "tx_local world_committed sql_ctx (\<lambda>ctx. go_return None)"
  by (simp add: tx_local_def)

lemmas uow_eval =
  sample_uow_def sample_uow_world_def sample_world_def sample_agg_def sample_ctx_def NewBase_def
  AddDomainEvent_def NewEvent_def WithAggregateInfo_def metadata_zero_def ExecuteMulti_def Execute_def
  RunInTx_def WithTx_def on_db_def go_bind_def BeginTx_def driver_call_def publishEvents_def
  agg_ClearEvents_def ClearEvents_def insert_event_def Insert_def executor_def Inject_def Extract_def
  tx_Exec_def tx_Commit_def tx_Rollback_def insert_outbox_row_def replay_def Let_def

lemma sample_commit_fails:
  "fst (ExecuteMulti sample_uow sample_ctx [0] (\<lambda>ctx. go_return None)
          (sample_uow_world [None, None, Some (ErrorsNew ''down'')]))
     = Ret (Some (errorf_w ''db: commit tx'' (ErrorsNew ''down'')))"
  by (simp add: uow_eval)

theorem uow_failure_atomic_witness:
  "world_committed (snd (ExecuteMulti sample_uow sample_ctx [0] (\<lambda>ctx. go_return None)
       (sample_uow_world [None, None, Some (ErrorsNew ''down'')])))
     = world_committed (sample_uow_world [None, None, Some (ErrorsNew ''down'')])"
  by (rule uow_failure_atomic [OF sample_uow_New noop_tx_local prod.collapse [symmetric]])
    (simp add: sample_commit_fails)

text \<open>C5: a unit of work that reports success has committed, in one step, everything the business
  function did in its transaction together with one outbox row for each event that was pending in the
  aggregates, in order and appended to those that were there; the ids of these events are new and distinct, and the
  aggregates then hold no pending event.\<close>

theorem uow_success_publishes:
  assumes "uow_New (Some RunInTx) (Some (Insert marshal)) src = Ret u" and "distinct as"
    and "ExecuteMulti u ctx as fn w = (Ret None, w')"
  shows "\<exists>raw w1 w2 d es rows. world_committed w1 = world_committed w \<and> aggs w1 = aggs w
      \<and> world_view (Inject ctx raw) w1 = Some (world_committed w)
      \<and> fn (Inject ctx raw) w1 = (Ret None, w2) \<and> world_view (Inject ctx raw) w2 = Some d
      \<and> es = concat (map (\<lambda>a. events (aggs w2 a)) as)
      \<and> rows_of marshal (Inject ctx raw) (uow_meta u) (lease_default d) es rows
      \<and> world_committed w' = d\<lparr>outbox_events := outbox_events d @ rows\<rparr>
      \<and> distinct (map ev_id es) \<and> ev_id ` set es \<inter> row_id ` set (outbox_events d) = {}
      \<and> (\<forall>a \<in> set as. events (aggs w' a) = [])"
proof -
  have u: "txRunner u = RunInTx" "outboxStore u = Insert marshal" using uow_New_Ret [OF assms(1)] by simp_all
  obtain raw w1 w2 d where r: "world_committed w1 = world_committed w" "aggs w1 = aggs w"
      "world_view (Inject ctx raw) w1 = Some (world_committed w)"
      "fn (Inject ctx raw) w1 = (Ret None, w2)" "world_view (Inject ctx raw) w2 = Some d"
      "\<forall>a \<in> set as. events (aggs w' a) = []"
    and added: "add_all (\<lambda>e. outbox_add marshal (Inject ctx raw) e (uow_meta u))
        (concat (map (\<lambda>a. events (aggs w2 a)) as)) d = Some (world_committed w')"
    using pg_uow.ExecuteMulti_ok [OF u assms(2,3)] by blast
  show ?thesis using add_all_rows [OF added] r by blast
qed

lemma sample_commits:
  "fst (ExecuteMulti sample_uow sample_ctx [0] (\<lambda>ctx. go_return None) (sample_uow_world [])) = Ret None"
  by (simp add: uow_eval)

theorem uow_success_publishes_witness:
  "map row_id (outbox_events (world_committed (snd (ExecuteMulti sample_uow sample_ctx [0]
         (\<lambda>ctx. go_return None) (sample_uow_world []))))) = [''e1'']
     \<and> events (aggs (snd (ExecuteMulti sample_uow sample_ctx [0]
         (\<lambda>ctx. go_return None) (sample_uow_world []))) 0) = []"
proof -
  let ?run = "ExecuteMulti sample_uow sample_ctx [0] (\<lambda>ctx. go_return None) (sample_uow_world [])"
  have "?run = (Ret None, snd ?run)" using sample_commits by (metis prod.collapse)
  from uow_success_publishes [OF sample_uow_New _ this]
  have "events (aggs (snd ?run) 0) = []" by auto
  moreover have "map row_id (outbox_events (world_committed (snd ?run))) = [''e1'']"
    by (simp add: uow_eval world_committed_def)
  ultimately show ?thesis by blast
qed

text \<open>pending events do not survive a unit of work that fails late: once the transaction has
  begun and the business function has succeeded, the aggregate's events are gone whatever the outcome,
  so retrying the command after a failed commit emits nothing.\<close>

theorem uow_late_failure_drops_events:
  assumes "uow_New (Some RunInTx) (Some (Insert marshal)) src = Ret u"
    and "fst (BeginTx (db w)) = Inl t"
    and "\<And>c v. fst (fn c v) = Ret None"
    and "Execute u ctx a fn w = (r, w')"
  shows "events (aggs w' a) = []"
proof -
  obtain q where b: "BeginTx (db w) = (Inl t, q)" using assms(2) by (metis prod.collapse)
  let ?c = "Inject ctx (SqlTx t)"
  let ?body = "\<lambda>sqlTx. and_then (fn (Inject ctx (SqlTx sqlTx))) (publishEvents u (Inject ctx (SqlTx sqlTx)) a)"
  have u: "outboxStore u = Insert marshal" "txRunner u = RunInTx" using uow_New_Ret [OF assms(1)] by simp_all
  obtain v where v: "fn ?c (w\<lparr>db := q\<rparr>) = (Ret None, v)" using assms(3) by (metis prod.collapse)
  obtain x w2 where x: "publishEvents u ?c a v = (x, w2)" by fastforce
  have w2: "?body t (w\<lparr>db := q\<rparr>) = (x, w2)" using v x by (simp add: and_then_def go_bind_def)
  have "events (aggs w2 a) = []"
    using pg_uow.publishEvents_run(2) [OF u(1) _ x] by simp
  moreover have "WithTx ?body w = (r, w')"
    using assms(4) u(2) by (simp add: Execute_def RunInTx_def and_then_def)
  then have "aggs w' = aggs w2"
    by (cases rule: WithTx_cases) (use b w2 in auto)
  ultimately show ?thesis by simp
qed

theorem uow_late_failure_drops_events_witness:
  "\<exists>r. Execute sample_uow sample_ctx 0 (\<lambda>ctx. go_return None)
          (sample_uow_world [None, None, Some (ErrorsNew ''down'')])
        = (Ret (Some (errorf_w ''db: commit tx'' (ErrorsNew ''down''))), r)
     \<and> events (aggs (sample_uow_world [None, None, Some (ErrorsNew ''down'')]) 0) \<noteq> []
     \<and> events (aggs r 0) = []"
proof -
  let ?w = "sample_uow_world [None, None, Some (ErrorsNew ''down'')]"
  let ?run = "Execute sample_uow sample_ctx 0 (\<lambda>ctx. go_return None) ?w"
  have f: "fst ?run = Ret (Some (errorf_w ''db: commit tx'' (ErrorsNew ''down'')))"
    using sample_commit_fails by (simp add: Execute_ExecuteMulti)
  have "fst (BeginTx (db ?w)) = Inl 0"
    by (simp add: BeginTx_def driver_call_def sample_uow_world_def sample_world_def)
  then have "events (aggs (snd ?run) 0) = []"
    by (rule uow_late_failure_drops_events [OF sample_uow_New _ _ prod.collapse [symmetric]]) simp
  moreover have "events (aggs ?w 0) \<noteq> []"
    by (simp add: sample_uow_world_def sample_agg_def AddDomainEvent_def)
  ultimately show ?thesis using f by (metis prod.collapse)
qed

end
