(* ===== verification/Outbox_Worker.thy ===== *)
theory Outbox_Worker
  imports Outbox_Store "HOL-Library.Multiset"
begin

text \<open>
  The outbox relay of \<^verbatim>\<open>src/infra/events/outbox/worker.go\<close>, with the configuration it is built with as
  a record and the state it changes (consecutive errors, ticker interval, cycle count) in the world.
  The store, the dead letter inserter, the bus and the circuit breaker are fields, as in the struct.
  The breaker is the \<^verbatim>\<open>Execute\<close> method of gobreaker: a function on computations. Logging and metric
  values are left out; the one metric that reads the database (\<^verbatim>\<open>CountPending\<close>) is kept.
\<close>

section \<open>The worker\<close>

record 'd worker_world = "'d world" +
  consecutiveErr :: int
  ticker :: int
  cycle :: int

record 'w store_ops =
  so_ClaimBatch :: "string \<Rightarrow> int \<Rightarrow> int \<Rightarrow> ('w, outbox_entry list \<times> goerr option) go"
  so_MarkPublished :: "int \<Rightarrow> string list \<Rightarrow> string \<Rightarrow> ('w, goerr option) go"
  so_ReleaseClaims :: "release_entry list \<Rightarrow> ('w, goerr option) go"
  so_Cleanup :: "int \<Rightarrow> int \<Rightarrow> ('w, int \<times> goerr option) go"
  so_CountPending :: "('w, int \<times> goerr option) go"

record 'w worker =
  w_store :: "'w store_ops"
  w_dlqStore :: "(dlq_entry \<Rightarrow> ('w, goerr option) go) option"
  w_bus :: "string event \<Rightarrow> ('w, goerr option) go"
  w_cb :: "(('w, goerr option) go \<Rightarrow> ('w, goerr option) go) option"
  pollInterval :: int
  pollTimeout :: int
  batchSize :: int
  maxRetries :: int
  retention :: int
  has_metrics :: bool

abbreviation maxBackoffShift :: int where "maxBackoffShift \<equiv> 4"
abbreviation cleanupEvery :: int where "cleanupEvery \<equiv> 100"
abbreviation defaultPollTimeout :: int where "defaultPollTimeout \<equiv> 30 * second"

definition NewWorker ::
  "'w store_ops \<Rightarrow> (string event \<Rightarrow> ('w, goerr option) go) \<Rightarrow> int \<Rightarrow> int \<Rightarrow> int \<Rightarrow> int \<Rightarrow> bool \<Rightarrow> 'w worker" where
  "NewWorker store bus interval batch retries ret m =
     \<lparr>w_store = store, w_dlqStore = None, w_bus = bus, w_cb = None, pollInterval = interval,
      pollTimeout = defaultPollTimeout, batchSize = batch, maxRetries = retries, retention = ret,
      has_metrics = m\<rparr>"

definition WithDLQ :: "(dlq_entry \<Rightarrow> ('w, goerr option) go) \<Rightarrow> 'w worker \<Rightarrow> 'w worker" where
  "WithDLQ ins wk = wk\<lparr>w_dlqStore := Some ins\<rparr>"

definition WithCircuitBreaker ::
  "(('w, goerr option) go \<Rightarrow> ('w, goerr option) go) \<Rightarrow> 'w worker \<Rightarrow> 'w worker" where
  "WithCircuitBreaker cb wk = wk\<lparr>w_cb := Some cb\<rparr>"

definition WithPollTimeout :: "int \<Rightarrow> 'w worker \<Rightarrow> 'w worker" where
  "WithPollTimeout d wk = (if d > 0 then wk\<lparr>pollTimeout := d\<rparr> else wk)"

section \<open>One poll cycle\<close>

definition envelopeEvent :: "outbox_entry \<Rightarrow> string event" where
  "envelopeEvent entry =
     \<lparr>ev_id = oe_ID entry, eventType = oe_EventType entry, aggID = oe_AggregateID entry,
      aggType = oe_AggregateType entry, occurred = oe_CreatedAt entry, schemaVersion = 1,
      payload = oe_Payload entry, meta = oe_Metadata entry\<rparr>"

definition publishEntry :: "'w worker \<Rightarrow> outbox_entry \<Rightarrow> ('w, goerr option) go" where
  "publishEntry wk entry =
     (case w_cb wk of
        Some cb \<Rightarrow> cb (w_bus wk (envelopeEvent entry))
      | None \<Rightarrow> w_bus wk (envelopeEvent entry))"

abbreviation dlq_headers :: "outbox_entry \<Rightarrow> (string \<rightharpoonup> string)" where
  "dlq_headers entry \<equiv>
     (let hs = [''aggregate_type'' \<mapsto> oe_AggregateType entry, ''aggregate_id'' \<mapsto> oe_AggregateID entry,
                ''event_type'' \<mapsto> oe_EventType entry]
      in case metadata_ToMap (oe_Metadata entry) of None \<Rightarrow> hs | Some m \<Rightarrow> hs ++ m)"

definition moveToDLQ ::
  "(dlq_entry \<Rightarrow> ('w, goerr option) go) \<Rightarrow> outbox_entry \<Rightarrow> ('w, goerr option) go" where
  "moveToDLQ ins entry =
     go_bind (ins \<lparr>dlq_ID = oe_ID entry, dlq_Subject = oe_EventType entry, dlq_Data = oe_Payload entry,
                   dlq_Headers = dlq_headers entry, dlq_Error = oe_LastError entry,
                   dlq_Attempts = oe_RetryCount entry, dlq_OriginalAt = oe_CreatedAt entry,
                   dlq_DeadAt = 0\<rparr>) (\<lambda>err.
       case err of
         Some e \<Rightarrow> go_return (Some (errorf_w (''outbox: DLQ insert for '' @ quote (oe_ID entry)) e))
       | None \<Rightarrow> go_return None)"

definition handleExhaustedEntry :: "'w worker \<Rightarrow> outbox_entry \<Rightarrow> ('w, goerr option) go" where
  "handleExhaustedEntry wk entry =
     (case w_dlqStore wk of
        None \<Rightarrow> go_return None
      | Some ins \<Rightarrow>
          go_bind (moveToDLQ ins entry) (\<lambda>err.
            case err of
              Some e \<Rightarrow> go_return (Some (errorf_w (''outbox: DLQ insert failed for '' @ quote (oe_ID entry)) e))
            | None \<Rightarrow> go_return None))"

abbreviation poll_entry :: "'w worker \<Rightarrow> outbox_entry \<Rightarrow> ('w, goerr option) go" where
  "poll_entry wk entry \<equiv>
     (if oe_RetryCount entry \<ge> maxRetries wk then handleExhaustedEntry wk entry
      else publishEntry wk entry)"

fun poll_entries ::
  "'w worker \<Rightarrow> outbox_entry list \<Rightarrow> string list \<Rightarrow> release_entry list \<Rightarrow>
   ('w, string list \<times> release_entry list) go" where
  "poll_entries wk [] publishedIDs failed = go_return (publishedIDs, failed)"
| "poll_entries wk (entry # rest) publishedIDs failed =
     go_bind (poll_entry wk entry) (\<lambda>err.
       case err of
         Some e \<Rightarrow>
           poll_entries wk rest publishedIDs
             (failed @ [\<lparr>rel_ID = oe_ID entry, rel_LastError = err_text e\<rparr>])
       | None \<Rightarrow> poll_entries wk rest (publishedIDs @ [oe_ID entry]) failed)"

definition poll :: "'w worker \<Rightarrow> string \<Rightarrow> int \<Rightarrow> ('w, goerr option) go" where
  "poll wk token now =
     go_bind (so_ClaimBatch (w_store wk) token now (batchSize wk)) (\<lambda>(entries, err).
       case err of
         Some e \<Rightarrow> go_return (Some (errorf_w ''outbox: claim batch'' e))
       | None \<Rightarrow>
           if entries = [] then go_return None
           else
             go_bind (poll_entries wk entries [] []) (\<lambda>(publishedIDs, failed).
               go_bind (if publishedIDs \<noteq> []
                        then so_MarkPublished (w_store wk) now publishedIDs (oe_LeaseToken (hd entries))
                        else go_return None) (\<lambda>_.
                 go_bind (if failed \<noteq> [] then so_ReleaseClaims (w_store wk) failed else go_return None) (\<lambda>_.
                   go_return None))))"

section \<open>Backoff, cleanup and the loop\<close>

definition adjustBackoff :: "('d, 'm) worker_world_scheme worker \<Rightarrow> (('d, 'm) worker_world_scheme, unit) go" where
  "adjustBackoff wk w =
     (let shift = (if consecutiveErr w > maxBackoffShift then maxBackoffShift else consecutiveErr w)
      in (Ret (), w\<lparr>ticker := pollInterval wk * 2 ^ nat shift\<rparr>))"

abbreviation after_poll ::
  "('d, 'm) worker_world_scheme worker \<Rightarrow> goerr option \<Rightarrow> (('d, 'm) worker_world_scheme, unit) go" where
  "after_poll wk err \<equiv>
     (case err of
        Some e \<Rightarrow> (\<lambda>w. adjustBackoff wk (w\<lparr>consecutiveErr := consecutiveErr w + 1\<rparr>))
      | None \<Rightarrow> (\<lambda>w. (Ret (),
          if consecutiveErr w > 0 then w\<lparr>consecutiveErr := 0, ticker := pollInterval wk\<rparr> else w)))"

abbreviation housekeeping ::
  "('d, 'm) worker_world_scheme worker \<Rightarrow> int \<Rightarrow> (('d, 'm) worker_world_scheme, unit) go" where
  "housekeeping wk now w \<equiv>
     (if cycle w mod cleanupEvery = 0
      then go_bind (so_Cleanup (w_store wk) now (retention wk)) (\<lambda>_.
             if has_metrics wk then go_bind (so_CountPending (w_store wk)) (\<lambda>_. go_return ())
             else go_return ()) w
      else (Ret (), w))"

definition doPoll ::
  "('d, 'm) worker_world_scheme worker \<Rightarrow> string \<Rightarrow> int \<Rightarrow> (('d, 'm) worker_world_scheme, unit) go" where
  "doPoll wk token now =
     go_bind (poll wk token now) (\<lambda>err.
       go_bind (after_poll wk err) (\<lambda>_.
         go_bind (\<lambda>w. (Ret (), w\<lparr>cycle := cycle w + 1\<rparr>)) (\<lambda>_. housekeeping wk now)))"

text \<open>
  The loop of \<^verbatim>\<open>Start\<close>, driven by the signals its \<^verbatim>\<open>select\<close> receives; a poll takes the time and the
  token of its claim with it. \<^verbatim>\<open>None\<close>: the signals so far did not stop the worker.
\<close>

datatype signal = Done goerr | Tick string int | Notify string int

fun worker_Start ::
  "('d, 'm) worker_world_scheme worker \<Rightarrow> signal list \<Rightarrow> (('d, 'm) worker_world_scheme, goerr option) go" where
  "worker_Start wk [] = go_return None"
| "worker_Start wk (Done e # sigs) = go_return (Some e)"
| "worker_Start wk (Tick token now # sigs) =
     go_bind (doPoll wk token now) (\<lambda>_. worker_Start wk sigs)"
| "worker_Start wk (Notify token now # sigs) =
     go_bind (doPoll wk token now) (\<lambda>_.
       go_bind (\<lambda>w. (Ret (), w\<lparr>ticker := pollInterval wk\<rparr>)) (\<lambda>_. worker_Start wk sigs))"

section \<open>No event is lost: the contract of the store\<close>

text \<open>
  \<open>pending w\<close> are the ids waiting in the outbox, \<open>settled w\<close> those delivered or dead-lettered. A step
  keeps events if nothing pending disappears without being settled and nothing settled is forgotten,
  as long as the invariant of the store holds, which the step keeps as well.
\<close>

definition keeps ::
  "('w \<Rightarrow> bool) \<Rightarrow> ('w \<Rightarrow> 'i set) \<Rightarrow> ('w \<Rightarrow> 'i set) \<Rightarrow> 'w \<Rightarrow> 'w \<Rightarrow> bool" where
  "keeps okay pending settled w w' \<longleftrightarrow>
     (okay w \<longrightarrow> okay w' \<and> settled w \<subseteq> settled w' \<and> pending w \<subseteq> pending w' \<union> settled w')"

text \<open>A delivery step for the id \<open>i\<close>: it keeps events, and settles \<open>i\<close> when it reports success.\<close>

definition settles ::
  "('w \<Rightarrow> bool) \<Rightarrow> ('w \<Rightarrow> 'i set) \<Rightarrow> ('w \<Rightarrow> 'i set) \<Rightarrow> 'i \<Rightarrow> ('w, goerr option) go \<Rightarrow> bool" where
  "settles okay pending settled i m \<longleftrightarrow>
     (\<forall>w x w'. m w = (x, w') \<longrightarrow>
        keeps okay pending settled w w' \<and> (okay w \<longrightarrow> x = Ret None \<longrightarrow> i \<in> settled w'))"

lemma keeps_refl [simp]: "keeps okay pending settled w w"
  by (simp add: keeps_def)

lemma keeps_trans:
  "keeps okay pending settled u v \<Longrightarrow> keeps okay pending settled v w \<Longrightarrow> keeps okay pending settled u w"
  by (auto simp: keeps_def)

lemma keeps_inv: "keeps okay pending settled u v \<Longrightarrow> okay u \<Longrightarrow> okay v"
  by (simp add: keeps_def)

lemma settles_wp:
  "settles okay pending settled i m \<Longrightarrow>
   wp m (\<lambda>x w'. keeps okay pending settled w w' \<and> (okay w \<longrightarrow> x = Ret None \<longrightarrow> i \<in> settled w')) w"
  by (auto simp: settles_def intro: wpI)

lemma wp_bind_keeps:
  assumes "wp m (\<lambda>x w'. keeps okay pending settled w w') w"
    and "\<And>v w'. keeps okay pending settled w w' \<Longrightarrow> wp (k v) (\<lambda>x w''. keeps okay pending settled w' w'') w'"
  shows "wp (go_bind m k) (\<lambda>x w'. keeps okay pending settled w w') w"
  by (rule wp_bind, rule wp_mono [OF assms(1)])
    (auto split: exec.splits intro: wp_mono [OF assms(2)] keeps_trans)

locale worker_store =
  fixes st :: "'w store_ops"
    and ins :: "dlq_entry \<Rightarrow> ('w, goerr option) go"
    and okay :: "'w \<Rightarrow> bool"
    and pending :: "'w \<Rightarrow> string set"
    and settled :: "'w \<Rightarrow> string set"
  assumes claim_keeps: "so_ClaimBatch st t n b w = (x, w') \<Longrightarrow> keeps okay pending settled w w'"
    and mark_keeps: "so_MarkPublished st n ids tok w = (y, w') \<Longrightarrow> set ids \<subseteq> settled w \<Longrightarrow>
                       keeps okay pending settled w w'"
    and release_keeps: "so_ReleaseClaims st rs w = (y, w') \<Longrightarrow> keeps okay pending settled w w'"
    and cleanup_keeps: "so_Cleanup st n ret w = (z, w') \<Longrightarrow> keeps okay pending settled w w'"
    and count_keeps: "so_CountPending st w = (z, w') \<Longrightarrow> keeps okay pending settled w w'"
    and dlq_settles: "settles okay pending settled (dlq_ID e) (ins e)"
begin

lemma handleExhausted_settles:
  assumes "w_dlqStore wk = Some ins"
  shows "settles okay pending settled (oe_ID e) (handleExhaustedEntry wk e)"
  unfolding settles_def
proof (intro allI impI)
  fix w x w' assume run: "handleExhaustedEntry wk e w = (x, w')"
  let ?d = "\<lparr>dlq_ID = oe_ID e, dlq_Subject = oe_EventType e, dlq_Data = oe_Payload e,
             dlq_Headers = dlq_headers e, dlq_Error = oe_LastError e,
             dlq_Attempts = oe_RetryCount e, dlq_OriginalAt = oe_CreatedAt e, dlq_DeadAt = 0\<rparr>"
  obtain y v where y: "ins ?d w = (y, v)" by fastforce
  have "w' = v" and "x = Ret None \<Longrightarrow> y = Ret None"
    using run y assms
    by (auto simp: handleExhaustedEntry_def moveToDLQ_def go_bind_def split: exec.splits option.splits)
  then show "keeps okay pending settled w w' \<and> (okay w \<longrightarrow> x = Ret None \<longrightarrow> oe_ID e \<in> settled w')"
    using dlq_settles [of ?d] y by (auto simp: settles_def)
qed

lemma poll_entry_settles:
  assumes "w_dlqStore wk = Some ins"
    and "\<And>evt. settles okay pending settled (ev_id evt) (w_bus wk evt)"
    and "\<And>cb i m. w_cb wk = Some cb \<Longrightarrow> settles okay pending settled i m \<Longrightarrow> settles okay pending settled i (cb m)"
  shows "settles okay pending settled (oe_ID e) (poll_entry wk e)"
proof -
  have "settles okay pending settled (oe_ID e) (w_bus wk (envelopeEvent e))"
    using assms(2) [of "envelopeEvent e"] by (simp add: envelopeEvent_def)
  then have "settles okay pending settled (oe_ID e) (publishEntry wk e)"
    using assms(3) by (auto simp: publishEntry_def split: option.splits)
  then show ?thesis using handleExhausted_settles [OF assms(1)] by simp
qed

lemma poll_entries_keeps:
  assumes settles: "\<And>e. settles okay pending settled (oe_ID e) (poll_entry wk e)"
  shows "okay w \<Longrightarrow> set pub \<subseteq> settled w \<Longrightarrow>
    wp (poll_entries wk es pub failed) (\<lambda>x w'. keeps okay pending settled w w'
       \<and> (\<forall>p f. x = Ret (p, f) \<longrightarrow> set p \<subseteq> settled w')) w"
proof (induction es arbitrary: pub failed w)
  case Nil
  then show ?case by (auto intro!: wp_return)
next
  case (Cons e es)
  let ?Q = "\<lambda>u x w'. keeps okay pending settled u w' \<and> (\<forall>p f. x = Ret (p, f) \<longrightarrow> set p \<subseteq> settled w')"
  have step: "wp (poll_entries wk es pub' failed') (?Q w) v"
    if "keeps okay pending settled w v" and "set pub' \<subseteq> settled v" for v pub' failed'
    using Cons.IH [OF keeps_inv [OF that(1) Cons.prems(1)] that(2), of failed'] that(1)
    by (elim wp_mono) (auto intro: keeps_trans)
  show ?case
    unfolding poll_entries.simps
  proof (rule wp_bind, rule wp_mono [OF settles_wp [OF settles]])
    fix r :: "goerr option exec" and v
    assume r: "keeps okay pending settled w v \<and> (okay w \<longrightarrow> r = Ret None \<longrightarrow> oe_ID e \<in> settled v)"
    then have pub: "set pub \<subseteq> settled v" using Cons.prems by (auto simp: keeps_def)
    show "case r of
        Ret err \<Rightarrow> wp (case err of
            None \<Rightarrow> poll_entries wk es (pub @ [oe_ID e]) failed
          | Some ea \<Rightarrow> poll_entries wk es pub (failed @ [\<lparr>rel_ID = oe_ID e, rel_LastError = err_text ea\<rparr>]))
          (?Q w) v
      | Panic p \<Rightarrow> ?Q w (Panic p) v"
    proof (cases r)
      case (Ret err)
      show ?thesis
        unfolding Ret exec.case
      proof (intro wp_case_option)
        show "wp (poll_entries wk es (pub @ [oe_ID e]) failed) (?Q w) v" if "err = None"
          using r Ret pub Cons.prems(1) that by (intro step) auto
        show "wp (poll_entries wk es pub (failed @ [\<lparr>rel_ID = oe_ID e, rel_LastError = err_text ea\<rparr>])) (?Q w) v" for ea
          using r pub by (intro step) auto
      qed
    qed (use r in simp)
  qed
qed

lemma poll_keeps:
  assumes "w_store wk = st"
    and settles: "\<And>e. settles okay pending settled (oe_ID e) (poll_entry wk e)"
  shows "wp (poll wk token now) (\<lambda>x w'. keeps okay pending settled w w') w"
  unfolding poll_def assms(1)
proof (rule wp_bind_keeps)
  show "wp (so_ClaimBatch st token now (batchSize wk)) (\<lambda>x w'. keeps okay pending settled w w') w"
    by (rule wpI) (rule claim_keeps)
  fix r v
  have rel: "wp (go_bind (if f \<noteq> [] then so_ReleaseClaims st f else go_return None) (\<lambda>_. go_return None))
      (\<lambda>x w''. keeps okay pending settled u w'') u" for f u
    by (rule wp_bind_keeps) (auto intro!: wp_intro wpI dest: release_keeps)
  have mark: "wp (go_bind (if p \<noteq> [] then so_MarkPublished st now p tok else go_return None) (\<lambda>_.
        go_bind (if f \<noteq> [] then so_ReleaseClaims st f else go_return None) (\<lambda>_. go_return None)))
      (\<lambda>x w''. keeps okay pending settled u w'') u" if "set p \<subseteq> settled u" for p f tok u
    using that by (intro wp_bind_keeps rel) (auto intro!: wp_return wpI dest: mark_keeps)
  show "wp (case r of (entries, err) \<Rightarrow> (case err of
        None \<Rightarrow>
           if entries = [] then go_return None
           else
             go_bind (poll_entries wk entries [] []) (\<lambda>(publishedIDs, failed).
               go_bind (if publishedIDs \<noteq> []
                        then so_MarkPublished st now publishedIDs (oe_LeaseToken (hd entries))
                        else go_return None) (\<lambda>_.
                 go_bind (if failed \<noteq> [] then so_ReleaseClaims st failed else go_return None) (\<lambda>_.
                   go_return None)))
      | Some e \<Rightarrow> go_return (Some (errorf_w ''outbox: claim batch'' e))))
      (\<lambda>x w'. keeps okay pending settled v w') v"
  proof (cases "okay v")
    case False
    then show ?thesis by (auto simp: keeps_def intro: wpI)
  next
    case True
    have batch: "wp (go_bind (poll_entries wk entries [] []) (\<lambda>(publishedIDs, failed).
               go_bind (if publishedIDs \<noteq> []
                        then so_MarkPublished st now publishedIDs (oe_LeaseToken (hd entries))
                        else go_return None) (\<lambda>_.
                 go_bind (if failed \<noteq> [] then so_ReleaseClaims st failed else go_return None) (\<lambda>_.
                   go_return None)))) (\<lambda>x w'. keeps okay pending settled v w') v" for entries
    proof (rule wp_bind, rule wp_mono [OF poll_entries_keeps [OF settles True]])
      fix x :: "(string list \<times> release_entry list) exec" and u
      assume x: "keeps okay pending settled v u \<and> (\<forall>p f. x = Ret (p, f) \<longrightarrow> set p \<subseteq> settled u)"
      show "case x of
          Ret pf \<Rightarrow> wp (case pf of (publishedIDs, failed) \<Rightarrow>
               go_bind (if publishedIDs \<noteq> []
                        then so_MarkPublished st now publishedIDs (oe_LeaseToken (hd entries))
                        else go_return None) (\<lambda>_.
                 go_bind (if failed \<noteq> [] then so_ReleaseClaims st failed else go_return None) (\<lambda>_.
                   go_return None))) (\<lambda>x w'. keeps okay pending settled v w') u
        | Panic p \<Rightarrow> keeps okay pending settled v u"
      proof (cases x)
        case (Ret pf)
        obtain p f where "pf = (p, f)" by fastforce
        with Ret x show ?thesis
          unfolding \<open>pf = (p, f)\<close> Ret exec.case prod.case
          by (intro wp_mono [OF mark]) (auto intro: keeps_trans)
      qed (use x in simp)
    qed simp
    show ?thesis
      by (intro wp_case_prod wp_case_option wp_if batch) (auto intro!: wp_return)
  qed
qed

end

text \<open>The loop around it, for states whose counters the contract does not look at.\<close>

locale worker_loop = worker_store st ins okay pending settled
  for st :: "('d, 'm) worker_world_scheme store_ops"
    and ins okay pending settled +
  assumes err_keeps: "keeps okay pending settled w (w\<lparr>consecutiveErr := i\<rparr>)"
    and ticker_keeps: "keeps okay pending settled w (w\<lparr>ticker := i\<rparr>)"
    and cycle_keeps: "keeps okay pending settled w (w\<lparr>cycle := i\<rparr>)"
begin

lemma after_poll_keeps: "wp (after_poll wk err) (\<lambda>x w'. keeps okay pending settled w w') w"
proof -
  have "keeps okay pending settled w (w\<lparr>consecutiveErr := i, ticker := j\<rparr>)" for i j
    by (rule keeps_trans [OF err_keeps ticker_keeps])
  then show ?thesis
    by (auto simp: wp_def adjustBackoff_def Let_def split: option.splits)
qed

lemma housekeeping_keeps:
  assumes "w_store wk = st"
  shows "wp (housekeeping wk now) (\<lambda>x w'. keeps okay pending settled w w') w"
proof -
  have "wp (go_bind (so_Cleanup st now (retention wk)) (\<lambda>_.
             if has_metrics wk then go_bind (so_CountPending st) (\<lambda>_. go_return ()) else go_return ()))
          (\<lambda>x w'. keeps okay pending settled w w') w"
    by (intro wp_bind_keeps wp_if) (auto intro: wpI dest: cleanup_keeps count_keeps)
  then show ?thesis
    unfolding assms wp_def by simp
qed

lemma doPoll_keeps:
  assumes "w_store wk = st" and "\<And>e. settles okay pending settled (oe_ID e) (poll_entry wk e)"
  shows "wp (doPoll wk token now) (\<lambda>x w'. keeps okay pending settled w w') w"
  unfolding doPoll_def
proof (intro wp_bind_keeps)
  show "wp (poll wk token now) (\<lambda>x w'. keeps okay pending settled w w') w"
    by (rule poll_keeps [OF assms])
  show "wp (after_poll wk v) (\<lambda>x w''. keeps okay pending settled w' w'') w'" for v w'
    by (rule after_poll_keeps)
  show "wp (\<lambda>w. (Ret (), w\<lparr>cycle := cycle w + 1\<rparr>)) (\<lambda>x w''. keeps okay pending settled w' w'') w'" for w'
    by (simp add: wp_def cycle_keeps)
  show "wp (housekeeping wk now) (\<lambda>x w''. keeps okay pending settled w' w'') w'" for w'
    by (rule housekeeping_keeps [OF assms(1)])
qed

lemma worker_Start_keeps:
  assumes "w_store wk = st" and "\<And>e. settles okay pending settled (oe_ID e) (poll_entry wk e)"
  shows "wp (worker_Start wk sigs) (\<lambda>x w'. keeps okay pending settled w w') w"
proof (induction sigs arbitrary: w)
  case (Cons sig sigs)
  have reset: "wp (\<lambda>w. (Ret (), w\<lparr>ticker := pollInterval wk\<rparr>)) (\<lambda>x w''. keeps okay pending settled w' w'') w'" for w'
    by (simp add: wp_def ticker_keeps)
  show ?case
    by (cases sig) (auto intro!: wp_return wp_bind_keeps doPoll_keeps [OF assms] reset Cons.IH)
qed (simp add: wp_def)

end

section \<open>The PostgreSQL store keeps events\<close>

definition pending_ids :: "'x database_scheme \<Rightarrow> string set" where
  "pending_ids d = set (map row_id (filter (\<lambda>r. row_published_at r = None) (outbox_events d)))"

definition dead_ids :: "'x database_scheme \<Rightarrow> string set" where
  "dead_ids d = dlq_ID ` set (dead_letter_queue d)"

definition pg_store :: "('x database_scheme, 'm) world_scheme store_ops" where
  "pg_store =
     \<lparr>so_ClaimBatch = ClaimBatch, so_MarkPublished = MarkPublished, so_ReleaseClaims = ReleaseClaims,
      so_Cleanup = Cleanup, so_CountPending = CountPending\<rparr>"

definition st_keeps :: "string set \<Rightarrow> ('x database_scheme, 'a) statement \<Rightarrow> bool" where
  "st_keeps ids stm \<longleftrightarrow>
     (\<forall>d. outbox_key d \<longrightarrow> outbox_key (snd (stm d)) \<and> dead_ids d \<subseteq> dead_ids (snd (stm d))
          \<and> pending_ids d - ids \<subseteq> pending_ids (snd (stm d)))"

lemma st_keepsD:
  assumes "st_keeps ids stm" and "outbox_key d"
  shows "outbox_key (snd (stm d))" "dead_ids d \<subseteq> dead_ids (snd (stm d))"
    "pending_ids d - ids \<subseteq> pending_ids (snd (stm d))"
  using assms by (auto simp only: st_keeps_def)

lemma update_rows_keeps:
  assumes "\<And>r. row_id (f r) = row_id r" and "\<And>r. p r \<Longrightarrow> row_id r \<notin> ids \<Longrightarrow> row_published_at (f r) = row_published_at r"
  shows "st_keeps ids (update_rows p f)"
  unfolding st_keeps_def
proof (intro allI impI conjI)
  fix d :: "'a database_scheme" assume "outbox_key d"
  then show "outbox_key (snd (update_rows p f d))" using assms(1) by (simp add: outbox_key_def)
  show "dead_ids d \<subseteq> dead_ids (snd (update_rows p f d))" by (simp add: dead_ids_def update_rows_def)
  show "pending_ids d - ids \<subseteq> pending_ids (snd (update_rows p f d))"
  proof
    fix i assume "i \<in> pending_ids d - ids"
    then obtain r where r: "r \<in> set (outbox_events d)" "row_published_at r = None" "i = row_id r" "i \<notin> ids"
      by (auto simp: pending_ids_def)
    then show "i \<in> pending_ids (snd (update_rows p f d))"
      unfolding pending_ids_def set_map set_filter update_rows_set
      by (intro image_eqI [of _ _ "if p r then f r else r"]) (auto simp: assms)
  qed
qed

lemma statements_keep:
  "st_keeps {} (claim_statement now ids token)"
  "st_keeps {} (release_statement rs)"
  "st_keeps {} (update_rows (\<lambda>r. row_id r = i) (release_row msg))"
  "st_keeps (set ids) (mark_statement now ids token)"
  unfolding claim_statement_def
  by (rule update_rows_keeps; simp)+

lemma dlq_insert_keeps: "st_keeps {} (dlq_insert_statement now e)"
  by (auto simp: st_keeps_def outbox_key_def dead_ids_def pending_ids_def)

lemma dlq_insert_dead: "dlq_ID e \<in> dead_ids (snd (dlq_insert_statement now e d))"
  by (simp add: dead_ids_def)

lemma cleanup_statement_keeps: "st_keeps {} (cleanup_statement cutoff)"
  unfolding st_keeps_def
proof (intro allI impI conjI)
  fix d :: "'a database_scheme" assume key: "outbox_key d"
  then show "outbox_key (snd (cleanup_statement cutoff d))" by (rule outbox_key_cleanup)
  show "dead_ids d \<subseteq> dead_ids (snd (cleanup_statement cutoff d))"
    by (simp add: dead_ids_def Let_def)
  have "row_id r \<notin> set (cleanup_ids cutoff d)"
    if "r \<in> set (outbox_events d)" "row_published_at r = None" for r
  proof
    assume "row_id r \<in> set (cleanup_ids cutoff d)"
    then obtain r' where "r' \<in> set (outbox_events d)" "row_published_at r' \<noteq> None" "row_id r' = row_id r"
      by (auto simp: cleanup_ids_def dest!: in_set_takeD split: option.splits)
    with key that show False by (auto simp: outbox_key_def distinct_map inj_on_def)
  qed
  then show "pending_ids d - {} \<subseteq> pending_ids (snd (cleanup_statement cutoff d))"
    by (auto simp: pending_ids_def Let_def)
qed

lemma st_keeps_db_Exec:
  assumes "st_keeps ids stm" and "db_Exec stm q = (r, q')" and "outbox_key (committed q)"
  shows "outbox_key (committed q')" and "dead_ids (committed q) \<subseteq> dead_ids (committed q')"
    and "pending_ids (committed q) - ids \<subseteq> pending_ids (committed q')"
proof -
  have "committed q' = committed q \<or> committed q' = snd (stm (committed q))"
    using db_Exec_cases [OF assms(2)] by (cases r) auto
  then show "outbox_key (committed q')" and "dead_ids (committed q) \<subseteq> dead_ids (committed q')"
    and "pending_ids (committed q) - ids \<subseteq> pending_ids (committed q')"
    using st_keepsD [OF assms(1,3)] assms(3) by auto
qed

text \<open>What counts as settled in the world of the worker: the dead letters, and what the rest of the
  program (the broker among it) remembers as delivered.\<close>

definition pg_okay :: "('x database_scheme, 'm) worker_world_scheme \<Rightarrow> bool" where
  "pg_okay w \<longleftrightarrow> outbox_key (committed (db w))"

definition pg_pending :: "('x database_scheme, 'm) worker_world_scheme \<Rightarrow> string set" where
  "pg_pending w = pending_ids (committed (db w))"

definition pg_settled ::
  "('m \<Rightarrow> string set) \<Rightarrow> ('x database_scheme, 'm) worker_world_scheme \<Rightarrow> string set" where
  "pg_settled delivered w = dead_ids (committed (db w)) \<union> delivered (worker_world.more w)"

lemmas pg_defs = pg_okay_def pg_pending_def pg_settled_def

lemma pg_Exec_keeps:
  assumes "st_keeps ids stm" and "db_Exec stm (db w) = (r, q)" and "ids \<subseteq> pg_settled delivered w"
  shows "keeps pg_okay pg_pending (pg_settled delivered) w (w\<lparr>db := q\<rparr>)"
  using st_keeps_db_Exec [OF assms(1,2)] assms(3) by (auto simp: keeps_def pg_defs)

lemma pg_driver_keeps:
  "driver_call (db w) = (r, q) \<Longrightarrow> keeps pg_okay pg_pending (pg_settled delivered) w (w\<lparr>db := q\<rparr>)"
  by (auto simp: keeps_def pg_defs dest!: driver_call_split)

lemma pg_statement_keeps:
  assumes "st_keeps ids stm" and "ids \<subseteq> pg_settled delivered w"
    and "\<And>r. \<exists>v. k r = go_return v"
  shows "wp (go_bind (on_db (db_Exec stm)) k) (\<lambda>x w'. keeps pg_okay pg_pending (pg_settled delivered) w w') w"
proof (intro wp_intro)
  fix r q assume q: "db_Exec stm (db w) = (r, q)"
  obtain v where "k r = go_return v" using assms(3) by blast
  then show "wp (k r) (\<lambda>x w'. keeps pg_okay pg_pending (pg_settled delivered) w w') (w\<lparr>db := q\<rparr>)"
    using pg_Exec_keeps [OF assms(1) q assms(2)] by (simp add: wp_def)
qed

lemma world_more_worker:
  fixes w w' :: "('d, 'm) worker_world_scheme"
  shows "world.more w = world.more w' \<Longrightarrow> worker_world.more w = worker_world.more w'"
  by (cases w; cases w') simp

lemma pg_claim_keeps:
  assumes "ClaimBatch t n b w = (x, w')"
  shows "keeps pg_okay pg_pending (pg_settled delivered) w w'"
proof -
  have more: "worker_world.more w' = worker_world.more w"
    using ClaimBatch_more [of t n b w] assms by (intro world_more_worker) simp
  have "committed (db w') = committed (db w) \<or> (\<exists>ids. committed (db w') = snd (claim_statement n ids t (committed (db w))))"
    using ClaimBatch_post [OF assms] by blast
  then obtain ids where "committed (db w') = snd (claim_statement n ids t (committed (db w)))"
    using claim_statement_Nil by (metis snd_conv)
  then show ?thesis
    using st_keepsD [OF statements_keep(1) [of n ids t], of "committed (db w)"] more
    by (auto simp: keeps_def pg_defs)
qed

lemma pg_Cleanup_keeps:
  "wp (Cleanup now ret) (\<lambda>x w'. keeps pg_okay pg_pending (pg_settled delivered) w w') w"
  unfolding Cleanup_def
proof (intro wp_intro)
  fix r q f q' assume q: "db_Exec (cleanup_statement (now - ret)) (db w) = (r, q)"
  have k: "keeps pg_okay pg_pending (pg_settled delivered) w (w\<lparr>db := q\<rparr>)"
    by (rule pg_Exec_keeps [OF cleanup_statement_keeps q]) simp
  then show "keeps pg_okay pg_pending (pg_settled delivered) w (w\<lparr>db := q\<rparr>)" .
  assume "driver_call (db (w\<lparr>db := q\<rparr>)) = (f, q')"
  from keeps_trans [OF k pg_driver_keeps [OF this]]
  show "keeps pg_okay pg_pending (pg_settled delivered) w (w\<lparr>db := q, db := q'\<rparr>)"
    "keeps pg_okay pg_pending (pg_settled delivered) w (w\<lparr>db := q, db := q'\<rparr>)" by simp_all
qed

lemma pg_dlq_settles:
  fixes delivered :: "'m \<Rightarrow> string set"
  shows "settles pg_okay pg_pending (pg_settled delivered) (dlq_ID e)
     (DLQ_Insert now e :: (('x database_scheme, 'm) worker_world_scheme, goerr option) go)"
  unfolding settles_def
proof (intro allI impI)
  fix w w' :: "('x database_scheme, 'm) worker_world_scheme" and x
  assume run: "DLQ_Insert now e w = (x, w')"
  have "wp (DLQ_Insert now e) (\<lambda>x w'. keeps pg_okay pg_pending (pg_settled delivered) w w'
          \<and> (x = Ret None \<longrightarrow> dlq_ID e \<in> pg_settled delivered w')) w"
    unfolding DLQ_Insert_def
  proof (intro wp_intro conjI)
    fix r q assume q: "db_Exec (dlq_insert_statement now e) (db w) = (r, q)"
    show "keeps pg_okay pg_pending (pg_settled delivered) w (w\<lparr>db := q\<rparr>)"
      "keeps pg_okay pg_pending (pg_settled delivered) w (w\<lparr>db := q\<rparr>)"
      by (rule pg_Exec_keeps [OF dlq_insert_keeps q]; simp)+
    show "Ret None = Ret None \<longrightarrow> dlq_ID e \<in> pg_settled delivered (w\<lparr>db := q\<rparr>)" if "r = Inl u" for u
      using db_Exec_cases(2) [OF q that] by (simp add: pg_settled_def dlq_insert_dead)
  qed simp
  from wpD [OF this run]
  show "keeps pg_okay pg_pending (pg_settled delivered) w w'
      \<and> (pg_okay w \<longrightarrow> x = Ret None \<longrightarrow> dlq_ID e \<in> pg_settled delivered w')" by simp
qed

lemma pg_MarkPublished_keeps:
  assumes "set ids \<subseteq> pg_settled delivered w"
  shows "wp (MarkPublished n ids tok) (\<lambda>x w'. keeps pg_okay pg_pending (pg_settled delivered) w w') w"
  unfolding MarkPublished_def
  by (intro wp_if pg_statement_keeps [OF statements_keep(4) assms])
    (auto simp: wp_def split: sum.splits)

lemma pg_ReleaseClaims_keeps:
  "wp (ReleaseClaims rs) (\<lambda>x w'. keeps pg_okay pg_pending (pg_settled delivered) w w') w"
  unfolding ReleaseClaims_def ReleaseClaim_def
  by (intro wp_case_list pg_statement_keeps [OF statements_keep(2)] pg_statement_keeps [OF statements_keep(3)])
    (auto simp: wp_def split: sum.splits)

lemma pg_CountPending_keeps:
  "wp CountPending (\<lambda>x w'. keeps pg_okay pg_pending (pg_settled delivered) w w') w"
  unfolding CountPending_def
  by (rule pg_statement_keeps [where ids = "{}"]) (auto simp: st_keeps_def split: sum.splits)

interpretation pg_worker: worker_loop pg_store "DLQ_Insert dnow" pg_okay pg_pending "pg_settled delivered"
  for dnow delivered
proof unfold_locales
qed (simp_all add: pg_store_def pg_claim_keeps wpD [OF pg_MarkPublished_keeps] wpD [OF pg_ReleaseClaims_keeps]
      wpD [OF pg_Cleanup_keeps] wpD [OF pg_CountPending_keeps] pg_dlq_settles,
    simp_all add: keeps_def pg_defs)

section \<open>Properties of the worker\<close>

text \<open>C2: no event is lost by the relay: whatever signals the worker receives and whichever database
  calls fail, every id waiting in the outbox is afterwards still waiting, in the dead letter queue, or
  delivered. The bus may do anything that respects the same rule and delivers what it reports as
  delivered, the breaker anything that does not invent a success.\<close>

theorem worker_loses_no_event:
  fixes delivered :: "'m \<Rightarrow> string set"
    and w :: "('x database_scheme, 'm) worker_world_scheme"
  assumes "w_store wk = pg_store" and "w_dlqStore wk = Some (DLQ_Insert dnow)"
    and bus: "\<And>evt. settles pg_okay pg_pending (pg_settled delivered) (ev_id evt) (w_bus wk evt)"
    and breaker: "\<And>cb i m. w_cb wk = Some cb \<Longrightarrow>
        settles pg_okay pg_pending (pg_settled delivered) i m \<Longrightarrow>
        settles pg_okay pg_pending (pg_settled delivered) i (cb m)"
    and "outbox_key (committed (db w))" and "worker_Start wk sigs w = (x, w')"
  shows "pending_ids (committed (db w)) \<union> dead_ids (committed (db w)) \<union> delivered (worker_world.more w)
       \<subseteq> pending_ids (committed (db w')) \<union> dead_ids (committed (db w')) \<union> delivered (worker_world.more w')"
proof -
  have "settles pg_okay pg_pending (pg_settled delivered) (oe_ID e) (poll_entry wk e)" for e
    by (rule pg_worker.poll_entry_settles [OF assms(2)]) (use bus breaker in auto)
  then have "keeps pg_okay pg_pending (pg_settled delivered) w w'"
    by (rule wpD [OF pg_worker.worker_Start_keeps [OF assms(1)] assms(6)])
  with assms(5) show ?thesis by (auto simp: keeps_def pg_defs)
qed

text \<open>A broker that remembers the ids it accepted.\<close>

type_synonym broker_world = "(database, string set) worker_world_scheme"

definition sample_bus :: "string event \<Rightarrow> (broker_world, goerr option) go" where
  "sample_bus evt w = (Ret None, worker_world.more_update (insert (ev_id evt)) w)"

definition sample_worker :: "broker_world worker" where
  "sample_worker = WithDLQ (DLQ_Insert 50) (NewWorker pg_store sample_bus second 10 3 (60 * second) False)"

definition sample_broker_world :: broker_world where
  "sample_broker_world =
     \<lparr>db = db two_rows, consecutiveErr = 0, ticker = second, cycle = 0, \<dots> = {}\<rparr>"

lemma sample_bus_settles:
  "settles pg_okay pg_pending (pg_settled (\<lambda>m. m)) (ev_id evt) (sample_bus evt)"
  by (auto simp: settles_def sample_bus_def keeps_def pg_defs)

theorem worker_loses_no_event_witness:
  "\<exists>x w'. worker_Start sample_worker [Tick ''t1'' 100, Notify ''t2'' 200] sample_broker_world = (x, w')
     \<and> {''a'', ''b''} \<subseteq> pending_ids (committed (db w')) \<union> dead_ids (committed (db w')) \<union> worker_world.more w'"
proof -
  obtain x w' where run: "worker_Start sample_worker [Tick ''t1'' 100, Notify ''t2'' 200] sample_broker_world = (x, w')"
    by fastforce
  have p: "pending_ids (committed (db sample_broker_world)) = {''a'', ''b''}"
    by (simp add: pending_ids_def sample_broker_world_def two_rows_def sample_world_def sample_row_def)
  have key: "outbox_key (committed (db sample_broker_world))"
    using two_rows_key by (simp add: sample_broker_world_def)
  have "pending_ids (committed (db sample_broker_world)) \<union> dead_ids (committed (db sample_broker_world))
        \<union> worker_world.more sample_broker_world
      \<subseteq> pending_ids (committed (db w')) \<union> dead_ids (committed (db w')) \<union> worker_world.more w'"
    by (rule worker_loses_no_event [where dnow = 50 and delivered = "\<lambda>m. m", OF _ _ _ _ key run])
      (auto simp: sample_worker_def WithDLQ_def NewWorker_def sample_bus_settles)
  with run p show ?thesis by auto
qed

text \<open>a poll accounts for every entry it claimed: when the batch has been worked through, the ids
  to be marked published and the ids to be released are together the claimed ids, each as often as it
  was claimed.\<close>

theorem poll_accounts_for_batch:
  assumes "poll_entries wk entries publishedIDs failed w = (Ret (publishedIDs', failed'), w')"
  shows "mset publishedIDs' + mset (map rel_ID failed')
       = mset publishedIDs + mset (map rel_ID failed) + mset (map oe_ID entries)"
  using assms
proof (induction entries arbitrary: publishedIDs failed w)
  case (Cons e es)
  from Cons.prems obtain err v where v: "poll_entry wk e w = (Ret err, v)"
    by (auto simp: go_bind_def split: prod.splits exec.splits)
  show ?case
  proof (cases err)
    case None
    with Cons.prems v have "poll_entries wk es (publishedIDs @ [oe_ID e]) failed v = (Ret (publishedIDs', failed'), w')"
      by (simp add: go_bind_def)
    from Cons.IH [OF this] show ?thesis by simp
  next
    case (Some er)
    with Cons.prems v have "poll_entries wk es publishedIDs
        (failed @ [\<lparr>rel_ID = oe_ID e, rel_LastError = err_text er\<rparr>]) v = (Ret (publishedIDs', failed'), w')"
      by (simp add: go_bind_def)
    from Cons.IH [OF this] show ?thesis by simp
  qed
qed simp

definition sample_entry :: "string \<Rightarrow> int \<Rightarrow> outbox_entry" where
  "sample_entry i retries =
     \<lparr>oe_ID = i, oe_AggregateType = [], oe_AggregateID = [], oe_EventType = ''t'', oe_Payload = [],
      oe_TraceID = [], oe_Metadata = metadata_zero, oe_CreatedAt = 1, oe_ClaimedAt = None,
      oe_LeaseToken = [], oe_PublishedAt = None, oe_RetryCount = retries, oe_LastError = []\<rparr>"

definition down_worker :: "broker_world worker" where
  "down_worker = NewWorker pg_store (\<lambda>evt. go_return (Some (ErrorsNew ''down''))) second 10 3 second False"

theorem poll_accounts_for_batch_witness:
  "\<exists>p f w'. poll_entries down_worker [sample_entry ''a'' 0, sample_entry ''b'' 5] [] [] sample_broker_world
       = (Ret (p, f), w')
     \<and> mset p + mset (map rel_ID f) = {#''a'', ''b''#}"
proof -
  obtain p f w' where run: "poll_entries down_worker [sample_entry ''a'' 0, sample_entry ''b'' 5] [] []
      sample_broker_world = (Ret (p, f), w')"
    by (simp add: go_bind_def publishEntry_def handleExhaustedEntry_def down_worker_def
        NewWorker_def sample_entry_def)
  have "mset p + mset (map rel_ID f) = {#''a'', ''b''#}"
    using poll_accounts_for_batch [OF run] by (simp add: sample_entry_def)
  with run show ?thesis by blast
qed

end
