(* ===== verification/Wolf_Inbox.thy ===== *)
theory Wolf_Inbox
  imports Outbox_Store
begin

text \<open>
  Idempotent consumption (\<^verbatim>\<open>src/infra/events/inbox\<close>): the dedup table, the handler-first middleware for
  broker messages and the insert-first processor for in-process events; and the producer side of the
  messaging layer that needs no clock: \<^verbatim>\<open>OutboxMiddleware\<close>, the in-process stream and the command
  stream (\<^verbatim>\<open>src/messaging\<close>, \<^verbatim>\<open>src/infra/events/inprocess/stream.go\<close>).
\<close>

section \<open>Messages\<close>

record raw_message =
  rm_ID :: string
  rm_Name :: string
  rm_Subject :: string
  rm_Data :: string
  rm_Headers :: "string \<rightharpoonup> string"

record message =
  msg_ID :: string
  msg_Subject :: string
  msg_Data :: string
  msg_Headers :: "string \<rightharpoonup> string"

type_synonym 'w message_handler = "message \<Rightarrow> ('w, goerr option) go"

section \<open>The inbox store\<close>

abbreviation is_processed_statement :: "string \<Rightarrow> ('x database_scheme, bool) statement" where
  "is_processed_statement mid d \<equiv> (Inl (mid \<in> in_id ` set (inbox_events d)), d)"

definition IsProcessed ::
  "string \<Rightarrow> (('x database_scheme, 'm) world_scheme, bool \<times> goerr option) go" where
  "IsProcessed mid =
     go_bind (on_db (db_Exec (is_processed_statement mid))) (\<lambda>r.
       case r of
         Inr err \<Rightarrow> go_return (False, Some (errorf_w (''inbox store: is processed '' @ quote mid) err))
       | Inl exists \<Rightarrow> go_return (exists, None))"

text \<open>\<^verbatim>\<open>INSERT ... ON CONFLICT (id) DO NOTHING\<close>, answering the number of rows inserted.\<close>

abbreviation inbox_insert_statement :: "int \<Rightarrow> string \<Rightarrow> string \<Rightarrow> ('x database_scheme, int) statement" where
  "inbox_insert_statement now mid et d \<equiv>
     (if mid \<in> in_id ` set (inbox_events d) then (Inl 0, d)
      else (Inl 1, d\<lparr>inbox_events := inbox_events d
                       @ [\<lparr>in_id = mid, in_event_type = et, in_processed_at = now\<rparr>]\<rparr>))"

definition MarkProcessed ::
  "int \<Rightarrow> string \<Rightarrow> string \<Rightarrow> (('x database_scheme, 'm) world_scheme, bool \<times> goerr option) go" where
  "MarkProcessed now mid et =
     go_bind (on_db (db_Exec (inbox_insert_statement now mid et))) (\<lambda>r.
       case r of
         Inr err \<Rightarrow> go_return (False, Some (errorf_w (''inbox store: mark processed '' @ quote mid) err))
       | Inl rows \<Rightarrow>
           go_bind (on_db driver_call) (\<lambda>aerr.
             case aerr of
               Some err \<Rightarrow> go_return (False, Some (errorf_w (''inbox store: rows affected '' @ quote mid) err))
             | None \<Rightarrow> go_return (rows > 0, None)))"

abbreviation inbox_cleanup_statement :: "int \<Rightarrow> ('x database_scheme, int) statement" where
  "inbox_cleanup_statement cutoff d \<equiv>
     (let kept = filter (\<lambda>r. \<not> in_processed_at r < cutoff) (inbox_events d)
      in (Inl (int (length (inbox_events d)) - int (length kept)), d\<lparr>inbox_events := kept\<rparr>))"

definition Inbox_Cleanup ::
  "int \<Rightarrow> int \<Rightarrow> (('x database_scheme, 'm) world_scheme, int \<times> goerr option) go" where
  "Inbox_Cleanup now retain =
     go_bind (on_db (db_Exec (inbox_cleanup_statement (now - retain)))) (\<lambda>r.
       case r of
         Inr err \<Rightarrow> go_return (0, Some (errorf_w ''inbox store: cleanup'' err))
       | Inl n \<Rightarrow>
           go_bind (on_db driver_call) (\<lambda>aerr.
             case aerr of
               Some err \<Rightarrow> go_return (0, Some err)
             | None \<Rightarrow> go_return (n, None)))"

section \<open>The middleware\<close>

record 'w deduplicator =
  dd_IsProcessed :: "string \<Rightarrow> ('w, bool \<times> goerr option) go"
  dd_MarkProcessed :: "string \<Rightarrow> string \<Rightarrow> ('w, bool \<times> goerr option) go"

abbreviation event_type_of :: "message \<Rightarrow> string" where
  "event_type_of msg \<equiv>
     (let et = get_str (msg_Headers msg) ''event_type'' in if et = [] then msg_Subject msg else et)"

definition Inbox_Wrap :: "'w deduplicator \<Rightarrow> 'w message_handler \<Rightarrow> 'w message_handler" where
  "Inbox_Wrap store next msg =
     go_bind (dd_IsProcessed store (msg_ID msg)) (\<lambda>(alreadyProcessed, err).
       case err of
         Some e \<Rightarrow> go_return (Some (errorf_w (''inbox middleware: dedup check for '' @ quote (msg_ID msg)) e))
       | None \<Rightarrow>
           if alreadyProcessed then go_return None
           else
             go_bind (next msg) (\<lambda>herr.
               case herr of
                 Some e \<Rightarrow> go_return (Some e)
               | None \<Rightarrow>
                   go_bind (dd_MarkProcessed store (msg_ID msg) (event_type_of msg)) (\<lambda>_. go_return None)))"

section \<open>The processor\<close>

definition Process ::
  "int \<Rightarrow> 'p event \<Rightarrow> ('p event \<Rightarrow> (('x database_scheme, 'm) world_scheme, goerr option) go) \<Rightarrow>
   (('x database_scheme, 'm) world_scheme, goerr option) go" where
  "Process now evt handler =
     go_bind (on_db (db_Exec (inbox_insert_statement now (ev_id evt) (eventType evt)))) (\<lambda>r.
       case r of
         Inr err \<Rightarrow> go_return (Some (errorf_w (''inbox: record event '' @ quote (ev_id evt)) err))
       | Inl rows \<Rightarrow>
           go_bind (on_db driver_call) (\<lambda>aerr.
             case aerr of
               Some err \<Rightarrow> go_return (Some (errorf_w (''inbox: rows affected '' @ quote (ev_id evt)) err))
             | None \<Rightarrow>
                 if rows = 0 then go_return None
                 else
                   go_bind (handler evt) (\<lambda>herr.
                     case herr of
                       Some e \<Rightarrow> go_return (Some (errorf_w (''inbox: handler error for event '' @ quote (ev_id evt)) e))
                     | None \<Rightarrow> go_return None)))"

section \<open>Publishing through the outbox, in-process streams\<close>

definition OutboxMiddleware_Publish ::
  "(outbox_entry \<Rightarrow> ('w, goerr option) go) \<Rightarrow> string \<Rightarrow> raw_message \<Rightarrow> ('w, goerr option) go" where
  "OutboxMiddleware_Publish insertEntry subject msg =
     (if rm_ID msg = [] then go_return (Some (errorf ''outbox middleware: message ID must not be empty''))
      else
        (let et = get_str (rm_Headers msg) ''event_type'';
             et = (if et = [] then rm_Name msg else et);
             et = (if et = [] then subject else et)
         in go_bind (insertEntry
              \<lparr>oe_ID = rm_ID msg, oe_AggregateType = get_str (rm_Headers msg) ''aggregate_type'',
               oe_AggregateID = get_str (rm_Headers msg) ''aggregate_id'', oe_EventType = et,
               oe_Payload = rm_Data msg, oe_TraceID = get_str (rm_Headers msg) ''trace_id'',
               oe_Metadata = metadata_zero, oe_CreatedAt = 0, oe_ClaimedAt = None, oe_LeaseToken = [],
               oe_PublishedAt = None, oe_RetryCount = 0, oe_LastError = []\<rparr>) (\<lambda>err.
              case err of
                Some e \<Rightarrow> go_return (Some (errorf_w (''outbox middleware: publish '' @ quote (rm_ID msg)) e))
              | None \<Rightarrow> go_return None)))"

type_synonym 'w in_process_stream = "string \<rightharpoonup> 'w message_handler list"

definition Stream_Subscribe :: "string \<Rightarrow> 'w message_handler \<Rightarrow> 'w in_process_stream \<Rightarrow> 'w in_process_stream" where
  "Stream_Subscribe subject h s = s(subject \<mapsto> handlers_of s subject @ [h])"

text \<open>Handler errors are logged and the loop goes on.\<close>

fun run_all :: "'w message_handler list \<Rightarrow> message \<Rightarrow> ('w, goerr option) go" where
  "run_all [] m = go_return None"
| "run_all (h # hs) m = go_bind (h m) (\<lambda>_. run_all hs m)"

definition Stream_Publish :: "'w in_process_stream \<Rightarrow> string \<Rightarrow> raw_message \<Rightarrow> ('w, goerr option) go" where
  "Stream_Publish s subject msg =
     run_all (handlers_of s subject)
       \<lparr>msg_ID = rm_ID msg, msg_Subject = subject, msg_Data = rm_Data msg, msg_Headers = rm_Headers msg\<rparr>"

text \<open>\<open>cmd_type\<close> and \<open>marshal\<close> are the application's \<^verbatim>\<open>CommandType\<close> and the JSON of the command.\<close>

definition CommandStream_Send ::
  "(string \<Rightarrow> raw_message \<Rightarrow> ('w, goerr option) go) \<Rightarrow> ('c \<Rightarrow> string) \<Rightarrow> ('c \<Rightarrow> string + goerr) \<Rightarrow>
   string \<Rightarrow> 'c \<Rightarrow> ('w, goerr option) go" where
  "CommandStream_Send publish cmd_type marshal subject cmd =
     (case marshal cmd of
        Inr err \<Rightarrow> go_return (Some (errorf_w (''command_stream: marshal '' @ quote (cmd_type cmd)) err))
      | Inl data \<Rightarrow>
          go_bind (publish subject
            \<lparr>rm_ID = [], rm_Name = cmd_type cmd, rm_Subject = subject, rm_Data = data,
             rm_Headers = [''command_type'' \<mapsto> cmd_type cmd]\<rparr>) (\<lambda>err.
            case err of
              Some e \<Rightarrow> go_return (Some (errorf_w (''command_stream: publish '' @ quote (cmd_type cmd)) e))
            | None \<Rightarrow> go_return None))"

text \<open>The message handler a command subscription installs; \<open>ack\<close> and \<open>nak\<close> are the message's.\<close>

definition CommandStream_handler ::
  "(message \<Rightarrow> ('w, goerr option) go) \<Rightarrow> (message \<Rightarrow> ('w, goerr option) go) \<Rightarrow>
   (string \<Rightarrow> ('w, 'r option \<times> goerr option) go) \<Rightarrow> string \<Rightarrow> 'w message_handler" where
  "CommandStream_handler ack nak handler subject msg =
     go_bind (handler (msg_Data msg)) (\<lambda>(reply, err).
       case err of
         Some e \<Rightarrow> go_bind (nak msg) (\<lambda>_.
           go_return (Some (errorf_w (''command_stream: handler error on '' @ quote subject) e)))
       | None \<Rightarrow> ack msg)"

section \<open>The contract of a deduplicator\<close>

text \<open>A sequence of deliveries: the broker redelivers as it likes and ignores the outcome.\<close>

fun deliver :: "'w message_handler \<Rightarrow> message list \<Rightarrow> 'w \<Rightarrow> 'w" where
  "deliver h [] w = w"
| "deliver h (m # ms) w = deliver h ms (snd (h m w))"

text \<open>A handler whose effect is visible: it appends the id to a log exactly when it succeeds, and
  leaves the dedup records alone.\<close>

definition effect_logged ::
  "('w \<Rightarrow> bool) \<Rightarrow> ('w \<Rightarrow> string set) \<Rightarrow> ('w \<Rightarrow> 'r) \<Rightarrow> ('r \<Rightarrow> string list) \<Rightarrow> 'w message_handler \<Rightarrow> bool" where
  "effect_logged healthy processed rest log next \<longleftrightarrow>
     (\<forall>m w x w'. healthy w \<longrightarrow> next m w = (x, w') \<longrightarrow> healthy w' \<and> processed w' = processed w
        \<and> log (rest w') = (if x = Ret None then log (rest w) @ [msg_ID m] else log (rest w)))"

text \<open>
  \<open>processed\<close> is the set of recorded ids, \<open>rest\<close> the part of the state the store does not touch. The
  laws hold while the database answers (\<open>healthy\<close>).
\<close>

locale dedup_store =
  fixes store :: "'w deduplicator"
    and processed :: "'w \<Rightarrow> string set"
    and healthy :: "'w \<Rightarrow> bool"
    and rest :: "'w \<Rightarrow> 'r"
  assumes is_processed: "healthy w \<Longrightarrow> \<exists>w'. dd_IsProcessed store i w = (Ret (i \<in> processed w, None), w')
        \<and> healthy w' \<and> processed w' = processed w \<and> rest w' = rest w"
    and mark_processed: "healthy w \<Longrightarrow> \<exists>b w'. dd_MarkProcessed store i et w = (Ret (b, None), w')
        \<and> healthy w' \<and> processed w' = insert i (processed w) \<and> rest w' = rest w"
begin

lemma Wrap_step:
  assumes "effect_logged healthy processed rest log next" and "healthy w" and "Inbox_Wrap store next m w = (x, w')"
  shows "healthy w'"
    and "msg_ID m \<in> processed w \<Longrightarrow> x = Ret None \<and> processed w' = processed w \<and> log (rest w') = log (rest w)"
    and "msg_ID m \<notin> processed w \<Longrightarrow> x = Ret None \<Longrightarrow>
           processed w' = insert (msg_ID m) (processed w) \<and> log (rest w') = log (rest w) @ [msg_ID m]"
    and "msg_ID m \<notin> processed w \<Longrightarrow> x \<noteq> Ret None \<Longrightarrow>
           processed w' = processed w \<and> log (rest w') = log (rest w)"
proof -
  obtain v where v: "dd_IsProcessed store (msg_ID m) w = (Ret (msg_ID m \<in> processed w, None), v)"
      "healthy v" "processed v = processed w" "rest v = rest w"
    using is_processed [OF assms(2)] by blast
  obtain y u where y: "next m v = (y, u)" by fastforce
  have u: "healthy u" "processed u = processed v"
      "log (rest u) = (if y = Ret None then log (rest v) @ [msg_ID m] else log (rest v))"
    using assms(1) v(2) y by (auto simp: effect_logged_def)
  obtain b t where t: "dd_MarkProcessed store (msg_ID m) (event_type_of m) u = (Ret (b, None), t)"
      "healthy t" "processed t = insert (msg_ID m) (processed u)" "rest t = rest u"
    using mark_processed [OF u(1)] by blast
  have run: "(x, w') = (if msg_ID m \<in> processed w then (Ret None, v)
      else if y = Ret None then (Ret None, t) else (y, u))"
    using assms(3) v(1) y t(1)
    by (auto simp: Inbox_Wrap_def go_bind_def split: exec.splits option.splits)
  show "healthy w'" using run v u t by (auto split: if_splits)
  show "msg_ID m \<in> processed w \<Longrightarrow> x = Ret None \<and> processed w' = processed w \<and> log (rest w') = log (rest w)"
    using run v by auto
  show "msg_ID m \<notin> processed w \<Longrightarrow> x = Ret None \<Longrightarrow>
      processed w' = insert (msg_ID m) (processed w) \<and> log (rest w') = log (rest w) @ [msg_ID m]"
    and "msg_ID m \<notin> processed w \<Longrightarrow> x \<noteq> Ret None \<Longrightarrow> processed w' = processed w \<and> log (rest w') = log (rest w)"
    using run v u t by (auto split: if_splits)
qed

lemma deliver_once:
  assumes "effect_logged healthy processed rest log next" and "healthy w" and "distinct (log (rest w))"
    and "set (log (rest w)) \<subseteq> processed w"
  shows "healthy (deliver (Inbox_Wrap store next) ms w)
     \<and> distinct (log (rest (deliver (Inbox_Wrap store next) ms w)))
     \<and> set (log (rest (deliver (Inbox_Wrap store next) ms w))) \<subseteq> processed (deliver (Inbox_Wrap store next) ms w)
     \<and> processed (deliver (Inbox_Wrap store next) ms w) - set (log (rest (deliver (Inbox_Wrap store next) ms w)))
         = processed w - set (log (rest w))"
  using assms(2-)
proof (induction ms arbitrary: w)
  case (Cons m ms)
  obtain x w' where x: "Inbox_Wrap store next m w = (x, w')" by fastforce
  note step = Wrap_step [OF assms(1) Cons.prems(1) x]
  have "distinct (log (rest w')) \<and> set (log (rest w')) \<subseteq> processed w'
      \<and> processed w' - set (log (rest w')) = processed w - set (log (rest w))"
    using step(2-4) Cons.prems
    by (cases "msg_ID m \<in> processed w"; cases "x = Ret None") auto
  with Cons.IH [of w'] step(1) x show ?case by simp
qed simp

end

section \<open>The inbox store keeps the contract\<close>

definition inbox_store :: "int \<Rightarrow> ('x database_scheme, 'm) world_scheme deduplicator" where
  "inbox_store now = \<lparr>dd_IsProcessed = IsProcessed, dd_MarkProcessed = MarkProcessed now\<rparr>"

definition inbox_ids :: "('x database_scheme, 'm) world_scheme \<Rightarrow> string set" where
  "inbox_ids w = in_id ` set (inbox_events (committed (db w)))"

definition db_healthy :: "('d, 'm) world_scheme \<Rightarrow> bool" where
  "db_healthy w \<longleftrightarrow> faults (db w) = []"

interpretation pg_inbox: dedup_store "inbox_store now" inbox_ids db_healthy world.more for now
proof unfold_locales
  fix w :: "('x database_scheme, 'm) world_scheme" and i et
  assume "db_healthy w"
  then show "\<exists>w'. dd_IsProcessed (inbox_store now) i w = (Ret (i \<in> inbox_ids w, None), w')
      \<and> db_healthy w' \<and> inbox_ids w' = inbox_ids w \<and> world.more w' = world.more w"
    by (simp add: inbox_store_def IsProcessed_def go_bind_def on_db_def
        db_Exec_no_faults inbox_ids_def db_healthy_def)
  show "\<exists>b w'. dd_MarkProcessed (inbox_store now) i et w = (Ret (b, None), w')
      \<and> db_healthy w' \<and> inbox_ids w' = insert i (inbox_ids w) \<and> world.more w' = world.more w"
    using \<open>db_healthy w\<close>
    by (cases "i \<in> inbox_ids w")
      (auto simp: inbox_store_def MarkProcessed_def go_bind_def on_db_def
        db_Exec_no_faults driver_call_def inbox_ids_def db_healthy_def)
qed

section \<open>Properties of idempotent consumption\<close>

text \<open>C4: with a database that answers, the inbox middleware turns at-least-once delivery into an
  exactly-once effect: over any sequence of deliveries and redeliveries of any messages, no id takes
  effect twice, the dedup table holds exactly the ids that took effect (and those it held before), and
  a delivery that reports success has its id recorded. A failed handler leaves no record, so its
  message can be redelivered.\<close>

theorem inbox_exactly_once_effect:
  fixes w :: "('x database_scheme, 'm) world_scheme" and log :: "'m \<Rightarrow> string list"
  assumes "effect_logged db_healthy inbox_ids world.more log next"
    and "faults (db w) = []" and "log (world.more w) = []"
    and "w' = deliver (Inbox_Wrap (inbox_store now) next) msgs w"
  shows "distinct (log (world.more w'))
     \<and> inbox_ids w' = inbox_ids w \<union> set (log (world.more w'))
     \<and> inbox_ids w \<inter> set (log (world.more w')) = {}
     \<and> (\<forall>m w''. Inbox_Wrap (inbox_store now) next m w' = (Ret None, w'') \<longrightarrow> msg_ID m \<in> inbox_ids w'')"
proof -
  have h: "db_healthy w" using assms(2) by (simp add: db_healthy_def)
  have d: "db_healthy w' \<and> distinct (log (world.more w')) \<and> set (log (world.more w')) \<subseteq> inbox_ids w'
      \<and> inbox_ids w' - set (log (world.more w')) = inbox_ids w"
    using pg_inbox.deliver_once [OF assms(1) h, of now msgs] assms(3) unfolding assms(4) by simp
  have "msg_ID m \<in> inbox_ids w''" if "Inbox_Wrap (inbox_store now) next m w' = (Ret None, w'')" for m w''
    using pg_inbox.Wrap_step(2,3) [OF assms(1) conjunct1 [OF d] that] by (cases "msg_ID m \<in> inbox_ids w'") auto
  with d show ?thesis by blast
qed

definition sample_msg :: "string \<Rightarrow> message" where
  "sample_msg i = \<lparr>msg_ID = i, msg_Subject = ''orders'', msg_Data = [], msg_Headers = Map.empty\<rparr>"

definition sample_next :: "(database, string list) world_scheme message_handler" where
  "sample_next m w = (Ret None, world.more_update (\<lambda>l. l @ [msg_ID m]) w)"

definition sample_inbox_world :: "goerr option list \<Rightarrow> (database, string list) world_scheme" where
  "sample_inbox_world fs = \<lparr>db = (db (sample_world []))\<lparr>faults := fs\<rparr>, \<dots> = []\<rparr>"

lemma sample_next_logged: "effect_logged db_healthy inbox_ids world.more (\<lambda>l. l) sample_next"
  by (auto simp: effect_logged_def sample_next_def db_healthy_def inbox_ids_def)

theorem inbox_exactly_once_effect_witness:
  "distinct (world.more (deliver (Inbox_Wrap (inbox_store 9) sample_next)
      [sample_msg ''a'', sample_msg ''b'', sample_msg ''a''] (sample_inbox_world [])))"
  using inbox_exactly_once_effect [OF sample_next_logged _ _ refl, of "sample_inbox_world []" 9
      "[sample_msg ''a'', sample_msg ''b'', sample_msg ''a'']"]
  by (simp add: sample_inbox_world_def sample_world_def)

text \<open>when the marker cannot be written after the handler succeeded, the middleware still reports
  success and records nothing, so a redelivery of the same message runs the handler a second time.\<close>

theorem inbox_mark_failure_runs_twice:
  fixes w :: "('x database_scheme, 'm) world_scheme"
  assumes "effect_logged (\<lambda>w. True) inbox_ids world.more log next"
    and "\<And>m w. fst (next m w) = Ret None"
    and "\<And>m w. db (snd (next m w)) = db w"
    and "faults (db w) = [None, Some e]" and "msg_ID m \<notin> inbox_ids w"
    and "Inbox_Wrap (inbox_store now) next m w = (x, w1)"
    and "Inbox_Wrap (inbox_store now) next m w1 = (y, w2)"
  shows "x = Ret None \<and> log (world.more w2) = log (world.more w) @ [msg_ID m, msg_ID m]"
proof -
  have n: "\<exists>u. next m v = (Ret None, u) \<and> db u = db v \<and> log (world.more u) = log (world.more v) @ [msg_ID m]" for v
  proof -
    have "next m v = (Ret None, snd (next m v))" using assms(2) by (metis prod.collapse)
    then show ?thesis using assms(1,3) unfolding effect_logged_def by (metis (mono_tags))
  qed
  let ?q = "(db w)\<lparr>faults := [Some e]\<rparr>"
  obtain u where u: "next m (w\<lparr>db := ?q\<rparr>) = (Ret None, u)" "db u = ?q"
      "log (world.more u) = log (world.more w) @ [msg_ID m]"
    using n [of "w\<lparr>db := ?q\<rparr>"] by auto
  have i: "in_id ` set (inbox_events (committed (db w))) = inbox_ids w" by (simp add: inbox_ids_def)
  have 1: "x = Ret None" "w1 = u\<lparr>db := ?q\<lparr>faults := []\<rparr>\<rparr>"
    using assms(4,5,6) u(1,2) i
    by (simp_all add: Inbox_Wrap_def inbox_store_def IsProcessed_def
        MarkProcessed_def go_bind_def on_db_def db_Exec_def driver_call_def)
  obtain u2 where u2: "next m w1 = (Ret None, u2)" "log (world.more u2) = log (world.more w1) @ [msg_ID m]"
    using n by blast
  have h1: "faults (db w1) = []" "msg_ID m \<notin> in_id ` set (inbox_events (committed (db w1)))"
    using 1 assms(5) i by auto
  have "world.more w2 = world.more u2"
    using assms(7) u2(1) h1
    by (auto simp: Inbox_Wrap_def inbox_store_def IsProcessed_def
        MarkProcessed_def go_bind_def on_db_def db_Exec_no_faults split: prod.splits sum.splits option.splits)
  then show ?thesis using 1 u u2 by simp
qed

theorem inbox_mark_failure_runs_twice_witness:
  "\<exists>w1 x. Inbox_Wrap (inbox_store 9) sample_next (sample_msg ''a'')
       (sample_inbox_world [None, Some (ErrorsNew ''down'')]) = (Ret None, w1)
     \<and> world.more (snd (Inbox_Wrap (inbox_store 9) sample_next (sample_msg ''a'') w1)) = [''a'', ''a'']"
proof -
  let ?w = "sample_inbox_world [None, Some (ErrorsNew ''down'')]"
  let ?h = "Inbox_Wrap (inbox_store 9) sample_next (sample_msg ''a'')"
  have "effect_logged (\<lambda>w. True) inbox_ids world.more (\<lambda>l. l) sample_next"
    by (auto simp: effect_logged_def sample_next_def inbox_ids_def)
  then have "fst (?h ?w) = Ret None
      \<and> world.more (snd (?h (snd (?h ?w)))) = world.more ?w @ [msg_ID (sample_msg ''a''), msg_ID (sample_msg ''a'')]"
    by (rule inbox_mark_failure_runs_twice [OF _ _ _ _ _ prod.collapse [symmetric] prod.collapse [symmetric]])
      (auto simp: sample_next_def sample_inbox_world_def inbox_ids_def sample_world_def sample_msg_def)
  then show ?thesis
    by (intro exI [of _ "snd (?h ?w)"] exI conjI)
      (auto simp: prod_eq_iff sample_inbox_world_def sample_msg_def)
qed

section \<open>The processor runs a handler at most once\<close>

fun process_all ::
  "int \<Rightarrow> ('p event \<Rightarrow> (('x database_scheme, 'm) world_scheme, goerr option) go) \<Rightarrow> 'p event list \<Rightarrow>
   ('x database_scheme, 'm) world_scheme \<Rightarrow> ('x database_scheme, 'm) world_scheme" where
  "process_all now handler [] w = w"
| "process_all now handler (e # es) w = process_all now handler es (snd (Process now e handler w))"

text \<open>A handler that logs that it was called, and forgets no dedup record.\<close>

definition calls_logged ::
  "('m \<Rightarrow> string list) \<Rightarrow> ('p event \<Rightarrow> (('x database_scheme, 'm) world_scheme, goerr option) go) \<Rightarrow> bool" where
  "calls_logged log handler \<longleftrightarrow>
     (\<forall>e w. log (world.more (snd (handler e w))) = log (world.more w) @ [ev_id e]
          \<and> inbox_ids w \<subseteq> inbox_ids (snd (handler e w)))"

lemma inbox_insert_ids:
  "in_id ` set (inbox_events (snd (inbox_insert_statement now i et d))) = insert i (in_id ` set (inbox_events d))"
  by auto

lemma Process_step:
  assumes "calls_logged log handler"
    and "distinct (log (world.more w))" and "set (log (world.more w)) \<subseteq> inbox_ids w"
  shows "wp (Process now e handler)
    (\<lambda>x w'. distinct (log (world.more w')) \<and> set (log (world.more w')) \<subseteq> inbox_ids w' \<and> inbox_ids w \<subseteq> inbox_ids w') w"
  unfolding Process_def
proof (intro wp_intro)
  let ?Q = "\<lambda>x w'. distinct (log (world.more w')) \<and> set (log (world.more w')) \<subseteq> inbox_ids w' \<and> inbox_ids w \<subseteq> inbox_ids w'"
  fix r q f q'
  assume q: "db_Exec (inbox_insert_statement now (ev_id e) (eventType e)) (db w) = (r, q)"
  have ids: "inbox_ids w \<subseteq> in_id ` set (inbox_events (committed q))"
    using db_Exec_cases [OF q] by (cases r) (auto simp: inbox_ids_def inbox_insert_ids)
  then show "?Q x (w\<lparr>db := q\<rparr>)" for x :: "goerr option exec"
    using assms(2,3) by (auto simp: inbox_ids_def)
  assume q': "driver_call (db (w\<lparr>db := q\<rparr>)) = (f, q')"
  let ?w = "w\<lparr>db := q, db := q'\<rparr>"
  have c: "committed q' = committed q" using q' by (auto dest: driver_call_split)
  show Q: "?Q x ?w" for x :: "goerr option exec"
    using assms(2,3) ids c by (auto simp: inbox_ids_def)
  from Q show "?Q x ?w" for x :: "goerr option exec" .
  fix rows assume rows: "r = Inl rows" "rows \<noteq> 0"
  have new: "ev_id e \<notin> inbox_ids w" "inbox_ids ?w = insert (ev_id e) (inbox_ids w)"
    using db_Exec_cases(2) [OF q rows(1)] rows(2) c
    by (auto simp: inbox_ids_def split: if_splits)
  have h: "log (world.more (snd (handler e ?w))) = log (world.more w) @ [ev_id e]"
      "inbox_ids ?w \<subseteq> inbox_ids (snd (handler e ?w))"
    using assms(1) by (simp_all add: calls_logged_def)
  have "?Q x (snd (handler e ?w))" for x :: "goerr option exec"
    unfolding h(1) using h(2) new assms(2,3) by auto
  then have "wp (handler e) ?Q ?w" unfolding wp_def by (simp add: case_prod_beta)
  then show "wp (go_bind (handler e) (\<lambda>herr. case herr of None \<Rightarrow> go_return None
      | Some ea \<Rightarrow> go_return (Some (errorf_w (''inbox: handler error for event '' @ quote (ev_id e)) ea)))) ?Q ?w"
    by (intro wp_bind, elim wp_mono) (auto intro!: wp_intro split: exec.split)
qed

text \<open>the insert-first processor calls the handler at most once per event id, over any sequence
  of events, whatever the handlers return and whichever database calls fail.\<close>

theorem processor_at_most_once:
  fixes w :: "('x database_scheme, 'm) world_scheme"
  assumes "calls_logged log handler" and "log (world.more w) = []"
  shows "distinct (log (world.more (process_all now handler es w)))"
proof -
  have "distinct (log (world.more (process_all now handler es w)))"
    if "distinct (log (world.more w))" "set (log (world.more w)) \<subseteq> inbox_ids w"
    for w :: "('x database_scheme, 'm) world_scheme"
    using that
  proof (induction es arbitrary: w)
    case (Cons e es)
    obtain x w' where "Process now e handler w = (x, w')" by fastforce
    with wpD [OF Process_step [OF assms(1) Cons.prems] this] Cons.IH [of w'] show ?case by simp
  qed simp
  from this [of w] assms(2) show ?thesis by simp
qed

definition sample_handler :: "string event \<Rightarrow> ((database, string list) world_scheme, goerr option) go" where
  "sample_handler e w = (Ret (Some (ErrorsNew ''boom'')), world.more_update (\<lambda>l. l @ [ev_id e]) w)"

definition sample_event :: "string event" where
  "sample_event = NewEvent ''e1'' 7 ''order.created'' ''{}'' []"

theorem processor_at_most_once_witness:
  "distinct (world.more (process_all 9 sample_handler [sample_event, sample_event]
      (sample_inbox_world [None, None, Some (ErrorsNew ''down'')])))"
proof -
  have "calls_logged (\<lambda>l. l) sample_handler"
    by (simp add: calls_logged_def sample_handler_def inbox_ids_def)
  then show ?thesis
    by (rule processor_at_most_once) (simp add: sample_inbox_world_def)
qed

end
