(* ===== verification/Wolf_Chain.thy ===== *)
theory Wolf_Chain
  imports Go_Prelude
begin

text \<open>
  Middleware chains. The sources build them three times (the messenger bus, the CQRS pipelines, the
  message handler decorators), each with a loop of its own; this is what the three share.
\<close>

locale chain_builder =
  fixes build :: "'m list \<Rightarrow> 'h \<Rightarrow> 'h"
    and app :: "'m \<Rightarrow> 'h \<Rightarrow> 'h"
  assumes build_Nil: "build [] h = h"
    and build_Cons: "build (m # ms) h = app m (build ms h)"
begin

lemma build_foldr: "build ms h = foldr app ms h"
  by (induction ms) (simp_all add: build_Nil build_Cons)

lemma build_append: "build (ms @ ns) h = build ms (build ns h)"
  by (simp add: build_foldr)

text \<open>What the innermost handler satisfies and every middleware keeps, the chain satisfies.\<close>

lemma build_preserves:
  assumes "P h" and "\<And>m g. m \<in> set ms \<Longrightarrow> P g \<Longrightarrow> P (app m g)"
  shows "P (build ms h)"
  using assms by (induction ms) (simp_all add: build_Nil build_Cons)

text \<open>A middleware at the head that establishes a property makes the chain have it.\<close>

lemma build_outermost: "(\<And>g. P (app m g)) \<Longrightarrow> P (build (m # ms) h)"
  by (simp add: build_Cons)

end

end
