(* ===== verification/Messenger_Bus.thy ===== *)
theory Messenger_Bus
  imports Wolf_Tx Wolf_Chain
begin

text \<open>
  The message bus of \<^verbatim>\<open>src/messenger\<close>: envelopes and stamps, the handler registry, the router, the
  middleware chain and the dispatch paths of \<^verbatim>\<open>MessageBus\<close>, with its options and \<^verbatim>\<open>BusSet\<close>.

  A message carries the name \<^verbatim>\<open>reflect\<close> gives its type, the name its \<^verbatim>\<open>MessageName\<close> method returns if
  it has one, and its value. A handler, a middleware and a sender are computations on the state \<open>'s\<close> of
  the program. A context has the values of \<^theory_text>\<open>Wolf_Tx\<close> and a deadline. The copy-on-write tables (handlers, routes) are
  the maps they hold.
\<close>

section \<open>Messages and type names\<close>

record 'p msg =
  m_rtype :: string
  m_name :: "string option"
  m_value :: 'p

definition TypeNameOf :: "'p msg \<Rightarrow> string" where
  "TypeNameOf m = (case m_name m of Some n \<Rightarrow> n | None \<Rightarrow> m_rtype m)"

text \<open>The cache behind it, keyed by the type.\<close>

definition typeNameCached :: "(string \<rightharpoonup> string) \<Rightarrow> string \<Rightarrow> string \<times> (string \<rightharpoonup> string)" where
  "typeNameCached cache rt =
     (case cache rt of Some name \<Rightarrow> (name, cache) | None \<Rightarrow> (rt, cache(rt \<mapsto> rt)))"

definition PreregisterType :: "(string \<rightharpoonup> string) \<Rightarrow> string \<Rightarrow> (string \<rightharpoonup> string)" where
  "PreregisterType cache rt = (case cache rt of Some name \<Rightarrow> cache | None \<Rightarrow> cache(rt \<mapsto> rt))"

section \<open>Stamps\<close>

datatype 'v stamp =
    BusNameStamp string
  | ResultStamp 'v
  | SentStamp string int
  | ReceivedStamp string int
  | TransportNameStamp string
  | RedeliveryStamp int string
  | DelayStamp int
  | ErrorStamp string int
  | TraceStamp string string "string \<rightharpoonup> string"
  | ForceSyncStamp
  | ForceTransportStamp string
  | ConsumedByStamp string int
  | AggregateStamp string string
  | OutboxIDStamp string
  | MemoryIDStamp string
  | CustomStamp string

definition NameResult :: string where "NameResult = ''messenger.result''"
definition NameSent :: string where "NameSent = ''messenger.sent''"
definition NameReceived :: string where "NameReceived = ''messenger.received''"
definition NameRedelivery :: string where "NameRedelivery = ''messenger.redelivery''"
definition NameForceSync :: string where "NameForceSync = ''messenger.force_sync''"
definition NameForceTransport :: string where "NameForceTransport = ''messenger.force_transport''"
definition NameTrace :: string where "NameTrace = ''messenger.trace''"
definition NameAggregate :: string where "NameAggregate = ''messenger.aggregate''"
definition NameOutboxID :: string where "NameOutboxID = ''messenger.outbox_id''"
definition NameMemoryID :: string where "NameMemoryID = ''memory.internal_id''"

lemmas stamp_name_defs =
  NameResult_def NameSent_def NameReceived_def NameRedelivery_def NameForceSync_def
  NameForceTransport_def NameTrace_def NameAggregate_def NameOutboxID_def NameMemoryID_def

fun StampName :: "'v stamp \<Rightarrow> string" where
  "StampName (BusNameStamp n) = ''messenger.bus_name''"
| "StampName (ResultStamp v) = NameResult"
| "StampName (SentStamp t a) = NameSent"
| "StampName (ReceivedStamp t a) = NameReceived"
| "StampName (TransportNameStamp n) = ''messenger.transport_name''"
| "StampName (RedeliveryStamp c e) = NameRedelivery"
| "StampName (DelayStamp d) = ''messenger.delay''"
| "StampName (ErrorStamp e a) = ''messenger.error''"
| "StampName (TraceStamp t s h) = NameTrace"
| "StampName ForceSyncStamp = NameForceSync"
| "StampName (ForceTransportStamp n) = NameForceTransport"
| "StampName (ConsumedByStamp h d) = ''messenger.consumed''"
| "StampName (AggregateStamp t i) = NameAggregate"
| "StampName (OutboxIDStamp i) = NameOutboxID"
| "StampName (MemoryIDStamp i) = NameMemoryID"
| "StampName (CustomStamp n) = n"

section \<open>Envelopes\<close>

record ('p, 'v) envelope =
  Message :: "'p msg"
  stamps :: "'v stamp list"
  env_createdAt :: int

definition NewEnvelope :: "int \<Rightarrow> 'p msg \<Rightarrow> 'v stamp list \<Rightarrow> ('p, 'v) envelope" where
  "NewEnvelope now m ss = \<lparr>Message = m, stamps = ss, env_createdAt = now\<rparr>"

definition NewEnvelopeWithTime :: "'p msg \<Rightarrow> int \<Rightarrow> 'v stamp list \<Rightarrow> ('p, 'v) envelope" where
  "NewEnvelopeWithTime m t ss = \<lparr>Message = m, stamps = ss, env_createdAt = t\<rparr>"

definition WithStamp :: "'v stamp \<Rightarrow> ('p, 'v) envelope \<Rightarrow> ('p, 'v) envelope" where
  "WithStamp s e = e\<lparr>stamps := stamps e @ [s]\<rparr>"

definition WithoutStamp :: "string \<Rightarrow> ('p, 'v) envelope \<Rightarrow> ('p, 'v) envelope" where
  "WithoutStamp name e =
     (if stamps e = [] then e else e\<lparr>stamps := filter (\<lambda>s. StampName s \<noteq> name) (stamps e)\<rparr>)"

fun last_named :: "string \<Rightarrow> 'v stamp list \<Rightarrow> 'v stamp option" where
  "last_named name [] = None"
| "last_named name (s # ss) =
     (case last_named name ss of
        Some t \<Rightarrow> Some t
      | None \<Rightarrow> if StampName s = name then Some s else None)"

definition Last :: "string \<Rightarrow> ('p, 'v) envelope \<Rightarrow> 'v stamp option" where
  "Last name e = last_named name (stamps e)"

definition All :: "string \<Rightarrow> ('p, 'v) envelope \<Rightarrow> 'v stamp list" where
  "All name e = filter (\<lambda>s. StampName s = name) (stamps e)"

definition HasStamp :: "string \<Rightarrow> ('p, 'v) envelope \<Rightarrow> bool" where
  "HasStamp name e = list_ex (\<lambda>s. StampName s = name) (stamps e)"

abbreviation MessageTypeName :: "('p, 'v) envelope \<Rightarrow> string" where
  "MessageTypeName e \<equiv> TypeNameOf (Message e)"

section \<open>Handlers and their registry\<close>

record mctx = go_ctx +
  mc_deadline :: "int option"

definition background :: mctx where
  "background = \<lparr>ctx_tx = None, ctx_trace_id = [], ctx_request_id = [], mc_deadline = None\<rparr>"

record ('s, 'p, 'v) any_handler =
  HandleAny :: "mctx \<Rightarrow> 'p msg \<Rightarrow> ('s, 'v option \<times> goerr option) go"
  IsCommand :: bool

text \<open>\<open>as_C\<close> is the type assertion \<^verbatim>\<open>msg.(C)\<close>, \<open>type_C\<close> prints the zero value's type.\<close>

abbreviation type_assertion_failed :: "string \<Rightarrow> 'p msg \<Rightarrow> goerr" where
  "type_assertion_failed type_C m \<equiv>
     errorf (''messenger: type assertion failed: expected '' @ type_C @ '', got '' @ m_rtype m)"

definition commandWrapper ::
  "('p \<Rightarrow> 'c option) \<Rightarrow> string \<Rightarrow> (mctx \<Rightarrow> 'c \<Rightarrow> ('s, goerr option) go) \<Rightarrow> ('s, 'p, 'v) any_handler" where
  "commandWrapper as_C type_C h =
     \<lparr>HandleAny = (\<lambda>ctx m.
        case as_C (m_value m) of
          None \<Rightarrow> go_return (None, Some (type_assertion_failed type_C m))
        | Some cmd \<Rightarrow> go_bind (h ctx cmd) (\<lambda>err. go_return (None, err))),
      IsCommand = True\<rparr>"

definition queryWrapper ::
  "('p \<Rightarrow> 'c option) \<Rightarrow> string \<Rightarrow> (mctx \<Rightarrow> 'c \<Rightarrow> ('s, 'v \<times> goerr option) go) \<Rightarrow> ('s, 'p, 'v) any_handler" where
  "queryWrapper as_C type_C h =
     \<lparr>HandleAny = (\<lambda>ctx m.
        case as_C (m_value m) of
          None \<Rightarrow> go_return (None, Some (type_assertion_failed type_C m))
        | Some query \<Rightarrow>
            go_bind (h ctx query) (\<lambda>(result, err).
              case err of
                Some e \<Rightarrow> go_return (None, Some e)
              | None \<Rightarrow> go_return (Some result, None))),
      IsCommand = False\<rparr>"

abbreviation ErrNoHandler :: goerr where
  "ErrNoHandler \<equiv> ErrorsNew ''messenger: no handler registered for message type''"
abbreviation ErrQueryCannotBeAsync :: goerr where
  "ErrQueryCannotBeAsync \<equiv> ErrorsNew ''messenger: query types cannot be routed to async transport''"
abbreviation ErrTransportNotFound :: goerr where
  "ErrTransportNotFound \<equiv> ErrorsNew ''messenger: transport not found''"
abbreviation ErrBusClosed :: goerr where
  "ErrBusClosed \<equiv> ErrorsNew ''messenger: bus is closed''"
abbreviation ErrDuplicateHandler :: goerr where
  "ErrDuplicateHandler \<equiv> ErrorsNew ''messenger: duplicate handler for message type''"
abbreviation ErrCircuitOpen :: goerr where
  "ErrCircuitOpen \<equiv> ErrorsNew ''messenger: circuit breaker open''"

type_synonym ('s, 'p, 'v) handler_table = "string \<rightharpoonup> ('s, 'p, 'v) any_handler"

definition register ::
  "string \<Rightarrow> ('s, 'p, 'v) any_handler \<Rightarrow> (('s, 'p, 'v) handler_table, unit) go" where
  "register typeName h t =
     (if t typeName \<noteq> None then (Panic (err_text ErrDuplicateHandler @ '': '' @ typeName), t)
      else (Ret (), t(typeName \<mapsto> h)))"

definition Resolve ::
  "('s, 'p, 'v) handler_table \<Rightarrow> 'p msg \<Rightarrow> ('s, 'p, 'v) any_handler option \<times> goerr option" where
  "Resolve t m =
     (case t (TypeNameOf m) of
        None \<Rightarrow> (None, Some (Errorf [Verb_w ErrNoHandler, Lit ('': '' @ TypeNameOf m)]))
      | Some h \<Rightarrow> (Some h, None))"

definition Has :: "('s, 'p, 'v) handler_table \<Rightarrow> 'p msg \<Rightarrow> bool" where
  "Has t m \<longleftrightarrow> t (TypeNameOf m) \<noteq> None"

text \<open>\<^verbatim>\<open>CommandTypes\<close> and \<^verbatim>\<open>QueryTypes\<close> range over the table, in the order \<open>ks\<close>.\<close>

definition CommandTypes :: "string list \<Rightarrow> ('s, 'p, 'v) handler_table \<Rightarrow> string list" where
  "CommandTypes ks t = filter (\<lambda>k. case t k of Some h \<Rightarrow> IsCommand h | None \<Rightarrow> False) ks"

definition QueryTypes :: "string list \<Rightarrow> ('s, 'p, 'v) handler_table \<Rightarrow> string list" where
  "QueryTypes ks t = filter (\<lambda>k. case t k of Some h \<Rightarrow> \<not> IsCommand h | None \<Rightarrow> False) ks"

section \<open>The router\<close>

type_synonym router = "string \<rightharpoonup> string"

definition Route :: "router \<Rightarrow> 'p msg \<Rightarrow> string" where
  "Route r m = get_str r (TypeNameOf m)"

definition UpdateRoutes :: "router \<Rightarrow> router \<Rightarrow> router" where
  "UpdateRoutes routes r = routes"

definition AddRoute :: "string \<Rightarrow> string \<Rightarrow> router \<Rightarrow> router" where
  "AddRoute msgType transportName r = r(msgType \<mapsto> transportName)"

definition RemoveRoute :: "string \<Rightarrow> router \<Rightarrow> router" where
  "RemoveRoute msgType r = r(msgType := None)"

section \<open>The chain\<close>

text \<open>The zero \<^verbatim>\<open>DispatchResult\<close> has no envelope.\<close>

record ('p, 'v) dispatch_result =
  dr_Envelope :: "('p, 'v) envelope option"
  dr_Async :: bool

definition dr_zero :: "('p, 'v) dispatch_result" where
  "dr_zero = \<lparr>dr_Envelope = None, dr_Async = False\<rparr>"

type_synonym ('s, 'p, 'v) next_fn =
  "mctx \<Rightarrow> ('p, 'v) envelope \<Rightarrow> ('s, ('p, 'v) dispatch_result \<times> goerr option) go"

type_synonym ('s, 'p, 'v) middleware =
  "mctx \<Rightarrow> ('p, 'v) envelope \<Rightarrow> ('s, 'p, 'v) next_fn \<Rightarrow> ('s, ('p, 'v) dispatch_result \<times> goerr option) go"

datatype ('s, 'p, 'v) chain_node =
    Tail "('s, 'p, 'v) next_fn"
  | Node "('s, 'p, 'v) middleware" "('s, 'p, 'v) next_fn"

fun execute :: "('s, 'p, 'v) chain_node \<Rightarrow> ('s, 'p, 'v) next_fn" where
  "execute (Tail terminal) ctx env = terminal ctx env"
| "execute (Node middleware nextFunc) ctx env = middleware ctx env nextFunc"

text \<open>The loop over \<^verbatim>\<open>i := len(mws) - 1\<close> down to 0, with \<^verbatim>\<open>current\<close> as its accumulator.\<close>

fun build_from ::
  "('s, 'p, 'v) middleware list \<Rightarrow> nat \<Rightarrow> ('s, 'p, 'v) chain_node \<Rightarrow> ('s, 'p, 'v) chain_node" where
  "build_from mws 0 current = current"
| "build_from mws (Suc i) current = build_from mws i (Node (mws ! i) (execute current))"

definition buildChain ::
  "('s, 'p, 'v) middleware list \<Rightarrow> ('s, 'p, 'v) next_fn \<Rightarrow> ('s, 'p, 'v) chain_node" where
  "buildChain mws terminal =
     (if mws = [] then Tail terminal else build_from mws (length mws) (Tail terminal))"

section \<open>The bus\<close>

type_synonym ('s, 'p, 'v) sender = "mctx \<Rightarrow> ('p, 'v) envelope \<Rightarrow> ('s, goerr option) go"

record ('s, 'p, 'v) message_bus =
  b_name :: string
  b_handlers :: "('s, 'p, 'v) handler_table"
  b_router :: router
  b_transports :: "string \<rightharpoonup> ('s, 'p, 'v) sender"
  b_mws :: "('s, 'p, 'v) middleware list"
  b_closed :: bool

definition syncTerminal :: "('s, 'p, 'v) message_bus \<Rightarrow> ('s, 'p, 'v) next_fn" where
  "syncTerminal b ctx env =
     (case Resolve (b_handlers b) (Message env) of
        (None, err) \<Rightarrow> go_return (dr_zero, err)
      | (Some handler, _) \<Rightarrow>
          go_bind (HandleAny handler ctx (Message env)) (\<lambda>(result, err).
            case err of
              Some e \<Rightarrow> go_return (dr_zero, Some e)
            | None \<Rightarrow>
                (let env' = (case result of Some v \<Rightarrow> WithStamp (ResultStamp v) env | None \<Rightarrow> env)
                 in go_return (\<lparr>dr_Envelope = Some env', dr_Async = False\<rparr>, None))))"

definition sendToTransport :: "('s, 'p, 'v) message_bus \<Rightarrow> string \<Rightarrow> ('s, 'p, 'v) next_fn" where
  "sendToTransport b transportName ctx env =
     (case b_transports b transportName of
        None \<Rightarrow> go_return (dr_zero, Some (Errorf [Verb_w ErrTransportNotFound, Lit ('': '' @ quote transportName)]))
      | Some sender \<Rightarrow>
          go_bind (sender ctx env) (\<lambda>err.
            case err of
              Some e \<Rightarrow> go_return (dr_zero, Some (errorf_w (''messenger: transport '' @ quote transportName @ '' send failed'') e))
            | None \<Rightarrow> go_return (\<lparr>dr_Envelope = Some env, dr_Async = True\<rparr>, None)))"

text \<open>A failed single-value type assertion panics.\<close>

definition assertion_panic :: "string \<Rightarrow> string" where
  "assertion_panic t = ''interface conversion: stamp.Stamp is not '' @ t"

definition dispatchTerminal :: "('s, 'p, 'v) message_bus \<Rightarrow> ('s, 'p, 'v) next_fn" where
  "dispatchTerminal b ctx env =
     (if HasStamp NameForceSync env then syncTerminal b ctx env
      else
        (case Last NameForceTransport env of
           Some (ForceTransportStamp transportName) \<Rightarrow> sendToTransport b transportName ctx env
         | Some _ \<Rightarrow> go_panic (assertion_panic ''stamp.ForceTransportStamp'')
         | None \<Rightarrow>
             (let transportName = Route (b_router b) (Message env) in
              if transportName = [] then syncTerminal b ctx env
              else sendToTransport b transportName ctx env)))"

definition bus_Dispatch ::
  "('s, 'p, 'v) message_bus \<Rightarrow> int \<Rightarrow> mctx \<Rightarrow> 'p msg \<Rightarrow> 'v stamp list \<Rightarrow>
   ('s, ('p, 'v) dispatch_result \<times> goerr option) go" where
  "bus_Dispatch b now ctx cmd ss =
     (if b_closed b then go_return (dr_zero, Some ErrBusClosed)
      else execute (buildChain (b_mws b) (dispatchTerminal b)) ctx (NewEnvelope now cmd ss))"

definition bus_Query ::
  "('s, 'p, 'v) message_bus \<Rightarrow> int \<Rightarrow> mctx \<Rightarrow> 'p msg \<Rightarrow> 'v stamp list \<Rightarrow>
   ('s, 'v option \<times> goerr option) go" where
  "bus_Query b now ctx query ss =
     (if b_closed b then go_return (None, Some ErrBusClosed)
      else if Route (b_router b) query \<noteq> []
      then go_return (None, Some (Errorf [Verb_w ErrQueryCannotBeAsync,
             Lit ('': '' @ TypeNameOf query @ '' routed to '' @ quote (Route (b_router b) query))]))
      else
        go_bind (execute (buildChain (b_mws b) (syncTerminal b)) ctx (NewEnvelope now query ss)) (\<lambda>(result, err).
          case err of
            Some e \<Rightarrow> go_return (None, Some e)
          | None \<Rightarrow>
              (case dr_Envelope result of
                 None \<Rightarrow> go_return (None, None)
               | Some env \<Rightarrow>
                   (case Last NameResult env of
                      None \<Rightarrow> go_return (None, None)
                    | Some (ResultStamp v) \<Rightarrow> go_return (Some v, None)
                    | Some _ \<Rightarrow> go_panic (assertion_panic ''stamp.ResultStamp'')))))"

definition bus_Close :: "('s, 'p, 'v) message_bus \<Rightarrow> ('s, 'p, 'v) message_bus" where
  "bus_Close b = b\<lparr>b_closed := True\<rparr>"

section \<open>Construction\<close>

datatype ('s, 'p, 'v) bus_option =
    WithMiddleware "('s, 'p, 'v) middleware list"
  | WithTransport string "('s, 'p, 'v) sender"
  | WithRouter router
  | WithHandlerRegistry "('s, 'p, 'v) handler_table"

fun apply_option :: "('s, 'p, 'v) bus_option \<Rightarrow> ('s, 'p, 'v) message_bus \<Rightarrow> ('s, 'p, 'v) message_bus" where
  "apply_option (WithMiddleware ms) b = b\<lparr>b_mws := b_mws b @ ms\<rparr>"
| "apply_option (WithTransport name sender) b = b\<lparr>b_transports := (b_transports b)(name \<mapsto> sender)\<rparr>"
| "apply_option (WithRouter r) b = b\<lparr>b_router := r\<rparr>"
| "apply_option (WithHandlerRegistry reg) b = b\<lparr>b_handlers := reg\<rparr>"

definition route_panic :: "string \<Rightarrow> string \<Rightarrow> string list \<Rightarrow> string" where
  "route_panic msgType transportName names =
     ''messenger: route '' @ quote msgType @ '' '' @ [CHR 0xE2, CHR 0x86, CHR 0x92] @ '' transport ''
     @ quote transportName @ '' not registered (available: ['' @ join '' '' names @ ''])''"

fun check_routes ::
  "router \<Rightarrow> (string \<rightharpoonup> ('s, 'p, 'v) sender) \<Rightarrow> string list \<Rightarrow> string list \<Rightarrow> unit exec" where
  "check_routes r ts names [] = Ret ()"
| "check_routes r ts names (msgType # rest) =
     (let transportName = get_str r msgType in
      if ts transportName = None then Panic (route_panic msgType transportName names)
      else check_routes r ts names rest)"

text \<open>\<open>order\<close> and \<open>names\<close> are the orders in which the two maps are ranged over.\<close>

definition NewBus ::
  "(router \<Rightarrow> string list) \<Rightarrow> ((string \<rightharpoonup> ('s, 'p, 'v) sender) \<Rightarrow> string list) \<Rightarrow> string \<Rightarrow>
   ('s, 'p, 'v) bus_option list \<Rightarrow> ('s, 'p, 'v) message_bus exec" where
  "NewBus order names name opts =
     (let b = fold apply_option opts
                \<lparr>b_name = name, b_handlers = Map.empty, b_router = Map.empty, b_transports = Map.empty,
                 b_mws = [], b_closed = False\<rparr>
      in case check_routes (b_router b) (b_transports b) (names (b_transports b)) (order (b_router b)) of
           Panic p \<Rightarrow> Panic p
         | Ret _ \<Rightarrow> Ret b)"

section \<open>Bus sets\<close>

fun bus_set_map :: "(string \<times> 'b) list \<Rightarrow> (string \<rightharpoonup> 'b) \<Rightarrow> (string \<rightharpoonup> 'b) exec" where
  "bus_set_map [] m = Ret m"
| "bus_set_map ((n, b) # nbs) m =
     (if m n \<noteq> None then Panic (''messenger: duplicate bus name '' @ quote n @ '' in BusSet'')
      else bus_set_map nbs (m(n \<mapsto> b)))"

definition NewBusSet :: "(string \<times> 'b) list \<Rightarrow> (string \<rightharpoonup> 'b) exec" where
  "NewBusSet nbs = bus_set_map nbs Map.empty"

definition BusSet_Bus :: "(string \<rightharpoonup> 'b) \<Rightarrow> string \<Rightarrow> 'b exec" where
  "BusSet_Bus s name =
     (case s name of
        None \<Rightarrow> Panic (''messenger: bus '' @ quote name @ '' not found in BusSet'')
      | Some b \<Rightarrow> Ret b)"

section \<open>Envelopes: lemmas\<close>

lemma last_named_append:
  "last_named n (xs @ ys) = (case last_named n ys of Some s \<Rightarrow> Some s | None \<Rightarrow> last_named n xs)"
  by (induction xs) (auto split: option.splits)

lemma last_named_None: "last_named n ss = None \<longleftrightarrow> (\<forall>s \<in> set ss. StampName s \<noteq> n)"
  by (induction ss) (auto split: option.splits)

lemma last_named_Some: "last_named n ss = Some s \<Longrightarrow> s \<in> set ss \<and> StampName s = n"
  by (induction ss) (auto split: option.splits if_splits)

lemma Last_WithStamp:
  "Last n (WithStamp s e) = (if StampName s = n then Some s else Last n e)"
  by (simp add: Last_def WithStamp_def last_named_append)

lemma HasStamp_Last: "HasStamp n e \<longleftrightarrow> Last n e \<noteq> None"
  by (auto simp: HasStamp_def Last_def last_named_None list_ex_iff)

text \<open>stamps behave as an append-only log with lookup by name: after \<^verbatim>\<open>WithStamp\<close> the stamp is the
  last of its name and every other name is unaffected; \<^verbatim>\<open>WithoutStamp\<close> removes exactly the stamps of
  its name; the message and the creation time never change.\<close>

theorem stamp_log:
  "Last n (WithStamp s e) = (if StampName s = n then Some s else Last n e)
   \<and> All n (WithStamp s e) = All n e @ (if StampName s = n then [s] else [])
   \<and> \<not> HasStamp n (WithoutStamp n e)
   \<and> (n' \<noteq> n \<longrightarrow> All n' (WithoutStamp n e) = All n' e \<and> Last n' (WithoutStamp n e) = Last n' e)
   \<and> Message (WithStamp s e) = Message e \<and> Message (WithoutStamp n e) = Message e
   \<and> env_createdAt (WithStamp s e) = env_createdAt e"
proof -
  have keep: "last_named n' (filter (\<lambda>s. StampName s \<noteq> n) ss) = last_named n' ss" if "n' \<noteq> n" for ss :: "'a stamp list"
    using that by (induction ss) (auto split: option.splits)
  show ?thesis
    using Last_WithStamp [of n s e] keep
    by (auto simp: All_def WithStamp_def WithoutStamp_def HasStamp_def Last_def list_ex_iff
        intro: filter_cong)
qed

theorem stamp_log_witness:
  "Last NameReceived (WithoutStamp NameSent (NewEnvelope 1 \<lparr>m_rtype = ''T'', m_name = None, m_value = ()\<rparr>
      [ReceivedStamp ''q'' 5, SentStamp ''q'' 4 :: nat stamp])) = Some (ReceivedStamp ''q'' 5)"
  using stamp_log [of NameSent "SentStamp ''q'' 4" "NewEnvelope 1 \<lparr>m_rtype = ''T'', m_name = None, m_value = ()\<rparr>
      [ReceivedStamp ''q'' 5, SentStamp ''q'' 4 :: nat stamp]" NameReceived]
  by (simp add: stamp_name_defs Last_def NewEnvelope_def)

lemma typeNameCached_eq:
  assumes "\<And>k v. cache k = Some v \<Longrightarrow> v = k"
  shows "fst (typeNameCached cache rt) = rt"
    and "snd (typeNameCached cache rt) k = Some v \<Longrightarrow> v = k"
    and "PreregisterType cache rt k = Some v \<Longrightarrow> v = k"
  using assms by (auto simp: typeNameCached_def PreregisterType_def split: option.splits if_splits)

section \<open>The chain is the composition of its middlewares\<close>

lemma build_from_execute:
  "i \<le> length mws \<Longrightarrow>
   execute (build_from mws i c) = foldr (\<lambda>m next ctx env. m ctx env next) (take i mws) (execute c)"
proof (induction i arbitrary: c)
  case (Suc i)
  then have "take (Suc i) mws = take i mws @ [mws ! i]" by (simp add: take_Suc_conv_app_nth)
  moreover have "execute (Node (mws ! i) (execute c)) = (\<lambda>ctx env. (mws ! i) ctx env (execute c))"
    by (simp add: fun_eq_iff)
  ultimately show ?case using Suc.IH [of "Node (mws ! i) (execute c)"] Suc.prems by simp
qed simp

lemma buildChain_foldr:
  "execute (buildChain mws terminal) = foldr (\<lambda>m next ctx env. m ctx env next) mws terminal"
proof -
  have "execute (Tail terminal) = terminal" by (simp add: fun_eq_iff)
  then show ?thesis using build_from_execute [of "length mws" mws "Tail terminal"] by (simp add: buildChain_def)
qed

interpretation bus_chain: chain_builder
  "\<lambda>mws terminal. execute (buildChain mws terminal)" "\<lambda>m next ctx env. m ctx env next"
  by unfold_locales (simp_all add: buildChain_foldr)

section \<open>Where a message goes\<close>

text \<open>The routing rules as a decision: the handler, a transport, or a panic on a foreign stamp that
  uses the reserved name.\<close>

datatype target = ToHandler | ToTransport string | BadStamp

definition decide :: "router \<Rightarrow> ('p, 'v) envelope \<Rightarrow> target" where
  "decide r env =
     (if HasStamp NameForceSync env then ToHandler
      else case Last NameForceTransport env of
             Some (ForceTransportStamp t) \<Rightarrow> ToTransport t
           | Some _ \<Rightarrow> BadStamp
           | None \<Rightarrow> (case r (TypeNameOf (Message env)) of
                        None \<Rightarrow> ToHandler
                      | Some t \<Rightarrow> if t = [] then ToHandler else ToTransport t))"

lemma dispatchTerminal_decide:
  "dispatchTerminal b ctx env =
     (case decide (b_router b) env of
        ToHandler \<Rightarrow> syncTerminal b ctx env
      | ToTransport t \<Rightarrow> sendToTransport b t ctx env
      | BadStamp \<Rightarrow> go_panic (assertion_panic ''stamp.ForceTransportStamp''))"
  by (auto simp: dispatchTerminal_def decide_def Route_def get_str_def Let_def
      split: option.splits stamp.splits)

text \<open>C8: dispatching on an open bus runs the middlewares in the order they were given, first one
  outermost, around one decision: \<^verbatim>\<open>ForceSync\<close> beats \<^verbatim>\<open>ForceTransport\<close>, which beats the route of the
  message type, and a message without a route goes to its handler.\<close>

theorem dispatch_decides_inside_chain:
  assumes "\<not> b_closed b"
  shows "bus_Dispatch b now ctx cmd ss =
     foldr (\<lambda>m next ctx env. m ctx env next) (b_mws b)
       (\<lambda>ctx env. case decide (b_router b) env of
          ToHandler \<Rightarrow> syncTerminal b ctx env
        | ToTransport t \<Rightarrow> sendToTransport b t ctx env
        | BadStamp \<Rightarrow> go_panic (assertion_panic ''stamp.ForceTransportStamp''))
       ctx (NewEnvelope now cmd ss)"
proof -
  have "dispatchTerminal b = (\<lambda>ctx env. case decide (b_router b) env of
          ToHandler \<Rightarrow> syncTerminal b ctx env
        | ToTransport t \<Rightarrow> sendToTransport b t ctx env
        | BadStamp \<Rightarrow> go_panic (assertion_panic ''stamp.ForceTransportStamp''))"
    by (simp add: fun_eq_iff dispatchTerminal_decide)
  with assms show ?thesis by (simp add: bus_Dispatch_def buildChain_foldr)
qed

text \<open>A bus used for the witnesses: its state is the list of what happened.\<close>

definition sample_message :: "string \<Rightarrow> nat msg" where
  "sample_message t = \<lparr>m_rtype = t, m_name = None, m_value = 3\<rparr>"

definition sample_mbus :: "(string list, nat, nat) message_bus" where
  "sample_mbus =
     \<lparr>b_name = ''main'',
      b_handlers = [''Ask'' \<mapsto> queryWrapper Some ''Ask'' (\<lambda>ctx q s. (Ret (q + 1, None), s @ [''handled'']))],
      b_router = [''Job'' \<mapsto> ''queue''],
      b_transports = [''queue'' \<mapsto> (\<lambda>ctx env s. (Ret None, s @ [''sent'']))],
      b_mws = [\<lambda>ctx env next s. next ctx env (s @ [''mw''])],
      b_closed = False\<rparr>"

theorem dispatch_decides_inside_chain_witness:
  "bus_Dispatch sample_mbus 0 background (sample_message ''Job'') [] []
     = (Ret (\<lparr>dr_Envelope = Some (NewEnvelope 0 (sample_message ''Job'') []), dr_Async = True\<rparr>, None),
        [''mw'', ''sent''])"
proof -
  have "\<not> b_closed sample_mbus" by (simp add: sample_mbus_def)
  then show ?thesis
    by (subst dispatch_decides_inside_chain)
      (simp_all add: sample_mbus_def decide_def NewEnvelope_def HasStamp_def Last_def sample_message_def
        TypeNameOf_def sendToTransport_def go_bind_def)
qed

text \<open>a query never reaches a transport: if its type has a route it is refused before anything
  runs, and otherwise its outcome is the same whatever transports the bus has.\<close>

theorem query_never_async:
  "(Route (b_router b) q \<noteq> [] \<longrightarrow> \<not> b_closed b \<longrightarrow>
      (\<exists>e. bus_Query b now ctx q ss s = (Ret (None, Some e), s) \<and> errors_Is (Some e) ErrQueryCannotBeAsync))
   \<and> bus_Query (b\<lparr>b_transports := ts\<rparr>) now ctx q ss = bus_Query b now ctx q ss"
proof -
  have "syncTerminal (b\<lparr>b_transports := ts\<rparr>) = syncTerminal b"
    by (simp add: fun_eq_iff syncTerminal_def)
  then show ?thesis
    by (auto simp: bus_Query_def errors_Is_def)
qed

theorem query_never_async_witness:
  "\<exists>e. bus_Query sample_mbus 0 background (sample_message ''Job'') [] [] = (Ret (None, Some e), [])"
proof -
  have "Route (b_router sample_mbus) (sample_message ''Job'') \<noteq> []" "\<not> b_closed sample_mbus"
    by (simp_all add: Route_def sample_mbus_def sample_message_def TypeNameOf_def)
  then show ?thesis
    using query_never_async [of sample_mbus "sample_message ''Job''" 0 "background" "[]" "[]"]
    by blast
qed

section \<open>Registered handlers are reached\<close>

lemma register_Ret:
  "register tn h t = (Ret (), t') \<Longrightarrow> t tn = None \<and> t' = t(tn \<mapsto> h)"
  by (simp add: register_def split: if_splits)

text \<open>a query answers with what its handler returns: after a handler has been registered under the
  name of a message type, a query of that type on an open bus without middleware and without a route
  runs that handler once and returns its value or its error; registering the name again panics.\<close>

theorem query_returns_handler_answer:
  assumes "register (TypeNameOf q) (queryWrapper as_Q tQ h) t = (Ret (), t')"
    and "b_handlers b = t'" and "b_mws b = []" and "\<not> b_closed b" and "Route (b_router b) q = []"
    and "as_Q (m_value q) = Some v" and "h ctx v s = (Ret (answer, err), s')"
  shows "bus_Query b now ctx q ss s = (Ret (if err = None then Some answer else None, err), s')
       \<and> (\<exists>p. register (TypeNameOf q) h2 t' = (Panic p, t'))"
proof -
  have t': "t' (TypeNameOf q) = Some (queryWrapper as_Q tQ h)"
    using register_Ret [OF assms(1)] by simp
  then have "syncTerminal b ctx (NewEnvelope now q ss) s =
      (Ret (if err = None
            then (\<lparr>dr_Envelope = Some (WithStamp (ResultStamp answer) (NewEnvelope now q ss)), dr_Async = False\<rparr>, None)
            else (dr_zero, err)), s')"
    using assms(2,6,7)
    by (auto simp: syncTerminal_def Resolve_def NewEnvelope_def queryWrapper_def go_bind_def split: option.splits)
  then show ?thesis
    using assms(3,4,5) t'
    by (auto simp: bus_Query_def buildChain_def go_bind_def Last_WithStamp register_def split: option.splits)
qed

theorem query_returns_handler_answer_witness:
  "\<exists>t'. register ''Ask'' (queryWrapper Some ''Ask'' (\<lambda>ctx q s. (Ret (q + 1, None), s))) Map.empty = (Ret (), t')
     \<and> bus_Query (sample_mbus\<lparr>b_mws := [], b_handlers := t'\<rparr>) 0 background (sample_message ''Ask'') [] []
        = (Ret (Some 4, None), [])"
proof -
  let ?h = "\<lambda>ctx q s. (Ret (q + 1 :: nat, None), s :: string list)"
  let ?t = "Map.empty(''Ask'' \<mapsto> queryWrapper Some ''Ask'' ?h) :: (string list, nat, nat) handler_table"
  have r: "register (TypeNameOf (sample_message ''Ask'')) (queryWrapper Some ''Ask'' ?h) Map.empty = (Ret (), ?t)"
    by (simp add: register_def TypeNameOf_def sample_message_def)
  have "bus_Query (sample_mbus\<lparr>b_mws := [], b_handlers := ?t\<rparr>) 0 background (sample_message ''Ask'') [] []
      = (Ret (Some 4, None), [])"
    using query_returns_handler_answer [OF r, of "sample_mbus\<lparr>b_mws := [], b_handlers := ?t\<rparr>"]
    by (simp add: sample_mbus_def Route_def TypeNameOf_def sample_message_def)
  then show ?thesis using r by (auto simp: TypeNameOf_def sample_message_def)
qed

section \<open>A new bus has a transport for every route\<close>

lemma check_routes_Ret:
  "check_routes r ts names ks = Ret () \<longleftrightarrow> (\<forall>k \<in> set ks. ts (get_str r k) \<noteq> None)"
  by (induction ks) (auto simp: Let_def)

text \<open>\<^verbatim>\<open>NewBus\<close> returns only buses whose routes all lead to a registered transport, so on a bus as
  constructed a message sent along its route never meets \<^verbatim>\<open>ErrTransportNotFound\<close>.\<close>

theorem new_bus_routes_resolve:
  assumes "NewBus order names name opts = Ret b" and "ranges (order (b_router b)) (b_router b)"
    and "decide (b_router b) env = ToTransport t" and "Last NameForceTransport env = None"
  shows "b_transports b t \<noteq> None"
proof -
  have ok: "\<forall>k \<in> set (order (b_router b)). b_transports b (get_str (b_router b) k) \<noteq> None"
    using assms(1) check_routes_Ret [of "b_router b" "b_transports b" "names (b_transports b)" "order (b_router b)"]
    by (auto simp: NewBus_def Let_def split: exec.splits)
  have "b_router b (TypeNameOf (Message env)) = Some t"
    using assms(3,4) by (auto simp: decide_def split: option.splits if_splits)
  then have "TypeNameOf (Message env) \<in> set (order (b_router b))" "get_str (b_router b) (TypeNameOf (Message env)) = t"
    using rangesD(2) [OF assms(2)] by (auto simp: get_str_def)
  with ok show ?thesis by metis
qed

theorem new_bus_routes_resolve_witness:
  "\<exists>b. NewBus (\<lambda>r. [''Job'']) (\<lambda>ts. [''queue'']) ''main''
         [WithRouter [''Job'' \<mapsto> ''queue''], WithTransport ''queue'' (\<lambda>ctx env s. (Ret None, s @ [''sent'']))] = Ret b
     \<and> b_transports (b :: (string list, nat, nat) message_bus) ''queue'' \<noteq> None"
proof -
  let ?b = "\<lparr>b_name = ''main'', b_handlers = Map.empty, b_router = [''Job'' \<mapsto> ''queue''],
     b_transports = [''queue'' \<mapsto> (\<lambda>ctx env s. (Ret None, s @ [''sent'']))], b_mws = [], b_closed = False\<rparr>
     :: (string list, nat, nat) message_bus"
  have b: "NewBus (\<lambda>r. [''Job'']) (\<lambda>ts. [''queue'']) ''main''
      [WithRouter [''Job'' \<mapsto> ''queue''], WithTransport ''queue'' (\<lambda>ctx env s. (Ret None, s @ [''sent'']))] = Ret ?b"
    by (simp add: NewBus_def Let_def)
  have "b_transports ?b ''queue'' \<noteq> None"
    by (rule new_bus_routes_resolve [OF b, where env = "NewEnvelope 0 (sample_message ''Job'') []"])
      (simp_all add: ranges_def decide_def HasStamp_def Last_def NewEnvelope_def sample_message_def TypeNameOf_def)
  with b show ?thesis by blast
qed

end
