(* ===== verification/Messenger_Middleware.thy ===== *)
theory Messenger_Middleware
  imports Complex_Main Messenger_Bus
begin

text \<open>
  The middlewares of \<^verbatim>\<open>src/messenger/middleware\<close>: conditional, recovery, retry, timeout, validation,
  metrics and tracing.

  Of the Go runtime a middleware takes as arguments what it cannot determine: the current time, the
  outcome of waiting on a timer or a cancelled context (\<open>sleep\<close>), and the values of the random source
  (\<open>rnd\<close>, in the interval from 0 to 1). \<^verbatim>\<open>float64\<close> is \<^typ>\<open>real\<close>: rounding is not modelled. Prometheus
  and OpenTelemetry are arguments too. What goes to the logger is left out.
\<close>

section \<open>Conditional\<close>

datatype condition = Always | OnCommand | OnQuery | OnConsumed | OnAsync | OnSync | OtherCondition string

record ('s, 'p, 'v) conditional =
  c_inner :: "('s, 'p, 'v) middleware"
  c_cond :: condition
  c_registry :: "('s, 'p, 'v) handler_table option"

abbreviation NewConditional ::
  "('s, 'p, 'v) middleware \<Rightarrow> condition \<Rightarrow> ('s, 'p, 'v) handler_table option \<Rightarrow> ('s, 'p, 'v) conditional" where
  "NewConditional inner cond registry \<equiv> \<lparr>c_inner = inner, c_cond = cond, c_registry = registry\<rparr>"

abbreviation WhenCommand ::
  "('s, 'p, 'v) middleware \<Rightarrow> ('s, 'p, 'v) handler_table \<Rightarrow> ('s, 'p, 'v) conditional" where
  "WhenCommand inner registry \<equiv> NewConditional inner OnCommand (Some registry)"

abbreviation WhenQuery ::
  "('s, 'p, 'v) middleware \<Rightarrow> ('s, 'p, 'v) handler_table \<Rightarrow> ('s, 'p, 'v) conditional" where
  "WhenQuery inner registry \<equiv> NewConditional inner OnQuery (Some registry)"

abbreviation WhenConsumed :: "('s, 'p, 'v) middleware \<Rightarrow> ('s, 'p, 'v) conditional" where
  "WhenConsumed inner \<equiv> NewConditional inner OnConsumed None"

text \<open>The pair \<^verbatim>\<open>(isCmd, ok)\<close>.\<close>

definition resolveIsCommand :: "('s, 'p, 'v) conditional \<Rightarrow> ('p, 'v) envelope \<Rightarrow> bool \<times> bool" where
  "resolveIsCommand c env =
     (case c_registry c of
        None \<Rightarrow> (False, False)
      | Some registry \<Rightarrow>
          (case Resolve registry (Message env) of
             (Some h, None) \<Rightarrow> (IsCommand h, True)
           | _ \<Rightarrow> (False, False)))"

definition shouldExecute :: "('s, 'p, 'v) conditional \<Rightarrow> ('p, 'v) envelope \<Rightarrow> bool" where
  "shouldExecute c env =
     (case c_cond c of
        Always \<Rightarrow> True
      | OnCommand \<Rightarrow> (case resolveIsCommand c env of (isCmd, ok) \<Rightarrow> ok \<and> isCmd)
      | OnQuery \<Rightarrow> (case resolveIsCommand c env of (isCmd, ok) \<Rightarrow> ok \<and> \<not> isCmd)
      | OnConsumed \<Rightarrow> HasStamp NameReceived env
      | OnAsync \<Rightarrow> HasStamp NameSent env \<or> HasStamp NameReceived env
      | OnSync \<Rightarrow> \<not> HasStamp NameSent env \<and> \<not> HasStamp NameReceived env
      | OtherCondition _ \<Rightarrow> True)"

definition Conditional_Handle :: "('s, 'p, 'v) conditional \<Rightarrow> ('s, 'p, 'v) middleware" where
  "Conditional_Handle c ctx env next =
     (if \<not> shouldExecute c env then next ctx env else c_inner c ctx env next)"

section \<open>Recovery\<close>

text \<open>The deferred function replaces the panic by an error; the named result is still the zero value.\<close>

definition Recovery_Handle :: "('s, 'p, 'v) middleware" where
  "Recovery_Handle ctx env next s =
     (case next ctx env s of
        (Panic r, s') \<Rightarrow>
          (Ret (dr_zero, Some (errorf (''messenger: panic in handler for '' @ MessageTypeName env @ '': '' @ r))), s')
      | (Ret v, s') \<Rightarrow> (Ret v, s'))"

section \<open>Retry\<close>

record retry_config =
  MaxRetries :: int
  rc_Delay :: int
  Multiplier :: real
  MaxDelay :: int
  Jitter :: real

definition DefaultRetryConfig :: retry_config where
  "DefaultRetryConfig =
     \<lparr>MaxRetries = 3, rc_Delay = 100000000, Multiplier = 2, MaxDelay = 10000000000, Jitter = 1 / 10\<rparr>"

text \<open>\<^verbatim>\<open>time.Duration(d)\<close> truncates towards zero.\<close>

definition truncate_real :: "real \<Rightarrow> int" where
  "truncate_real d = (if d < 0 then \<lceil>d\<rceil> else \<lfloor>d\<rfloor>)"

definition backoff :: "retry_config \<Rightarrow> real \<Rightarrow> nat \<Rightarrow> int" where
  "backoff cfg r attempt =
     (let d = real_of_int (rc_Delay cfg) * Multiplier cfg ^ (attempt - 1);
          d = (if Jitter cfg > 0 then d + d * Jitter cfg * (r * 2 - 1) else d);
          d = (if d > real_of_int (MaxDelay cfg) then real_of_int (MaxDelay cfg) else d)
      in truncate_real d)"

text \<open>The loop: \<open>left\<close> attempts remain, the next one is number \<open>attempt\<close>.\<close>

fun retry_loop ::
  "retry_config \<Rightarrow> (mctx \<Rightarrow> int \<Rightarrow> ('s, goerr option) go) \<Rightarrow> (nat \<Rightarrow> real) \<Rightarrow> ('s, 'p, 'v) next_fn \<Rightarrow>
   mctx \<Rightarrow> nat \<Rightarrow> nat \<Rightarrow> ('p, 'v) envelope \<Rightarrow> goerr \<Rightarrow>
   ('s, ('p, 'v) dispatch_result \<times> goerr option) go" where
  "retry_loop cfg sleep rnd next ctx 0 attempt env lastErr = go_return (dr_zero, Some lastErr)"
| "retry_loop cfg sleep rnd next ctx (Suc left) attempt env lastErr =
     go_bind (sleep ctx (backoff cfg (rnd attempt) attempt)) (\<lambda>sleepErr.
       case sleepErr of
         Some e \<Rightarrow> go_return (dr_zero, Some e)
       | None \<Rightarrow>
           (let env' = WithStamp (RedeliveryStamp (int attempt) (err_text lastErr)) env in
            go_bind (next ctx env') (\<lambda>(result, err).
              case err of
                None \<Rightarrow> go_return (result, None)
              | Some e \<Rightarrow> retry_loop cfg sleep rnd next ctx left (Suc attempt) env' e)))"

definition Retry_Handle ::
  "retry_config \<Rightarrow> (mctx \<Rightarrow> int \<Rightarrow> ('s, goerr option) go) \<Rightarrow> (nat \<Rightarrow> real) \<Rightarrow> ('s, 'p, 'v) middleware" where
  "Retry_Handle cfg sleep rnd ctx env next =
     go_bind (next ctx env) (\<lambda>(result, err).
       case err of
         None \<Rightarrow> go_return (result, None)
       | Some e \<Rightarrow> retry_loop cfg sleep rnd next ctx (nat (MaxRetries cfg)) 1 env e)"

section \<open>Timeout\<close>

record timeout =
  defaultTimeout :: int
  perType :: "string \<rightharpoonup> int"

definition NewTimeout :: "int \<Rightarrow> timeout" where
  "NewTimeout d = \<lparr>defaultTimeout = d, perType = Map.empty\<rparr>"

definition WithTypeTimeout :: "string \<Rightarrow> int \<Rightarrow> timeout \<Rightarrow> timeout" where
  "WithTypeTimeout msgType d m = m\<lparr>perType := (perType m)(msgType \<mapsto> d)\<rparr>"

text \<open>\<^verbatim>\<open>context.WithTimeout\<close>: the deadline of the parent stays if it is earlier.\<close>

definition ctx_WithTimeout :: "int \<Rightarrow> int \<Rightarrow> mctx \<Rightarrow> mctx" where
  "ctx_WithTimeout now d ctx =
     (case mc_deadline ctx of
        Some cur \<Rightarrow> if cur < now + d then ctx else ctx\<lparr>mc_deadline := Some (now + d)\<rparr>
      | None \<Rightarrow> ctx\<lparr>mc_deadline := Some (now + d)\<rparr>)"

definition Timeout_Handle :: "int \<Rightarrow> timeout \<Rightarrow> ('s, 'p, 'v) middleware" where
  "Timeout_Handle now m ctx env next =
     (let d = (case perType m (MessageTypeName env) of Some d \<Rightarrow> d | None \<Rightarrow> defaultTimeout m)
      in next (ctx_WithTimeout now d ctx) env)"

section \<open>Validation\<close>

definition Validation_Handle :: "('p msg \<Rightarrow> ('s, goerr option) go) \<Rightarrow> ('s, 'p, 'v) middleware" where
  "Validation_Handle validate ctx env next =
     go_bind (validate (Message env)) (\<lambda>err.
       case err of
         Some e \<Rightarrow>
           go_return (dr_zero, Some (errorf_w (''messenger: validation failed for '' @ MessageTypeName env) e))
       | None \<Rightarrow> next ctx env)"

section \<open>Metrics\<close>

record 's metrics =
  mt_dispatches_Inc :: "string \<Rightarrow> string \<Rightarrow> string \<Rightarrow> ('s, unit) go"
  mt_duration_Observe :: "string \<Rightarrow> string \<Rightarrow> ('s, unit) go"
  mt_busName :: string

definition Metrics_Handle :: "'s metrics \<Rightarrow> ('s, 'p, 'v) middleware" where
  "Metrics_Handle m ctx env next =
     (let msgType = MessageTypeName env in
      go_bind (next ctx env) (\<lambda>(result, err).
      go_bind (mt_duration_Observe m msgType (mt_busName m)) (\<lambda>_.
        (let status = (if err \<noteq> None then ''error'' else if dr_Async result then ''async_sent'' else ''success'')
         in go_bind (mt_dispatches_Inc m msgType (mt_busName m) status) (\<lambda>_. go_return (result, err))))))"

section \<open>Tracing\<close>

text \<open>The tracer starts a span and ends it; the propagator reads a context from headers and writes
  one to headers. A span answers with its trace and span id.\<close>

record ('s, 'sp) tracing =
  tr_Start :: "mctx \<Rightarrow> string \<Rightarrow> ('s, mctx \<times> 'sp) go"
  tr_End :: "'sp \<Rightarrow> goerr option \<Rightarrow> 's \<Rightarrow> 's"
  tr_Extract :: "mctx \<Rightarrow> (string \<rightharpoonup> string) \<Rightarrow> mctx"
  tr_Inject :: "mctx \<Rightarrow> (string \<rightharpoonup> string)"
  tr_TraceID :: "'sp \<Rightarrow> string"
  tr_SpanID :: "'sp \<Rightarrow> string"

definition extractParentContext :: "('s, 'sp) tracing \<Rightarrow> mctx \<Rightarrow> ('p, 'v) envelope \<Rightarrow> mctx" where
  "extractParentContext m ctx env =
     (case Last NameTrace env of
        Some (TraceStamp t sp headers) \<Rightarrow> if headers = Map.empty then ctx else tr_Extract m ctx headers
      | _ \<Rightarrow> ctx)"

definition injectTraceContext ::
  "('s, 'sp) tracing \<Rightarrow> mctx \<Rightarrow> ('p, 'v) envelope \<Rightarrow> 'sp \<Rightarrow> ('p, 'v) envelope" where
  "injectTraceContext m ctx env sp =
     WithStamp (TraceStamp (tr_TraceID m sp) (tr_SpanID m sp) (tr_Inject m ctx)) env"

text \<open>\<^verbatim>\<open>defer span.End()\<close> runs on a panic too.\<close>

definition Tracing_Handle :: "('s, 'sp) tracing \<Rightarrow> ('s, 'p, 'v) middleware" where
  "Tracing_Handle m ctx env next =
     (let msgType = MessageTypeName env;
          isConsumed = HasStamp NameReceived env;
          ctx1 = (if isConsumed then extractParentContext m ctx env else ctx);
          prefix = (if isConsumed then ''messenger.consume '' else ''messenger.dispatch '')
      in go_bind (tr_Start m ctx1 (prefix @ msgType)) (\<lambda>(ctx2, sp) s.
           case next ctx2 env s of
             (Panic p, s') \<Rightarrow> (Panic p, tr_End m sp None s')
           | (Ret (result, Some e), s') \<Rightarrow> (Ret (result, Some e), tr_End m sp (Some e) s')
           | (Ret (result, None), s') \<Rightarrow>
               (Ret (if dr_Async result
                     then result\<lparr>dr_Envelope := map_option (\<lambda>env'. injectTraceContext m ctx2 env' sp) (dr_Envelope result)\<rparr>
                     else result, None),
                tr_End m sp None s')))"

section \<open>Recovery at the head of the chain\<close>

lemma Recovery_Handle_Ret: "\<exists>r s'. Recovery_Handle ctx env next s = (Ret r, s')"
  by (auto simp: Recovery_Handle_def split: prod.splits exec.splits)

text \<open>with \<^verbatim>\<open>Recovery\<close> as the first middleware, dispatching never panics, whatever the other
  middlewares, the handlers, the transports and the stamps are.\<close>

theorem recovery_contains_panics:
  assumes "b_mws b = Recovery_Handle # ms"
  shows "\<exists>r s'. bus_Dispatch b now ctx cmd ss s = (Ret r, s')"
  using assms Recovery_Handle_Ret
  by (auto simp: bus_Dispatch_def bus_chain.build_Cons)

theorem recovery_contains_panics_witness:
  "\<exists>r s'. bus_Dispatch (sample_mbus\<lparr>b_mws := [Recovery_Handle, \<lambda>ctx env next. go_panic ''boom'']\<rparr>) 0
     background (sample_message ''Job'') [] [] = (Ret r, s')"
  by (rule recovery_contains_panics) simp

section \<open>Retry calls until the first success\<close>

text \<open>A continuation whose answer depends on how often it has been called; it records the envelopes.\<close>

definition scripted ::
  "(nat \<Rightarrow> ('p, 'v) dispatch_result \<times> goerr option) \<Rightarrow> (('p, 'v) envelope list, 'p, 'v) next_fn" where
  "scripted outs ctx env trail = (Ret (outs (length trail)), trail @ [env])"

text \<open>The envelope of call \<open>i\<close>: one redelivery stamp for every failure before it.\<close>

fun retry_env ::
  "(nat \<Rightarrow> ('p, 'v) dispatch_result \<times> goerr option) \<Rightarrow> ('p, 'v) envelope \<Rightarrow> nat \<Rightarrow> ('p, 'v) envelope" where
  "retry_env outs env 0 = env"
| "retry_env outs env (Suc i) =
     WithStamp (RedeliveryStamp (int (Suc i)) (case snd (outs i) of Some e \<Rightarrow> err_text e | None \<Rightarrow> [])) (retry_env outs env i)"

lemma retry_loop_scripted:
  assumes "\<And>d s. sleep ctx d s = (Ret None, s)"
    and "snd (outs i) = Some e" and "i < k" and "k \<le> i + left"
    and "\<forall>j < k. snd (outs j) \<noteq> None" and "k < i + left \<Longrightarrow> snd (outs k) = None"
  shows "retry_loop cfg sleep rnd (scripted outs) ctx left (Suc i) (retry_env outs env i) e
           (map (retry_env outs env) [0..<Suc i])
       = (Ret (if snd (outs k) = None then outs k else (dr_zero, snd (outs k))), map (retry_env outs env) [0..<Suc k])"
  using assms(2-)
proof (induction left arbitrary: i e)
  case (Suc left)
  let ?trail = "map (retry_env outs env) [0..<Suc (Suc i)]"
  obtain r err where o: "outs (Suc i) = (r, err)" by fastforce
  have step: "retry_loop cfg sleep rnd (scripted outs) ctx (Suc left) (Suc i) (retry_env outs env i) e
           (map (retry_env outs env) [0..<Suc i])
      = (case err of None \<Rightarrow> (Ret (r, None), ?trail)
         | Some e' \<Rightarrow> retry_loop cfg sleep rnd (scripted outs) ctx left (Suc (Suc i)) (retry_env outs env (Suc i)) e' ?trail)"
    using Suc.prems(1) o assms(1)
    by (simp add: go_bind_def scripted_def Let_def split: option.splits)
  show ?case
  proof (cases "Suc i = k")
    case True
    show ?thesis
    proof (cases err)
      case None
      with True step o show ?thesis by simp
    next
      case (Some e')
      with True o Suc.prems have "left = 0" by (cases left) auto
      with True Some step o show ?thesis by simp
    qed
  next
    case False
    with Suc.prems(2,4) o obtain e' where "err = Some e'" "snd (outs (Suc i)) = Some e'"
      by (cases err) (auto dest: spec [of _ "Suc i"])
    with step Suc.IH [of "Suc i" e'] Suc.prems False show ?thesis by simp
  qed
qed simp

text \<open>\<^verbatim>\<open>Retry\<close> calls the rest of the chain until the first success, at most \<^verbatim>\<open>MaxRetries + 1\<close>
  times, and answers with that success or else with the last error; call \<open>i\<close> gets the envelope with a
  redelivery stamp for each of the \<open>i\<close> failures before it. Here the waits are not cut short.\<close>

theorem retry_until_first_success:
  assumes "\<And>d s. sleep ctx d s = (Ret None, s)"
    and "k \<le> nat (MaxRetries cfg)" and "\<forall>j < k. snd (outs j) \<noteq> None"
    and "k < nat (MaxRetries cfg) \<Longrightarrow> snd (outs k) = None"
  shows "Retry_Handle cfg sleep rnd ctx env (scripted outs) []
       = (Ret (if snd (outs k) = None then outs k else (dr_zero, snd (outs k))), map (retry_env outs env) [0..<Suc k])"
proof -
  obtain r err where o: "outs 0 = (r, err)" by fastforce
  have start: "Retry_Handle cfg sleep rnd ctx env (scripted outs) []
      = (case err of None \<Rightarrow> (Ret (r, None), [env])
         | Some e \<Rightarrow> retry_loop cfg sleep rnd (scripted outs) ctx (nat (MaxRetries cfg)) 1 env e [env])"
    using o by (simp add: Retry_Handle_def go_bind_def scripted_def split: option.splits)
  show ?thesis
  proof (cases "k = 0")
    case True
    with start o assms(2,4) show ?thesis by (cases "nat (MaxRetries cfg)") (auto split: option.splits)
  next
    case False
    with assms(3) o obtain e where "err = Some e" "snd (outs 0) = Some e" by (cases err) auto
    with start retry_loop_scripted [of sleep ctx outs 0 e k "nat (MaxRetries cfg)" cfg rnd env] assms False
    show ?thesis by simp
  qed
qed

theorem retry_until_first_success_witness:
  "Retry_Handle DefaultRetryConfig (\<lambda>ctx d s. (Ret None, s)) (\<lambda>n. 1 / 2) background
     (NewEnvelope 0 (sample_message ''Job'') [])
     (scripted (\<lambda>n. (dr_zero, if n < 2 then Some ErrBusClosed else None))) []
   = (Ret (dr_zero, None),
      map (retry_env (\<lambda>n. (dr_zero, if n < 2 then Some ErrBusClosed else None)) (NewEnvelope 0 (sample_message ''Job'') [])) [0..<3])"
  using retry_until_first_success [of "\<lambda>ctx d s. (Ret None, s)" "background" 2 DefaultRetryConfig
      "\<lambda>n. (dr_zero, if n < 2 then Some ErrBusClosed else None)" "\<lambda>n. 1 / 2" "NewEnvelope 0 (sample_message ''Job'') []"]
  by (simp add: DefaultRetryConfig_def numeral_3_eq_3)

text \<open>the wait before a retry lies between zero and \<^verbatim>\<open>MaxDelay\<close>, for every draw of the random
  source, when the configured delays and the multiplier are not negative and the jitter is at most 1.\<close>

theorem backoff_bounds:
  assumes "0 \<le> rc_Delay cfg" "0 \<le> Multiplier cfg" "0 \<le> MaxDelay cfg" "Jitter cfg \<le> 1" "0 \<le> r" "r < 1"
  shows "0 \<le> backoff cfg r attempt \<and> backoff cfg r attempt \<le> MaxDelay cfg"
proof -
  let ?d = "real_of_int (rc_Delay cfg) * Multiplier cfg ^ (attempt - 1)"
  let ?j = "if Jitter cfg > 0 then ?d + ?d * Jitter cfg * (r * 2 - 1) else ?d"
  have d: "0 \<le> ?d" using assms by simp
  have "0 \<le> 1 + Jitter cfg * (r * 2 - 1)" if "Jitter cfg > 0"
  proof -
    have "Jitter cfg * (1 - r * 2) \<le> Jitter cfg * 1" using that assms by (intro mult_left_mono) simp_all
    then show ?thesis using assms(4) by (simp add: algebra_simps)
  qed
  then have "0 \<le> ?d * (1 + Jitter cfg * (r * 2 - 1))" if "Jitter cfg > 0"
    using mult_nonneg_nonneg [OF d] that by blast
  then have "0 \<le> ?j" using d by (auto simp: algebra_simps)
  moreover have "backoff cfg r attempt = truncate_real (min ?j (real_of_int (MaxDelay cfg)))"
    by (simp add: backoff_def Let_def min_def)
  ultimately show ?thesis using assms(3) by (simp add: truncate_real_def floor_le_iff min_def)
qed

theorem backoff_bounds_witness:
  "0 \<le> backoff DefaultRetryConfig (1 / 4) 3 \<and> backoff DefaultRetryConfig (1 / 4) 3 \<le> 10000000000"
  using backoff_bounds [of DefaultRetryConfig "1 / 4" 3] by (simp add: DefaultRetryConfig_def)

section \<open>Timeout and validation guard what is inside\<close>

definition deadline_within :: "mctx \<Rightarrow> int \<Rightarrow> bool" where
  "deadline_within ctx t \<longleftrightarrow> (\<exists>d. mc_deadline ctx = Some d \<and> d \<le> t)"

text \<open>The rest of the chain runs under a deadline no later than the timeout of the message type, nor
  than the one the caller had.\<close>

lemma ctx_WithTimeout_within: "deadline_within (ctx_WithTimeout now d ctx) (now + d)"
  by (auto simp: deadline_within_def ctx_WithTimeout_def split: option.splits)

lemma ctx_WithTimeout_keeps: "deadline_within ctx t \<Longrightarrow> deadline_within (ctx_WithTimeout now d ctx) t"
  by (auto simp: deadline_within_def ctx_WithTimeout_def split: option.splits)

lemma Timeout_Handle_deadline:
  "\<exists>ctx'. Timeout_Handle now m ctx env next = next ctx' env
     \<and> deadline_within ctx' (now + (case perType m (MessageTypeName env) of Some d \<Rightarrow> d | None \<Rightarrow> defaultTimeout m))
     \<and> (\<forall>t. deadline_within ctx t \<longrightarrow> deadline_within ctx' t)"
  unfolding Timeout_Handle_def Let_def
  by (intro exI conjI allI impI, rule refl) (simp_all add: ctx_WithTimeout_within ctx_WithTimeout_keeps)

lemma Validation_Handle_rejects:
  "validate (Message env) s = (Ret (Some e), s') \<Longrightarrow>
   \<exists>e'. Validation_Handle validate ctx env next s = (Ret (dr_zero, Some e'), s')"
  by (simp add: Validation_Handle_def go_bind_def)

section \<open>Tracing stamps what has already been sent\<close>

text \<open>the trace context of an asynchronous dispatch is stamped on the envelope in the result, after
  the rest of the chain has run: what a transport at the end of the chain is handed is the envelope
  \<^verbatim>\<open>Tracing\<close> was given, without the stamp.\<close>

theorem tracing_stamps_after_send:
  assumes "\<And>c n s. \<exists>c' sp'. tr_Start m c n s = (Ret (c', sp'), s)" and "\<And>sp' e s. tr_End m sp' e s = s"
    and "b_transports b t = Some (\<lambda>ctx env trail. (Ret None, trail @ [env]))"
  shows "\<exists>ctx' sp'. Tracing_Handle m ctx env (sendToTransport b t) trail
     = (Ret (\<lparr>dr_Envelope = Some (injectTraceContext m ctx' env sp'), dr_Async = True\<rparr>, None), trail @ [env])"
proof -
  let ?c = "if HasStamp NameReceived env then extractParentContext m ctx env else ctx"
  let ?n = "(if HasStamp NameReceived env then ''messenger.consume '' else ''messenger.dispatch '') @ MessageTypeName env"
  obtain c' sp' where "tr_Start m ?c ?n trail = (Ret (c', sp'), trail)" using assms(1) by blast
  then have "Tracing_Handle m ctx env (sendToTransport b t) trail
     = (Ret (\<lparr>dr_Envelope = Some (injectTraceContext m c' env sp'), dr_Async = True\<rparr>, None), trail @ [env])"
    using assms(2,3) by (simp add: Tracing_Handle_def Let_def go_bind_def sendToTransport_def)
  then show ?thesis by blast
qed

definition sample_tracing :: "((nat, nat) envelope list, nat) tracing" where
  "sample_tracing =
     \<lparr>tr_Start = (\<lambda>c n s. (Ret (c, 7), s)), tr_End = (\<lambda>sp e s. s), tr_Extract = (\<lambda>c h. c), tr_Inject = (\<lambda>c. Map.empty),
      tr_TraceID = (\<lambda>sp. ''t''), tr_SpanID = (\<lambda>sp. ''s'')\<rparr>"

definition recording_bus :: "((nat, nat) envelope list, nat, nat) message_bus" where
  "recording_bus =
     \<lparr>b_name = ''main'', b_handlers = Map.empty, b_router = [''Job'' \<mapsto> ''queue''],
      b_transports = [''queue'' \<mapsto> (\<lambda>ctx env trail. (Ret None, trail @ [env]))], b_mws = [], b_closed = False\<rparr>"

theorem tracing_stamps_after_send_witness:
  "\<exists>ctx' sp'. Tracing_Handle sample_tracing background (NewEnvelope 0 (sample_message ''Job'') [])
       (sendToTransport recording_bus ''queue'') []
     = (Ret (\<lparr>dr_Envelope = Some (injectTraceContext sample_tracing ctx' (NewEnvelope 0 (sample_message ''Job'') []) sp'),
             dr_Async = True\<rparr>, None), [NewEnvelope 0 (sample_message ''Job'') []])"
proof -
  have "\<exists>ctx' sp'. Tracing_Handle sample_tracing background (NewEnvelope 0 (sample_message ''Job'') [])
       (sendToTransport recording_bus ''queue'') []
     = (Ret (\<lparr>dr_Envelope = Some (injectTraceContext sample_tracing ctx' (NewEnvelope 0 (sample_message ''Job'') []) sp'),
             dr_Async = True\<rparr>, None), [] @ [NewEnvelope 0 (sample_message ''Job'') []])"
    by (rule tracing_stamps_after_send) (simp_all add: sample_tracing_def recording_bus_def)
  then show ?thesis by simp
qed

end
