(* ===== verification/Messenger_Transport.thy ===== *)
theory Messenger_Transport
  imports Messenger_Bus "HOL-Library.Word" "HOL-Library.Multiset"
begin

text \<open>
  The transports of \<^verbatim>\<open>src/messenger/transport\<close> that need no store: the synchronous one, the circuit
  breaker around a sender, the factory registry and the in-memory transport, with the contract a
  receiver gives its consumer.

  A channel is the list of its elements with its capacity. An operation that can wait on a channel
  answers \<open>None\<close> in the states in which it waits. The breaker of \<^verbatim>\<open>gobreaker\<close> is an argument: its
  \<^verbatim>\<open>Execute\<close> and the two errors it answers with when it does not call.
\<close>

section \<open>Receivers\<close>

record ('s, 'p, 'v) receiver =
  rv_Get :: "mctx \<Rightarrow> ('s, ('p, 'v) envelope list \<times> goerr option) go"
  rv_Ack :: "mctx \<Rightarrow> ('p, 'v) envelope \<Rightarrow> ('s, goerr option) go"
  rv_Reject :: "mctx \<Rightarrow> ('p, 'v) envelope \<Rightarrow> goerr option \<Rightarrow> ('s, goerr option) go"

abbreviation ErrNotSupported :: goerr where
  "ErrNotSupported \<equiv> ErrorsNew ''transport: operation not supported''"

section \<open>The synchronous transport\<close>

definition sync_Send :: "('s, 'p, 'v) sender" where
  "sync_Send ctx env = go_return (Some ErrNotSupported)"

definition sync_receiver :: "('s, 'p, 'v) receiver" where
  "sync_receiver =
     \<lparr>rv_Get = (\<lambda>ctx. go_return ([], Some ErrNotSupported)),
      rv_Ack = (\<lambda>ctx env. go_return (Some ErrNotSupported)),
      rv_Reject = (\<lambda>ctx env reason. go_return (Some ErrNotSupported))\<rparr>"

definition sync_Supports :: "string \<Rightarrow> bool" where
  "sync_Supports dsn = has_prefix dsn ''sync://''"

section \<open>Factories\<close>

datatype go_any = AnyInt int | AnyString string | AnyOther

record 't factory =
  f_Supports :: "string \<Rightarrow> bool"
  f_Create :: "string \<Rightarrow> (string \<rightharpoonup> go_any) \<Rightarrow> 't option \<times> goerr option"

definition factory_Register :: "'t factory \<Rightarrow> 't factory list \<Rightarrow> 't factory list" where
  "factory_Register f fs = fs @ [f]"

fun factory_Create ::
  "'t factory list \<Rightarrow> string \<Rightarrow> (string \<rightharpoonup> go_any) \<Rightarrow> 't option \<times> goerr option" where
  "factory_Create [] dsn opts = (None, Some (errorf (''transport: no factory supports DSN '' @ quote dsn)))"
| "factory_Create (f # fs) dsn opts =
     (if f_Supports f dsn then f_Create f dsn opts else factory_Create fs dsn opts)"

section \<open>The circuit breaker\<close>

record breaker_settings =
  bs_Name :: string
  bs_MaxRequests :: nat
  bs_Interval :: int
  bs_Timeout :: int
  bs_ReadyToTrip :: "nat \<Rightarrow> bool"

record ('s, 'p, 'v) circuit_sender =
  cs_inner :: "('s, 'p, 'v) sender"
  cs_execute :: "('s, goerr option) go \<Rightarrow> ('s, goerr option) go"
  cs_name :: string
  cs_fallback :: "('s, 'p, 'v) sender option"

datatype ('s, 'p, 'v) circuit_option =
    WithFallback "('s, 'p, 'v) sender"
  | WithBreakerSettings breaker_settings

fun circuit_options ::
  "('s, 'p, 'v) circuit_option list \<Rightarrow> ('s, 'p, 'v) sender option \<Rightarrow> breaker_settings option \<Rightarrow>
   ('s, 'p, 'v) sender option \<times> breaker_settings option" where
  "circuit_options [] fb st = (fb, st)"
| "circuit_options (WithFallback s # os) fb st = circuit_options os (Some s) st"
| "circuit_options (WithBreakerSettings b # os) fb st = circuit_options os fb (Some b)"

abbreviation default_breaker_settings :: "string \<Rightarrow> breaker_settings" where
  "default_breaker_settings name \<equiv>
     \<lparr>bs_Name = ''messenger.transport.'' @ name, bs_MaxRequests = 3, bs_Interval = 60 * 1000000000,
      bs_Timeout = 30 * 1000000000, bs_ReadyToTrip = (\<lambda>consecutiveFailures. consecutiveFailures \<ge> 5)\<rparr>"

text \<open>\<open>newBreaker\<close> is \<^verbatim>\<open>gobreaker.NewCircuitBreaker\<close>.\<close>

definition NewCircuitSender ::
  "(breaker_settings \<Rightarrow> ('s, goerr option) go \<Rightarrow> ('s, goerr option) go) \<Rightarrow> string \<Rightarrow> ('s, 'p, 'v) sender \<Rightarrow>
   ('s, 'p, 'v) circuit_option list \<Rightarrow> ('s, 'p, 'v) circuit_sender" where
  "NewCircuitSender newBreaker name inner opts =
     (case circuit_options opts None None of
        (fallback, st) \<Rightarrow>
          (let settings = (case st of Some b \<Rightarrow> b | None \<Rightarrow> default_breaker_settings name)
           in \<lparr>cs_inner = inner, cs_execute = newBreaker settings, cs_name = bs_Name settings,
               cs_fallback = fallback\<rparr>))"

definition circuit_Send ::
  "goerr \<Rightarrow> goerr \<Rightarrow> ('s, 'p, 'v) circuit_sender \<Rightarrow> ('s, 'p, 'v) sender" where
  "circuit_Send errOpenState errTooManyRequests cs ctx env =
     go_bind (cs_execute cs (cs_inner cs ctx env)) (\<lambda>err.
       case err of
         None \<Rightarrow> go_return None
       | Some e \<Rightarrow>
           if errors_Is (Some e) errOpenState \<or> errors_Is (Some e) errTooManyRequests
           then (case cs_fallback cs of
                   Some fallback \<Rightarrow> fallback ctx env
                 | None \<Rightarrow>
                     go_return (Some (Errorf [Verb_w ErrCircuitOpen, Lit ('': transport '' @ quote (cs_name cs))])))
           else go_return (Some (errorf_w (''circuit sender '' @ quote (cs_name cs)) e)))"

section \<open>The in-memory transport\<close>

record ('p, 'v) memory =
  mt_name :: string
  mt_ch :: "('p, 'v) envelope list"
  mt_cap :: nat
  mt_pending :: "string \<rightharpoonup> ('p, 'v) envelope"
  mt_closed :: bool
  pendingSeq :: "64 word"

abbreviation defaultBufferSize :: nat where
  "defaultBufferSize \<equiv> 1000"

datatype memory_option = WithBufferSize int | WithName string

text \<open>\<^verbatim>\<open>make\<close> of a channel panics on a negative size. The sequence number is a variable of the package:
  \<open>seq\<close> is its value.\<close>

fun memory_options :: "memory_option list \<Rightarrow> ('p, 'v) memory \<Rightarrow> ('p, 'v) memory exec" where
  "memory_options [] t = Ret t"
| "memory_options (WithBufferSize n # os) t =
     (if n < 0 then Panic ''makechan: size out of range'' else memory_options os (t\<lparr>mt_ch := [], mt_cap := nat n\<rparr>))"
| "memory_options (WithName n # os) t = memory_options os (t\<lparr>mt_name := n\<rparr>)"

definition memory_New :: "64 word \<Rightarrow> memory_option list \<Rightarrow> ('p, 'v) memory exec" where
  "memory_New seq opts =
     memory_options opts
       \<lparr>mt_name = ''memory'', mt_ch = [], mt_cap = defaultBufferSize, mt_pending = Map.empty, mt_closed = False,
        pendingSeq = seq\<rparr>"

definition pendingKey :: "('p, 'v) envelope \<Rightarrow> string exec" where
  "pendingKey env =
     (case Last NameMemoryID env of
        Some (MemoryIDStamp i) \<Rightarrow> Ret i
      | Some _ \<Rightarrow> Panic (assertion_panic ''memory.memoryIDStamp'')
      | None \<Rightarrow> Ret (MessageTypeName env @ '':'' @ itoa (env_createdAt env)))"

abbreviation mem_closed_err :: "('p, 'v) memory \<Rightarrow> goerr" where
  "mem_closed_err t \<equiv> errorf (''transport: '' @ mt_name t @ '' is closed'')"

text \<open>\<^verbatim>\<open>Send\<close> up to the channel operation, and the channel operation: another goroutine can run in
  between. A send on a closed channel panics, also one that is already waiting.\<close>

definition mem_Send_prepare :: "('p, 'v) envelope \<Rightarrow> ('p, 'v) memory \<Rightarrow> (goerr + ('p, 'v) envelope) \<times> ('p, 'v) memory" where
  "mem_Send_prepare env t =
     (if mt_closed t then (Inl (mem_closed_err t), t)
      else let n = pendingSeq t + 1
           in (Inr (WithStamp (MemoryIDStamp (nat_digits (unat n))) env), t\<lparr>pendingSeq := n\<rparr>))"

abbreviation mem_Send_push :: "('p, 'v) envelope \<Rightarrow> ('p, 'v) memory \<Rightarrow> (goerr option exec \<times> ('p, 'v) memory) option" where
  "mem_Send_push env t \<equiv>
     (if mt_closed t then Some (Panic ''send on closed channel'', t)
      else if length (mt_ch t) < mt_cap t then Some (Ret None, t\<lparr>mt_ch := mt_ch t @ [env]\<rparr>)
      else None)"

definition mem_Send :: "('p, 'v) envelope \<Rightarrow> ('p, 'v) memory \<Rightarrow> (goerr option exec \<times> ('p, 'v) memory) option" where
  "mem_Send env t =
     (case mem_Send_prepare env t of
        (Inl e, t') \<Rightarrow> Some (Ret (Some e), t')
      | (Inr env', t') \<Rightarrow> mem_Send_push env' t')"

text \<open>\<^verbatim>\<open>Get\<close> selects between the context and the channel. \<open>done\<close> is the error of the context if it is
  cancelled; \<open>pick\<close> is the choice of \<^verbatim>\<open>select\<close> when both cases are ready.\<close>

definition mem_receive ::
  "('p, 'v) memory \<Rightarrow> ((('p, 'v) envelope list \<times> goerr option) exec \<times> ('p, 'v) memory) option" where
  "mem_receive t =
     (case mt_ch t of
        [] \<Rightarrow> if mt_closed t then Some (Ret ([], None), t) else None
      | env # rest \<Rightarrow>
          (case pendingKey env of
             Panic p \<Rightarrow> Some (Panic p, t\<lparr>mt_ch := rest\<rparr>)
           | Ret key \<Rightarrow> Some (Ret ([env], None), t\<lparr>mt_ch := rest, mt_pending := (mt_pending t)(key \<mapsto> env)\<rparr>)))"

definition mem_Get ::
  "goerr option \<Rightarrow> bool \<Rightarrow> ('p, 'v) memory \<Rightarrow> ((('p, 'v) envelope list \<times> goerr option) exec \<times> ('p, 'v) memory) option" where
  "mem_Get done pick t =
     (case done of
        Some e \<Rightarrow> if pick \<or> mem_receive t = None then Some (Ret ([], Some e), t) else mem_receive t
      | None \<Rightarrow> mem_receive t)"

definition mem_Ack :: "mctx \<Rightarrow> ('p, 'v) envelope \<Rightarrow> (('p, 'v) memory, goerr option) go" where
  "mem_Ack ctx env t =
     (case pendingKey env of
        Panic p \<Rightarrow> (Panic p, t)
      | Ret key \<Rightarrow> (Ret None, t\<lparr>mt_pending := (mt_pending t)(key := None)\<rparr>))"

definition mem_Reject :: "mctx \<Rightarrow> ('p, 'v) envelope \<Rightarrow> goerr option \<Rightarrow> (('p, 'v) memory, goerr option) go" where
  "mem_Reject ctx env reason t =
     (case pendingKey env of
        Panic p \<Rightarrow> (Panic p, t)
      | Ret key \<Rightarrow>
          (let t = t\<lparr>mt_pending := (mt_pending t)(key := None)\<rparr> in
           if mt_closed t then (Ret (Some (mem_closed_err t)), t)
           else if length (mt_ch t) < mt_cap t then (Ret None, t\<lparr>mt_ch := mt_ch t @ [env]\<rparr>)
           else (Ret (Some (errorf (''transport: '' @ mt_name t @ '' buffer full, message dropped on reject''))), t)))"

definition mem_Close :: "('p, 'v) memory \<Rightarrow> ('p, 'v) memory" where
  "mem_Close t = t\<lparr>mt_closed := True\<rparr>"

abbreviation mem_Len :: "('p, 'v) memory \<Rightarrow> nat" where
  "mem_Len t \<equiv> length (mt_ch t)"

definition memory_Supports :: "string \<Rightarrow> bool" where
  "memory_Supports dsn = has_prefix dsn ''memory://''"

definition memory_Create :: "64 word \<Rightarrow> (string \<rightharpoonup> go_any) \<Rightarrow> ('p, 'v) memory exec" where
  "memory_Create seq opts =
     memory_New seq
       ((case opts ''buffer_size'' of Some (AnyInt n) \<Rightarrow> [WithBufferSize n] | _ \<Rightarrow> [])
        @ (case opts ''name'' of Some (AnyString name) \<Rightarrow> [WithName name] | _ \<Rightarrow> []))"

section \<open>What a receiver promises\<close>

text \<open>
  \<open>held s k\<close>: the transport still has the message with id \<open>k\<close>, waiting or delivered. \<open>taken s k\<close>: it
  is delivered and not yet settled. Taking messages loses none; an acknowledged one is gone; a
  rejected one is held again unless the rejection itself fails; settling one leaves the others alone.
\<close>

locale message_receiver =
  fixes gets :: "'s \<Rightarrow> ('p, 'v) envelope list \<Rightarrow> 's \<Rightarrow> bool"
    and ack :: "mctx \<Rightarrow> ('p, 'v) envelope \<Rightarrow> ('s, goerr option) go"
    and reject :: "mctx \<Rightarrow> ('p, 'v) envelope \<Rightarrow> goerr option \<Rightarrow> ('s, goerr option) go"
    and id_of :: "('p, 'v) envelope \<Rightarrow> string option"
    and held :: "'s \<Rightarrow> string \<Rightarrow> bool"
    and taken :: "'s \<Rightarrow> string \<Rightarrow> bool"
    and ok :: "'s \<Rightarrow> bool"
  assumes gets_law:
      "ok s \<Longrightarrow> gets s envs s' \<Longrightarrow>
       ok s' \<and> held s' = held s \<and> distinct (map id_of envs)
       \<and> (\<forall>env \<in> set envs. \<exists>k. id_of env = Some k \<and> taken s' k)"
    and taken_held: "ok s \<Longrightarrow> taken s k \<Longrightarrow> held s k"
    and ack_law:
      "ok s \<Longrightarrow> id_of env = Some k \<Longrightarrow> taken s k \<Longrightarrow> ack ctx env s = (r, s') \<Longrightarrow>
       ok s' \<and> (\<forall>j. j \<noteq> k \<longrightarrow> held s' j = held s j \<and> taken s' j = taken s j)
       \<and> (r = Ret None \<longrightarrow> \<not> held s' k) \<and> (r \<noteq> Ret None \<longrightarrow> held s' k) \<and> (\<exists>e. r = Ret e)"
    and reject_law:
      "ok s \<Longrightarrow> id_of env = Some k \<Longrightarrow> taken s k \<Longrightarrow> reject ctx env reason s = (r, s') \<Longrightarrow>
       ok s' \<and> (\<forall>j. j \<noteq> k \<longrightarrow> held s' j = held s j \<and> taken s' j = taken s j)
       \<and> (r = Ret None \<longrightarrow> held s' k) \<and> (\<exists>e. r = Ret e)"
    and id_received: "id_of (WithStamp (ReceivedStamp name at) env) = id_of env"

section \<open>The in-memory transport is such a receiver\<close>

definition mem_id :: "('p, 'v) envelope \<Rightarrow> string option" where
  "mem_id env = (case Last NameMemoryID env of Some (MemoryIDStamp i) \<Rightarrow> Some i | _ \<Rightarrow> None)"

definition issued :: "('p, 'v) memory \<Rightarrow> string \<Rightarrow> bool" where
  "issued t k \<longleftrightarrow> (\<exists>n. n \<le> unat (pendingSeq t) \<and> k = nat_digits n)"

definition mem_ok :: "('p, 'v) memory \<Rightarrow> bool" where
  "mem_ok t \<longleftrightarrow>
     distinct (map mem_id (mt_ch t))
     \<and> (\<forall>e \<in> set (mt_ch t). mem_id e \<noteq> None)
     \<and> (\<forall>e \<in> set (mt_ch t). \<forall>k. mem_id e = Some k \<longrightarrow> issued t k \<and> mt_pending t k = None)
     \<and> (\<forall>k. mt_pending t k \<noteq> None \<longrightarrow> issued t k)"

lemma issued_update [simp]:
  "issued (t\<lparr>mt_ch := c\<rparr>) = issued t" "issued (t\<lparr>mt_pending := p\<rparr>) = issued t"
  by (simp_all add: issued_def fun_eq_iff)

definition mem_held :: "('p, 'v) memory \<Rightarrow> string \<Rightarrow> bool" where
  "mem_held t k \<longleftrightarrow> Some k \<in> mem_id ` set (mt_ch t) \<or> mt_pending t k \<noteq> None"

definition mem_taken :: "('p, 'v) memory \<Rightarrow> string \<Rightarrow> bool" where
  "mem_taken t k \<longleftrightarrow> mt_pending t k \<noteq> None"

definition mem_gets :: "('p, 'v) memory \<Rightarrow> ('p, 'v) envelope list \<Rightarrow> ('p, 'v) memory \<Rightarrow> bool" where
  "mem_gets t envs t' \<longleftrightarrow> (\<exists>done pick. mem_Get done pick t = Some (Ret (envs, None), t'))"

lemma mem_id_pendingKey: "mem_id env = Some k \<Longrightarrow> pendingKey env = Ret k"
  by (auto simp: mem_id_def pendingKey_def split: option.splits stamp.splits)

lemma mem_id_WithStamp [simp]:
  "mem_id (WithStamp (MemoryIDStamp i) env) = Some i"
  "StampName st \<noteq> NameMemoryID \<Longrightarrow> mem_id (WithStamp st env) = mem_id env"
  by (simp_all add: mem_id_def Last_WithStamp)

lemma mem_Get_cases:
  assumes "mem_Get done pick t = Some (Ret (envs, err), t')" and "mem_ok t"
  obtains (cancelled) e where "done = Some e" "envs = []" "err = Some e" "t' = t"
  | (ended) "mt_ch t = []" "mt_closed t" "envs = []" "err = None" "t' = t"
  | (received) env rest k where "mt_ch t = env # rest" "mem_id env = Some k" "envs = [env]" "err = None"
      "t' = t\<lparr>mt_ch := rest, mt_pending := (mt_pending t)(k \<mapsto> env)\<rparr>"
proof -
  have r: "done = Some e \<and> envs = [] \<and> err = Some e \<and> t' = t
      \<or> mem_receive t = Some (Ret (envs, err), t')" if "done = Some e" for e
    using assms(1) that by (simp add: mem_Get_def split: if_splits)
  then consider e where "done = Some e" "envs = []" "err = Some e" "t' = t"
    | "mem_receive t = Some (Ret (envs, err), t')"
    using assms(1) by (cases "done") (auto simp: mem_Get_def)
  then show thesis
  proof cases
    case (1 e)
    then show thesis by (rule cancelled)
  next
    case 2
    show thesis
    proof (cases "mt_ch t")
      case Nil
      with 2 show thesis by (intro ended) (simp_all add: mem_receive_def split: if_splits)
    next
      case (Cons env rest)
      with assms(2) obtain k where k: "mem_id env = Some k" by (auto simp: mem_ok_def)
      with Cons 2 show thesis by (intro received [of env rest k]) (simp_all add: mem_receive_def mem_id_pendingKey)
    qed
  qed
qed

lemma mem_gets_law:
  assumes "mem_ok t" and "mem_gets t envs t'"
  shows "mem_ok t' \<and> mem_held t' = mem_held t \<and> distinct (map mem_id envs)
       \<and> (\<forall>env \<in> set envs. \<exists>k. mem_id env = Some k \<and> mem_taken t' k)"
proof -
  obtain "done" pick where g: "mem_Get done pick t = Some (Ret (envs, None), t')"
    using assms(2) by (auto simp: mem_gets_def)
  from g assms(1) show ?thesis
  proof (cases rule: mem_Get_cases)
    case (received env rest k)
    then have "mem_ok t'" using assms(1)
      by (auto simp: mem_ok_def) (metis image_eqI)
    with received show ?thesis by (auto simp: mem_held_def mem_taken_def fun_eq_iff)
  qed (use assms(1) in simp_all)
qed

lemma mem_ack_law:
  assumes "mem_ok t" "mem_id env = Some k" "mem_taken t k" "mem_Ack ctx env t = (r, t')"
  shows "mem_ok t' \<and> (\<forall>j. j \<noteq> k \<longrightarrow> mem_held t' j = mem_held t j \<and> mem_taken t' j = mem_taken t j)
       \<and> (r = Ret None \<longrightarrow> \<not> mem_held t' k) \<and> (r \<noteq> Ret None \<longrightarrow> mem_held t' k) \<and> (\<exists>e. r = Ret e)"
proof -
  have t': "r = Ret None" "t' = t\<lparr>mt_pending := (mt_pending t)(k := None)\<rparr>"
    using assms(2,4) by (simp_all add: mem_Ack_def mem_id_pendingKey)
  have "Some k \<notin> mem_id ` set (mt_ch t)" using assms(1,3) by (fastforce simp: mem_ok_def mem_taken_def)
  moreover have "mem_ok t'" using assms(1) t' by (auto simp: mem_ok_def)
  ultimately show ?thesis using t' by (auto simp: mem_held_def mem_taken_def)
qed

lemma mem_reject_law:
  assumes "mem_ok t" "mem_id env = Some k" "mem_taken t k" "mem_Reject ctx env reason t = (r, t')"
  shows "mem_ok t' \<and> (\<forall>j. j \<noteq> k \<longrightarrow> mem_held t' j = mem_held t j \<and> mem_taken t' j = mem_taken t j)
       \<and> (r = Ret None \<longrightarrow> mem_held t' k) \<and> (\<exists>e. r = Ret e)"
proof -
  let ?t = "t\<lparr>mt_pending := (mt_pending t)(k := None)\<rparr>"
  have fresh: "Some k \<notin> mem_id ` set (mt_ch t)" using assms(1,3) by (fastforce simp: mem_ok_def mem_taken_def)
  have k: "issued t k" using assms(1,3) by (auto simp: mem_ok_def mem_taken_def)
  have "(\<exists>e. r = Ret (Some e)) \<and> t' = ?t \<or> r = Ret None \<and> t' = ?t\<lparr>mt_ch := mt_ch t @ [env]\<rparr>"
    using assms(2,4) by (auto simp: mem_Reject_def mem_id_pendingKey Let_def split: if_splits)
  moreover have "mem_ok ?t" using assms(1) by (auto simp: mem_ok_def)
  moreover have "mem_ok (?t\<lparr>mt_ch := mt_ch t @ [env]\<rparr>)"
    using assms(1,2) fresh k by (auto simp: mem_ok_def)
  ultimately show ?thesis using assms(2) by (auto simp: mem_held_def mem_taken_def)
qed

interpretation mem: message_receiver mem_gets mem_Ack mem_Reject mem_id mem_held mem_taken mem_ok
proof (unfold_locales, goal_cases)
  case 1 then show ?case by (rule mem_gets_law)
next
  case 2 then show ?case by (simp add: mem_held_def mem_taken_def)
next
  case 3 then show ?case by (rule mem_ack_law)
next
  case 4 then show ?case by (rule mem_reject_law)
next
  case 5 show ?case by (simp add: stamp_name_defs)
qed

section \<open>Every state of an in-memory transport\<close>

text \<open>\<^verbatim>\<open>Reject\<close> up to the channel operation, and the channel operation, which does not wait.\<close>

definition mem_Reject_prepare :: "('p, 'v) envelope \<Rightarrow> ('p, 'v) memory \<Rightarrow> (goerr + ('p, 'v) envelope) exec \<times> ('p, 'v) memory" where
  "mem_Reject_prepare env t =
     (case pendingKey env of
        Panic p \<Rightarrow> (Panic p, t)
      | Ret key \<Rightarrow>
          (Ret (if mt_closed t then Inl (mem_closed_err t) else Inr env), t\<lparr>mt_pending := (mt_pending t)(key := None)\<rparr>))"

definition mem_Reject_push :: "('p, 'v) envelope \<Rightarrow> ('p, 'v) memory \<Rightarrow> goerr option exec \<times> ('p, 'v) memory" where
  "mem_Reject_push env t =
     (if mt_closed t then (Panic ''send on closed channel'', t)
      else if length (mt_ch t) < mt_cap t then (Ret None, t\<lparr>mt_ch := mt_ch t @ [env]\<rparr>)
      else (Ret (Some (errorf (''transport: '' @ mt_name t @ '' buffer full, message dropped on reject''))), t))"

lemma mem_Reject_parts:
  "mem_Reject ctx env reason t =
     (case mem_Reject_prepare env t of
        (Panic p, t') \<Rightarrow> (Panic p, t')
      | (Ret (Inl e), t') \<Rightarrow> (Ret (Some e), t')
      | (Ret (Inr env'), t') \<Rightarrow> mem_Reject_push env' t')"
  by (auto simp: mem_Reject_def mem_Reject_prepare_def mem_Reject_push_def Let_def split: exec.splits)

text \<open>
  What goroutines can do with a transport, in the steps between which others can run. \<open>fly\<close> are the envelopes that some
  goroutine holds inside an operation: stamped and about to be sent, taken from the channel and not yet pending, or
  being rejected and about to be queued again. A goroutine that waits to receive takes an envelope from a sender
  directly, which is how a channel without a buffer works. \<^verbatim>\<open>Ack\<close> may be called with any envelope, also twice;
  \<^verbatim>\<open>Reject\<close> is called with an envelope that is pending, so once for a delivery. The sequence number is shared with
  other transports. An operation that is refused, and a \<^verbatim>\<open>Get\<close> that ends without an envelope, changes nothing.
\<close>

datatype phase = Sending | Receiving | Rejecting

inductive mem_step ::
  "(phase \<times> ('p, 'v) envelope) list \<times> ('p, 'v) memory \<Rightarrow> (phase \<times> ('p, 'v) envelope) list \<times> ('p, 'v) memory \<Rightarrow> bool" where
  send: "mem_Send_prepare env t = (Inr env', t') \<Longrightarrow> pendingSeq t < - 1 \<Longrightarrow> mem_step (fly, t) (fly @ [(Sending, env')], t')"
| push: "mem_Send_push env t = Some (r, t') \<Longrightarrow> mem_step (fly @ (Sending, env) # fly', t) (fly @ fly', t')"
| take: "mt_ch t = env # rest \<Longrightarrow> mem_step (fly, t) (fly @ [(Receiving, env)], t\<lparr>mt_ch := rest\<rparr>)"
| handover: "p \<noteq> Receiving \<Longrightarrow> \<not> mt_closed t \<Longrightarrow> mt_ch t = [] \<Longrightarrow>
    mem_step (fly @ (p, env) # fly', t) (fly @ (Receiving, env) # fly', t)"
| store: "pendingKey env = Ret k \<Longrightarrow>
    mem_step (fly @ (Receiving, env) # fly', t) (fly @ fly', t\<lparr>mt_pending := (mt_pending t)(k \<mapsto> env)\<rparr>)"
| ack: "mem_Ack ctx env t = (r, t') \<Longrightarrow> mem_step (fly, t) (fly, t')"
| reject: "mem_id env = Some k \<Longrightarrow> mem_taken t k \<Longrightarrow> mem_Reject_prepare env t = (Ret q, t') \<Longrightarrow>
    mem_step (fly, t) (fly @ (case q of Inl _ \<Rightarrow> [] | Inr env' \<Rightarrow> [(Rejecting, env')]), t')"
| requeue: "mem_Reject_push env t = (r, t') \<Longrightarrow> mem_step (fly @ (Rejecting, env) # fly', t) (fly @ fly', t')"
| others: "pendingSeq t \<le> n \<Longrightarrow> mem_step (fly, t) (fly, t\<lparr>pendingSeq := n\<rparr>)"
| close: "mem_step (fly, t) (fly, mem_Close t)"

text \<open>The operations are sequences of these steps.\<close>

lemma mem_op_steps:
  "mem_Send env t = Some (r, t') \<Longrightarrow> pendingSeq t < - 1 \<Longrightarrow> mem_step\<^sup>*\<^sup>* (fly, t) (fly, t')"
  "mem_Get done pick t = Some (Ret (envs, err), t') \<Longrightarrow> mem_step\<^sup>*\<^sup>* (fly, t) (fly, t')"
  "mem_id env = Some k \<Longrightarrow> mem_taken t k \<Longrightarrow> mem_Reject ctx env reason t = (q, t') \<Longrightarrow> mem_step\<^sup>*\<^sup>* (fly, t) (fly, t')"
proof -
  assume s: "mem_Send env t = Some (r, t')" "pendingSeq t < - 1"
  obtain x t1 where x: "mem_Send_prepare env t = (x, t1)" by fastforce
  show "mem_step\<^sup>*\<^sup>* (fly, t) (fly, t')"
  proof (cases x)
    case (Inl e)
    then have "t' = t" using s(1) x by (auto simp: mem_Send_def mem_Send_prepare_def Let_def split: if_splits)
    then show ?thesis by simp
  next
    case (Inr env')
    then have "mem_Send_push env' t1 = Some (r, t')" using s(1) x by (simp add: mem_Send_def)
    from mem_step.push [OF this, of fly "[]"] mem_step.send [OF x [unfolded Inr] s(2), of fly] show ?thesis by simp
  qed
next
  assume g: "mem_Get done pick t = Some (Ret (envs, err), t')"
  show "mem_step\<^sup>*\<^sup>* (fly, t) (fly, t')"
  proof (cases "t' = t")
    case False
    then have "mem_receive t = Some (Ret (envs, err), t')" using g by (auto simp: mem_Get_def split: option.splits if_splits)
    with False obtain e rest k where r: "mt_ch t = e # rest" "pendingKey e = Ret k"
      "t' = t\<lparr>mt_ch := rest, mt_pending := (mt_pending t)(k \<mapsto> e)\<rparr>"
      by (auto simp: mem_receive_def split: list.splits if_splits exec.splits)
    from mem_step.store [OF r(2), of fly "[]" "t\<lparr>mt_ch := rest\<rparr>"] mem_step.take [OF r(1), of fly] r(3) show ?thesis by simp
  qed simp
next
  assume j: "mem_id env = Some k" "mem_taken t k" "mem_Reject ctx env reason t = (q, t')"
  let ?t = "t\<lparr>mt_pending := (mt_pending t)(k := None)\<rparr>"
  have p: "mem_Reject_prepare env t = (Ret (if mt_closed t then Inl (mem_closed_err t) else Inr env), ?t)"
    by (simp add: mem_Reject_prepare_def mem_id_pendingKey [OF j(1)])
  show "mem_step\<^sup>*\<^sup>* (fly, t) (fly, t')"
  proof (cases "mt_closed t")
    case True
    then show ?thesis using mem_step.reject [OF j(1,2) p, of fly] j(3) p by (simp add: mem_Reject_parts)
  next
    case False
    then have "mem_Reject_push env ?t = (q, t')" using j(3) p by (simp add: mem_Reject_parts)
    from mem_step.requeue [OF this, of fly "[]"] mem_step.reject [OF j(1,2) p, of fly] False show ?thesis by simp
  qed
qed

lemma unat_succ: "(s :: 64 word) < - 1 \<Longrightarrow> unat (s + 1) = Suc (unat s)"
proof -
  assume "s < - 1"
  then have "s + 1 \<noteq> 0" by (metis eq_neg_iff_add_eq_0 less_irrefl)
  then show ?thesis using unatSuc [of s] by (simp add: add.commute)
qed

text \<open>The invariant counts the envelopes in flight with those in the channel.\<close>

definition sys_ok :: "(phase \<times> ('p, 'v) envelope) list \<times> ('p, 'v) memory \<Rightarrow> bool" where
  "sys_ok st \<longleftrightarrow> mem_ok ((snd st)\<lparr>mt_ch := mt_ch (snd st) @ map snd (fst st)\<rparr>) \<and> length (mt_ch (snd st)) \<le> mt_cap (snd st)"

definition envs_ok :: "('p, 'v) envelope multiset \<Rightarrow> ('p, 'v) memory \<Rightarrow> bool" where
  "envs_ok M t \<longleftrightarrow>
     (\<forall>e \<in># M. \<exists>k. mem_id e = Some k \<and> issued t k \<and> mt_pending t k = None)
     \<and> (\<forall>k. count (image_mset mem_id M) k \<le> 1) \<and> (\<forall>k. mt_pending t k \<noteq> None \<longrightarrow> issued t k)"

lemma mem_ok_envs: "mem_ok (t\<lparr>mt_ch := es\<rparr>) \<longleftrightarrow> envs_ok (mset es) t"
proof -
  have "distinct (map mem_id es) \<longleftrightarrow> (\<forall>k. count (image_mset mem_id (mset es)) k \<le> 1)"
    unfolding mset_map [symmetric] distinct_count_atmost_1
    by (metis One_nat_def count_eq_zero_iff le_SucE le_numeral_extra(3,4) le_zero_eq set_mset_mset zero_le_one)
  then show ?thesis by (fastforce simp: mem_ok_def envs_ok_def)
qed

lemma sys_ok_envs: "sys_ok (fly, t) \<longleftrightarrow> envs_ok (mset (mt_ch t) + mset (map snd fly)) t \<and> length (mt_ch t) \<le> mt_cap t"
  by (simp add: sys_ok_def mem_ok_envs del: mset_map)

lemma envs_ok_ch [simp]: "envs_ok M (t\<lparr>mt_ch := c\<rparr>) = envs_ok M t"
  by (simp add: envs_ok_def)

lemma envs_ok_less: "envs_ok (M + N) t \<Longrightarrow> envs_ok M t"
  unfolding envs_ok_def by (metis (no_types, lifting) count_union image_mset_union le_add1 order_trans union_iff)

lemma envs_ok_fresh:
  assumes "envs_ok M t" "mem_id e = Some k" "issued t k" "mt_pending t k = None" "\<forall>x \<in># M. mem_id x \<noteq> Some k"
  shows "envs_ok (add_mset e M) t"
proof -
  have "count (image_mset mem_id M) (Some k) = 0" using assms(5) by (auto simp: count_eq_zero_iff)
  then show ?thesis using assms by (auto simp: envs_ok_def)
qed

lemma envs_ok_seq:
  assumes "envs_ok M t" and "pendingSeq t \<le> n"
  shows "envs_ok M (t\<lparr>pendingSeq := n\<rparr>)"
proof -
  have "issued (t\<lparr>pendingSeq := n\<rparr>) k" if "issued t k" for k
    using that assms(2) by (auto simp: issued_def word_le_nat_alt intro: order.trans)
  then show ?thesis using assms(1) by (fastforce simp: envs_ok_def)
qed

lemma envs_ok_forget:
  assumes "envs_ok M t"
  shows "envs_ok M (t\<lparr>mt_pending := (mt_pending t)(k := None)\<rparr>)"
  using assms by (fastforce simp: envs_ok_def)

lemma envs_ok_store:
  assumes "envs_ok (add_mset e M) t" and "mem_id e = Some k"
  shows "envs_ok M (t\<lparr>mt_pending := (mt_pending t)(k \<mapsto> e)\<rparr>)"
proof -
  have "mem_id x \<noteq> Some k" if "x \<in># M" for x
  proof
    assume "mem_id x = Some k"
    with that have "Some k \<in># image_mset mem_id M" by (metis image_eqI set_image_mset)
    then have "1 \<le> count (image_mset mem_id M) (Some k)" by (simp only: count_greater_eq_one_iff)
    moreover have "count (image_mset mem_id (add_mset e M)) (Some k) \<le> 1" using assms(1) unfolding envs_ok_def by blast
    then have "count (image_mset mem_id M) (Some k) = 0" using assms(2) by (simp only: image_mset_add_mset count_add_mset if_True) simp
    ultimately show False by linarith
  qed
  moreover have "envs_ok M t" using assms(1) envs_ok_less [of M "{#e#}" t] by simp
  moreover have "issued t k" using assms by (auto simp: envs_ok_def)
  ultimately show ?thesis by (fastforce simp: envs_ok_def)
qed

lemma envs_ok_send:
  assumes "envs_ok M t" and "pendingSeq t < - 1" and "mem_Send_prepare env t = (Inr env', t')"
  shows "envs_ok (add_mset env' M) t'"
proof -
  let ?n = "pendingSeq t + 1"
  have t': "t' = t\<lparr>pendingSeq := ?n\<rparr>" "mem_id env' = Some (nat_digits (unat ?n))"
    using assms(3) by (auto simp: mem_Send_prepare_def Let_def split: if_splits)
  have new: "\<not> issued t (nat_digits (unat ?n))" "issued t' (nat_digits (unat ?n))"
    using t'(1) unat_succ [OF assms(2)] by (auto simp: issued_def)
  have "pendingSeq t \<le> ?n" using unat_succ [OF assms(2)] by (simp add: word_le_nat_alt)
  then have "envs_ok M t'" unfolding t'(1) by (rule envs_ok_seq [OF assms(1)])
  then show ?thesis
    by (rule envs_ok_fresh [OF _ t'(2) new(2)]) (use assms(1) new(1) t'(1) in \<open>auto simp: envs_ok_def\<close>)
qed

lemma envs_ok_reject:
  assumes "envs_ok M t" and "mem_id env = Some k" and "mem_taken t k"
  shows "envs_ok (add_mset env M) (t\<lparr>mt_pending := (mt_pending t)(k := None)\<rparr>)"
  by (rule envs_ok_fresh [OF envs_ok_forget [OF assms(1)] assms(2)])
     (use assms in \<open>auto simp: envs_ok_def mem_taken_def\<close>)

lemma mem_step_inv:
  assumes "mem_step st st'" and "sys_ok st"
  shows "sys_ok st'"
  using assms
proof cases
  case (send env t env' t' fly)
  have "mt_ch t' = mt_ch t" "mt_cap t' = mt_cap t"
    using send(3) by (auto simp: mem_Send_prepare_def Let_def split: if_splits)
  then show ?thesis using envs_ok_send [OF _ send(4,3)] assms(2) send(1,2) by (simp add: sys_ok_envs)
next
  case (push env t r t' fly fly')
  then show ?thesis
    using assms(2) envs_ok_less [of "mset (mt_ch t) + mset (map snd (fly @ fly'))" "{#env#}" t]
    by (auto simp: sys_ok_envs split: if_splits)
next
  case (take t env rest fly)
  then show ?thesis using assms(2) by (simp add: sys_ok_envs)
next
  case (handover p t fly env fly')
  then show ?thesis using assms(2) by (simp add: sys_ok_envs)
next
  case (store env k fly fly' t)
  have ok: "envs_ok (add_mset env (mset (mt_ch t) + mset (map snd (fly @ fly')))) t" using store(1) assms(2) by (simp add: sys_ok_envs)
  then have "mem_id env = Some k" using store(3) by (fastforce simp: envs_ok_def dest: mem_id_pendingKey)
  from envs_ok_store [OF ok this] show ?thesis using store(1,2) assms(2) by (simp add: sys_ok_envs)
next
  case (ack ctx env t r t' fly)
  then show ?thesis using assms(2) envs_ok_forget by (auto simp: sys_ok_envs mem_Ack_def split: exec.splits)
next
  case (reject env k t q t' fly)
  then show ?thesis
    using assms(2) envs_ok_reject [OF _ reject(3,4)] envs_ok_forget
    by (auto simp: sys_ok_envs mem_Reject_prepare_def mem_id_pendingKey split: if_splits)
next
  case (requeue env t r t' fly fly')
  then show ?thesis
    using assms(2) envs_ok_less [of "mset (mt_ch t) + mset (map snd (fly @ fly'))" "{#env#}" t]
    by (auto simp: sys_ok_envs mem_Reject_push_def split: if_splits)
next
  case (others t n fly)
  then show ?thesis using assms(2) envs_ok_seq [OF _ others(3)] by (simp add: sys_ok_envs)
next
  case (close fly t)
  then show ?thesis using assms(2) by (simp add: sys_ok_envs envs_ok_def mem_Close_def issued_def)
qed

text \<open>C31: However goroutines interleave the parts of \<^verbatim>\<open>Send\<close>, \<^verbatim>\<open>Get\<close>, \<^verbatim>\<open>Ack\<close>, \<^verbatim>\<open>Reject\<close> and \<^verbatim>\<open>Close\<close> on an
  in-memory transport, no two of its messages, in the channel, inside an operation or delivered, have the same id, every
  message in the channel or inside an operation has one, and the channel is within its capacity. This holds as long as
  a delivery is rejected at most once and the 64-bit sequence number does not wrap around.\<close>

theorem memory_reachable_ok:
  assumes "memory_New seq opts = Ret t0" and "mem_step\<^sup>*\<^sup>* ([], t0) (fly, t)"
  shows "mem_ok (t\<lparr>mt_ch := mt_ch t @ map snd fly\<rparr>) \<and> length (mt_ch t) \<le> mt_cap t"
proof -
  have opts: "memory_options opts t1 = Ret t0 \<Longrightarrow> mt_ch t1 = [] \<Longrightarrow> mt_pending t1 = Map.empty \<Longrightarrow>
      mt_ch t0 = [] \<and> mt_pending t0 = Map.empty" for t1
    by (induction opts t1 rule: memory_options.induct) (auto split: if_splits)
  have "mt_ch t0 = []" "mt_pending t0 = Map.empty"
    using opts [OF assms(1) [unfolded memory_New_def]] by simp_all
  then have "sys_ok ([], t0)" by (simp add: sys_ok_envs envs_ok_def)
  with assms(2) have "sys_ok (fly, t)" by (induction rule: rtranclp_induct) (auto dest: mem_step_inv)
  then show ?thesis by (simp add: sys_ok_def)
qed

definition sample_memory :: "(nat, nat) memory" where
  "sample_memory =
     \<lparr>mt_name = ''memory'', mt_ch = [], mt_cap = 2, mt_pending = Map.empty, mt_closed = False, pendingSeq = 0\<rparr>"

text \<open>Two messages are sent, the first is delivered and rejected, and waits behind the second, which is delivered.\<close>

definition sample_sent :: "string \<Rightarrow> string \<Rightarrow> (nat, nat) envelope" where
  "sample_sent i name = WithStamp (MemoryIDStamp i) (NewEnvelope 0 (sample_message name) [])"

definition sample_memory_used :: "(nat, nat) memory" where
  "sample_memory_used =
     sample_memory\<lparr>mt_ch := [sample_sent ''1'' ''A''], mt_pending := [''2'' \<mapsto> sample_sent ''2'' ''B''], pendingSeq := 2\<rparr>"

lemma sample_memory_steps: "mem_step\<^sup>*\<^sup>* ([], sample_memory) ([], sample_memory_used)"
proof -
  let ?A = "sample_sent ''1'' ''A''" and ?B = "sample_sent ''2'' ''B''"
  let ?t1 = "sample_memory\<lparr>mt_ch := [?A], pendingSeq := 1\<rparr>"
  let ?t2 = "sample_memory\<lparr>mt_ch := [?A, ?B], pendingSeq := 2\<rparr>"
  let ?t3 = "sample_memory\<lparr>mt_ch := [?B], mt_pending := [''1'' \<mapsto> ?A], pendingSeq := 2\<rparr>"
  let ?t4 = "sample_memory\<lparr>mt_ch := [?B, ?A], mt_pending := Map.empty, pendingSeq := 2\<rparr>"
  have one_less: "(1 :: 64 word) < - 1" by code_simp
  have digits: "nat_digits 1 = ''1''" "nat_digits 2 = ''2''" by code_simp+
  have key: "pendingKey (sample_sent i n) = Ret i" "mem_id (sample_sent i n) = Some i" for i n
    by (simp_all add: sample_sent_def mem_id_pendingKey)
  have "mem_Send (NewEnvelope 0 (sample_message ''A'') []) sample_memory = Some (Ret None, ?t1)"
    by (simp add: mem_Send_def mem_Send_prepare_def Let_def sample_memory_def sample_sent_def digits [simplified])
  from mem_op_steps(1) [OF this, of "[]"] have 1: "mem_step\<^sup>*\<^sup>* ([], sample_memory) ([], ?t1)" by (simp add: sample_memory_def word_gt_0)
  have "mem_Send (NewEnvelope 0 (sample_message ''B'') []) ?t1 = Some (Ret None, ?t2)"
    by (simp add: mem_Send_def mem_Send_prepare_def Let_def sample_memory_def sample_sent_def digits [simplified])
  from mem_op_steps(1) [OF this, of "[]"] have 2: "mem_step\<^sup>*\<^sup>* ([], ?t1) ([], ?t2)" by (simp add: one_less)
  have "mem_Get None False ?t2 = Some (Ret ([?A], None), ?t3)"
    by (simp add: mem_Get_def mem_receive_def key sample_memory_def)
  from mem_op_steps(2) [OF this, of "[]"] have 3: "mem_step\<^sup>*\<^sup>* ([], ?t2) ([], ?t3)" .
  have "mem_Reject background ?A None ?t3 = (Ret None, ?t4)"
    by (simp add: mem_Reject_def key sample_memory_def)
  from mem_op_steps(3) [OF key(2) _ this, of "[]"] have 4: "mem_step\<^sup>*\<^sup>* ([], ?t3) ([], ?t4)" by (simp add: mem_taken_def)
  have "mem_Get None False ?t4 = Some (Ret ([?B], None), sample_memory_used)"
    by (simp add: mem_Get_def mem_receive_def key sample_memory_def sample_memory_used_def)
  from mem_op_steps(2) [OF this, of "[]"] 1 2 3 4 show ?thesis by (meson rtranclp_trans)
qed

theorem memory_reachable_ok_witness:
  "length (mt_ch sample_memory_used) = 1 \<and> mt_pending sample_memory_used ''2'' \<noteq> None \<and> mem_ok sample_memory_used"
proof -
  have n: "memory_New 0 [WithBufferSize 2] = Ret sample_memory"
    by (simp add: memory_New_def sample_memory_def)
  from memory_reachable_ok [OF n sample_memory_steps] show ?thesis
    by (simp add: sample_memory_used_def sample_memory_def)
qed

text \<open>A delivery that is rejected twice is in the channel twice.\<close>

lemma memory_rejected_twice:
  assumes "mem_id env = Some k" and "\<not> mt_closed t" and "length (mt_ch t) + 1 < mt_cap t"
    and "mem_Reject ctx env reason t = (r1, t1)" and "mem_Reject ctx env reason t1 = (r2, t2)"
  shows "r1 = Ret None \<and> r2 = Ret None \<and> mt_ch t2 = mt_ch t @ [env, env]"
  using assms by (auto simp: mem_Reject_def mem_id_pendingKey)

section \<open>First in, first out\<close>

fun send_all :: "('p, 'v) envelope list \<Rightarrow> ('p, 'v) memory \<Rightarrow> ('p, 'v) memory option" where
  "send_all [] t = Some t"
| "send_all (e # es) t =
     (case mem_Send e t of Some (Ret None, t') \<Rightarrow> send_all es t' | _ \<Rightarrow> None)"

fun get_all :: "nat \<Rightarrow> ('p, 'v) memory \<Rightarrow> (('p, 'v) envelope list \<times> ('p, 'v) memory) option" where
  "get_all 0 t = Some ([], t)"
| "get_all (Suc n) t =
     (case mem_Get None False t of
        Some (Ret (es, None), t') \<Rightarrow> (case get_all n t' of Some (rest, t'') \<Rightarrow> Some (es @ rest, t'') | None \<Rightarrow> None)
      | _ \<Rightarrow> None)"

lemma send_all_ok:
  "\<not> mt_closed t \<Longrightarrow> length (mt_ch t) + length es \<le> mt_cap t \<Longrightarrow>
   \<exists>t' new. send_all es t = Some t' \<and> mt_ch t' = mt_ch t @ new \<and> map Message new = map Message es
     \<and> (\<forall>e \<in> set new. mem_id e \<noteq> None)"
proof (induction es arbitrary: t)
  case (Cons e es)
  let ?e = "WithStamp (MemoryIDStamp (nat_digits (unat (pendingSeq t + 1)))) e"
  let ?t = "t\<lparr>mt_ch := mt_ch t @ [?e], pendingSeq := pendingSeq t + 1\<rparr>"
  have s: "mem_Send e t = Some (Ret None, ?t)"
    using Cons.prems by (simp add: mem_Send_def mem_Send_prepare_def Let_def)
  obtain t' new where "send_all es ?t = Some t'" "mt_ch t' = mt_ch ?t @ new" "map Message new = map Message es"
    "\<forall>e \<in> set new. mem_id e \<noteq> None"
    using Cons.IH [of ?t] Cons.prems by auto
  with s show ?case by (intro exI [of _ t'] exI [of _ "?e # new"]) (simp add: WithStamp_def mem_id_def Last_WithStamp [unfolded WithStamp_def])
qed simp

lemma get_all_ok:
  "\<forall>e \<in> set (mt_ch t). mem_id e \<noteq> None \<Longrightarrow> n \<le> length (mt_ch t) \<Longrightarrow>
   \<exists>t'. get_all n t = Some (take n (mt_ch t), t')"
proof (induction n arbitrary: t)
  case (Suc n)
  then obtain e rest k where c: "mt_ch t = e # rest" and k: "mem_id e = Some k" by (cases "mt_ch t") auto
  let ?t = "t\<lparr>mt_ch := rest, mt_pending := (mt_pending t)(k \<mapsto> e)\<rparr>"
  have "mem_Get None False t = Some (Ret ([e], None), ?t)"
    using c mem_id_pendingKey [OF k] by (simp add: mem_Get_def mem_receive_def)
  with Suc.IH [of ?t] Suc.prems c show ?case by auto
qed simp

text \<open>an open in-memory transport with room delivers what is sent to it, in the order of the sends,
  without waiting on either side.\<close>

theorem memory_fifo:
  assumes "\<not> mt_closed t" and "mt_ch t = []" and "length es \<le> mt_cap t"
  shows "\<exists>t1 got t2. send_all es t = Some t1 \<and> get_all (length es) t1 = Some (got, t2)
     \<and> map Message got = map Message es"
proof -
  obtain t1 new where "send_all es t = Some t1" "mt_ch t1 = new" "map Message new = map Message es"
    "\<forall>e \<in> set new. mem_id e \<noteq> None"
    using send_all_ok [of t es] assms by auto
  moreover have "length new = length es" using calculation(3) by (metis length_map)
  ultimately show ?thesis using get_all_ok [of t1 "length es"] by auto
qed

theorem memory_fifo_witness:
  "\<exists>t1 got t2. send_all [NewEnvelope 0 (sample_message ''A'') [], NewEnvelope 0 (sample_message ''B'') []] sample_memory = Some t1
     \<and> get_all 2 t1 = Some (got, t2) \<and> map Message got = [sample_message ''A'', sample_message ''B'']"
  using memory_fifo [of sample_memory "[NewEnvelope 0 (sample_message ''A'') [], NewEnvelope 0 (sample_message ''B'') []]"]
  by (simp add: sample_memory_def NewEnvelope_def numeral_2_eq_2)

text \<open>\<^verbatim>\<open>Close\<close> during a \<^verbatim>\<open>Send\<close> panics the sender: if another goroutine closes the transport after
  \<^verbatim>\<open>Send\<close> has checked that it is open, the channel operation panics instead of returning the error a
  \<^verbatim>\<open>Send\<close> on a closed transport returns.\<close>

theorem memory_close_during_send_panics:
  assumes "mem_Send_prepare env t = (Inr env', t')"
  shows "mem_Send_push env' (mem_Close t') = Some (Panic ''send on closed channel'', mem_Close t')
     \<and> (\<exists>e. mem_Send env (mem_Close t') = Some (Ret (Some e), mem_Close t'))"
  by (simp add: mem_Send_def mem_Send_prepare_def mem_Close_def)

theorem memory_close_during_send_panics_witness:
  "\<exists>env' t'. mem_Send_prepare (NewEnvelope 0 (sample_message ''A'') []) sample_memory = (Inr env', t')
     \<and> mem_Send_push env' (mem_Close t') = Some (Panic ''send on closed channel'', mem_Close t')"
proof -
  obtain env' t' where p: "mem_Send_prepare (NewEnvelope 0 (sample_message ''A'') []) sample_memory = (Inr env', t')"
    by (simp add: mem_Send_prepare_def sample_memory_def Let_def)
  from memory_close_during_send_panics [OF p] p show ?thesis by blast
qed

end
