(* ===== verification/Messenger_Worker.thy ===== *)
theory Messenger_Worker
  imports Messenger_Middleware Messenger_Transport
begin

text \<open>
  The consumer of \<^verbatim>\<open>src/messenger/worker\<close>: it takes messages from a receiver, dispatches them on a bus
  and settles them.

  The goroutines \<^verbatim>\<open>Run\<close> starts are copies of \<^verbatim>\<open>consumeLoop\<close>; one of them is modelled. The loop is run
  over a list of ticks, one per iteration, that say when the context is cancelled; when the list ends
  the loop is still running. \<open>clock\<close> is the time at which message number \<open>i\<close> is handled.
\<close>

section \<open>Construction\<close>

record worker_options =
  wo_Concurrency :: int
  wo_PollInterval :: int
  wo_ShutdownTimeout :: int

definition worker_DefaultOptions :: worker_options where
  "worker_DefaultOptions =
     \<lparr>wo_Concurrency = 1, wo_PollInterval = 1000000000, wo_ShutdownTimeout = 30 * 1000000000\<rparr>"

datatype worker_option = WithConcurrency int | WithPollInterval int | WithShutdownTimeout int

fun apply_worker_option :: "worker_option \<Rightarrow> worker_options \<Rightarrow> worker_options" where
  "apply_worker_option (WithConcurrency n) o' = o'\<lparr>wo_Concurrency := n\<rparr>"
| "apply_worker_option (WithPollInterval d) o' = o'\<lparr>wo_PollInterval := d\<rparr>"
| "apply_worker_option (WithShutdownTimeout d) o' = o'\<lparr>wo_ShutdownTimeout := d\<rparr>"

text \<open>\<open>show_duration\<close> is \<^verbatim>\<open>time.Duration.String\<close>.\<close>

definition worker_New :: "(int \<Rightarrow> string) \<Rightarrow> worker_option list \<Rightarrow> worker_options exec" where
  "worker_New show_duration opts =
     (let o' = fold apply_worker_option opts worker_DefaultOptions in
      if wo_Concurrency o' < 1
      then Panic (''worker: concurrency must be >= 1, got '' @ itoa (wo_Concurrency o'))
      else if wo_PollInterval o' \<le> 0
      then Panic (''worker: poll_interval must be > 0, got '' @ show_duration (wo_PollInterval o'))
      else if wo_ShutdownTimeout o' \<le> 0
      then Panic (''worker: shutdown_timeout must be > 0, got '' @ show_duration (wo_ShutdownTimeout o'))
      else Ret o')"

text \<open>The check at the start of \<^verbatim>\<open>Run\<close>.\<close>

fun worker_Run_check :: "(string \<rightharpoonup> 'r) \<Rightarrow> string list \<Rightarrow> goerr option" where
  "worker_Run_check receivers [] = None"
| "worker_Run_check receivers (name # names) =
     (if receivers name = None then Some (errorf (''worker: transport '' @ quote name @ '' not registered''))
      else worker_Run_check receivers names)"

section \<open>Processing\<close>

type_synonym ('s, 'p, 'v) dispatch_fn =
  "mctx \<Rightarrow> 'p msg \<Rightarrow> 'v stamp list \<Rightarrow> ('s, ('p, 'v) dispatch_result \<times> goerr option) go"

definition processMessage ::
  "('s, 'p, 'v) dispatch_fn \<Rightarrow> (mctx \<Rightarrow> ('p, 'v) envelope \<Rightarrow> ('s, goerr option) go) \<Rightarrow>
   (mctx \<Rightarrow> ('p, 'v) envelope \<Rightarrow> goerr option \<Rightarrow> ('s, goerr option) go) \<Rightarrow>
   int \<Rightarrow> mctx \<Rightarrow> string \<Rightarrow> ('p, 'v) envelope \<Rightarrow> ('s, unit) go" where
  "processMessage dispatch ack reject now ctx transportName env0 =
     (let env = WithStamp (ReceivedStamp transportName now) env0 in
      go_bind (dispatch ctx (Message env) (stamps env)) (\<lambda>(_, err).
        case err of
          Some e \<Rightarrow> go_bind (reject ctx env (Some e)) (\<lambda>_. go_return ())
        | None \<Rightarrow> go_bind (ack ctx env) (\<lambda>_. go_return ())))"

fun process_batch ::
  "('s, 'p, 'v) dispatch_fn \<Rightarrow> (mctx \<Rightarrow> ('p, 'v) envelope \<Rightarrow> ('s, goerr option) go) \<Rightarrow>
   (mctx \<Rightarrow> ('p, 'v) envelope \<Rightarrow> goerr option \<Rightarrow> ('s, goerr option) go) \<Rightarrow>
   (nat \<Rightarrow> int) \<Rightarrow> mctx \<Rightarrow> string \<Rightarrow> ('p, 'v) envelope list \<Rightarrow> ('s, unit) go" where
  "process_batch dispatch ack reject clock ctx transportName [] = go_return ()"
| "process_batch dispatch ack reject clock ctx transportName (env # envs) =
     go_bind (processMessage dispatch ack reject (clock 0) ctx transportName env) (\<lambda>_.
       process_batch dispatch ack reject (\<lambda>i. clock (Suc i)) ctx transportName envs)"

record tick =
  tk_cancelled :: bool
  tk_cancelled_in_Get :: bool
  tk_clock :: "nat \<Rightarrow> int"

text \<open>The answer tells whether the loop has returned.\<close>

fun consumeLoop ::
  "('s, 'p, 'v) dispatch_fn \<Rightarrow> ('s, 'p, 'v) receiver \<Rightarrow> mctx \<Rightarrow> string \<Rightarrow> tick list \<Rightarrow> ('s, bool) go" where
  "consumeLoop dispatch rv ctx transportName [] = go_return False"
| "consumeLoop dispatch rv ctx transportName (tk # tks) =
     (if tk_cancelled tk then go_return True
      else go_bind (rv_Get rv ctx) (\<lambda>(envelopes, err).
        case err of
          Some e \<Rightarrow>
            if tk_cancelled_in_Get tk then go_return True
            else consumeLoop dispatch rv ctx transportName tks
        | None \<Rightarrow>
            if envelopes = [] then consumeLoop dispatch rv ctx transportName tks
            else go_bind (process_batch dispatch (rv_Ack rv) (rv_Reject rv) (tk_clock tk) ctx transportName envelopes) (\<lambda>_.
                   consumeLoop dispatch rv ctx transportName tks)))"

section \<open>What the consumer does with a receiver\<close>

text \<open>
  A dispatcher that loses no message of the receiver; and one that records in its state, as \<open>settled\<close>, every message whose
  dispatch succeeds. A dispatch of the same message may fail at one time and succeed at another.
\<close>

definition dispatch_settles ::
  "(('p, 'v) envelope \<Rightarrow> string option) \<Rightarrow> ('s \<Rightarrow> string \<Rightarrow> bool) \<Rightarrow> ('s, 'p, 'v) dispatch_fn \<Rightarrow> bool" where
  "dispatch_settles id_of settled dispatch \<longleftrightarrow>
     (\<forall>ctx m ss s r s' j. dispatch ctx m ss s = (r, s') \<longrightarrow> settled s j \<longrightarrow> settled s' j) \<and>
     (\<forall>ctx env s res s' k. dispatch ctx (Message env) (stamps env) s = (Ret (res, None), s') \<longrightarrow>
        id_of env = Some k \<longrightarrow> settled s' k)"

definition dispatch_keeps ::
  "('s \<Rightarrow> bool) \<Rightarrow> ('s \<Rightarrow> string \<Rightarrow> bool) \<Rightarrow> ('s \<Rightarrow> string \<Rightarrow> bool) \<Rightarrow> ('s, 'p, 'v) dispatch_fn \<Rightarrow> bool" where
  "dispatch_keeps ok held taken dispatch \<longleftrightarrow>
     (\<forall>ctx m ss s r s'. dispatch ctx m ss s = (r, s') \<longrightarrow> ok s \<longrightarrow>
        ok s' \<and> (\<forall>j. held s j \<longrightarrow> held s' j) \<and> (\<forall>j. taken s j \<longrightarrow> taken s' j))"

lemma dispatch_keepsD:
  "dispatch_keeps ok held taken dispatch \<Longrightarrow> dispatch ctx m ss s = (r, s') \<Longrightarrow> ok s \<Longrightarrow>
   ok s' \<and> (\<forall>j. held s j \<longrightarrow> held s' j) \<and> (\<forall>j. taken s j \<longrightarrow> taken s' j)"
  by (simp add: dispatch_keeps_def)

lemma processMessage_cases:
  assumes "processMessage dispatch ack reject now ctx name env0 s = (r, s')"
  obtains (panicked) p where "dispatch ctx (Message env0) (stamps env0 @ [ReceivedStamp name now]) s = (Panic p, s')"
      "r = Panic p"
  | (acked) res s1 ra where "dispatch ctx (Message env0) (stamps env0 @ [ReceivedStamp name now]) s = (Ret (res, None), s1)"
      "ack ctx (WithStamp (ReceivedStamp name now) env0) s1 = (ra, s')"
      "r = (case ra of Ret _ \<Rightarrow> Ret () | Panic p \<Rightarrow> Panic p)"
  | (rejected) res e s1 ra where "dispatch ctx (Message env0) (stamps env0 @ [ReceivedStamp name now]) s = (Ret (res, Some e), s1)"
      "reject ctx (WithStamp (ReceivedStamp name now) env0) (Some e) s1 = (ra, s')"
      "r = (case ra of Ret _ \<Rightarrow> Ret () | Panic p \<Rightarrow> Panic p)"
proof -
  let ?env = "WithStamp (ReceivedStamp name now) env0"
  obtain d s1 where d: "dispatch ctx (Message env0) (stamps env0 @ [ReceivedStamp name now]) s = (d, s1)" by fastforce
  then have d': "dispatch ctx (Message ?env) (stamps ?env) s = (d, s1)" by (simp add: WithStamp_def)
  show thesis
  proof (cases d)
    case (Panic p)
    with assms d d' show thesis by (intro panicked [of p]) (auto simp: processMessage_def Let_def go_bind_def)
  next
    case (Ret v)
    obtain res err where v: "v = (res, err)" by fastforce
    show thesis
    proof (cases err)
      case None
      obtain ra s2 where "ack ctx ?env s1 = (ra, s2)" by fastforce
      with assms d d' Ret v None show thesis
        by (intro acked [of res s1 ra]) (auto simp: processMessage_def Let_def go_bind_def split: exec.splits)
    next
      case (Some e)
      obtain ra s2 where "reject ctx ?env (Some e) s1 = (ra, s2)" by fastforce
      with assms d d' Ret v Some show thesis
        by (intro rejected [of res e s1 ra]) (auto simp: processMessage_def Let_def go_bind_def split: exec.splits)
    qed
  qed
qed

context message_receiver
begin

lemma processMessage_others:
  assumes "ok s" "id_of env = Some k" "taken s k" "dispatch_keeps ok held taken dispatch"
    and "processMessage dispatch ack reject now ctx name env s = (r, s')"
  shows "ok s' \<and> (\<forall>j. j \<noteq> k \<longrightarrow> (held s j \<longrightarrow> held s' j) \<and> (taken s j \<longrightarrow> taken s' j))"
  using assms(5)
proof (cases rule: processMessage_cases)
  case (panicked p)
  then show ?thesis using dispatch_keepsD [OF assms(4) panicked(1) assms(1)] by auto
next
  case (acked res s1 ra)
  then show ?thesis
    using dispatch_keepsD [OF assms(4) acked(1) assms(1)] assms(2,3) ack_law [of s1 "WithStamp (ReceivedStamp name now) env" k ctx ra s']
    by (auto simp: id_received)
next
  case (rejected res e s1 ra)
  then show ?thesis
    using dispatch_keepsD [OF assms(4) rejected(1) assms(1)] assms(2,3)
      reject_law [of s1 "WithStamp (ReceivedStamp name now) env" k ctx "Some e" ra s']
    by (auto simp: id_received)
qed

lemma processMessage_acks:
  assumes "ok s" "id_of env = Some k" "taken s k" "dispatch_keeps ok held taken dispatch"
    and "dispatch ctx (Message env) (stamps env @ [ReceivedStamp name now]) s = (Ret (res, None), s1)"
    and "ack ctx (WithStamp (ReceivedStamp name now) env) s1 = (Ret None, s2)"
  shows "processMessage dispatch ack reject now ctx name env s = (Ret (), s2) \<and> \<not> held s2 k"
proof -
  have "\<not> held s2 k"
    using dispatch_keepsD [OF assms(4,5,1)] assms(2,3) ack_law [of s1 "WithStamp (ReceivedStamp name now) env" k ctx "Ret None" s2] assms(6)
    by (auto simp: id_received)
  then show ?thesis using assms(5,6) by (simp add: processMessage_def Let_def go_bind_def WithStamp_def)
qed

end

text \<open>
  A receiver whose messages survive a rejection that fails. \<open>fetches\<close> is its whole \<^verbatim>\<open>Get\<close>, with its failures; its operations
  leave what is settled alone.
\<close>

locale durable_receiver = message_receiver gets ack reject id_of held taken ok
  for gets :: "'s \<Rightarrow> ('p, 'v) envelope list \<Rightarrow> 's \<Rightarrow> bool" and ack reject id_of held taken ok +
  fixes fetches :: "'s \<Rightarrow> (('p, 'v) envelope list \<times> goerr option) exec \<Rightarrow> 's \<Rightarrow> bool"
    and settled :: "'s \<Rightarrow> string \<Rightarrow> bool"
  assumes reject_keeps:
      "ok s \<Longrightarrow> id_of env = Some k \<Longrightarrow> taken s k \<Longrightarrow> reject ctx env reason s = (r, s') \<Longrightarrow> held s' k"
    and settle_keeps:
      "ack ctx env s = (r, s') \<Longrightarrow> settled s' = settled s" "reject ctx env reason s = (r, s') \<Longrightarrow> settled s' = settled s"
    and fetches_law:
      "ok s \<Longrightarrow> fetches s x s' \<Longrightarrow>
       ok s' \<and> held s' = held s \<and> settled s' = settled s \<and> (\<forall>envs. x = Ret (envs, None) \<longrightarrow> gets s envs s')"
begin

lemma processMessage_settles:
  assumes "ok s" "id_of env = Some k" "taken s k" "dispatch_keeps ok held taken dispatch"
    and settles: "dispatch_settles id_of settled dispatch"
    and "processMessage dispatch ack reject now ctx name env s = (r, s')"
  shows "(\<forall>j. settled s j \<longrightarrow> settled s' j) \<and> (held s' k \<or> settled s' k)"
proof -
  let ?env = "WithStamp (ReceivedStamp name now) env"
  have env: "Message ?env = Message env" "stamps ?env = stamps env @ [ReceivedStamp name now]" by (simp_all add: WithStamp_def)
  have "id_of ?env = Some k" using assms(2) by (simp only: id_received)
  note env = env this
  note grows = settles [unfolded dispatch_settles_def, THEN conjunct1, rule_format]
  from assms(6) show ?thesis
  proof (cases rule: processMessage_cases)
    case (panicked p)
    then show ?thesis
      using dispatch_keepsD [OF assms(4) panicked(1) assms(1)] taken_held assms(1,3) grows [OF panicked(1)] by blast
  next
    case (acked res s1 ra)
    have "settled s1 k"
      using settles [unfolded dispatch_settles_def, THEN conjunct2, rule_format, of ctx ?env s res s1 k] acked(1) env by simp
    then show ?thesis using grows [OF acked(1)] settle_keeps(1) [OF acked(2)] by auto
  next
    case (rejected res e s1 ra)
    have "ok s1 \<and> taken s1 k" using dispatch_keepsD [OF assms(4) rejected(1) assms(1)] assms(3) by blast
    then have "held s' k" using reject_keeps [OF _ env(3) _ rejected(2)] by blast
    then show ?thesis using grows [OF rejected(1)] settle_keeps(2) [OF rejected(2)] by auto
  qed
qed

lemma process_batch_settles:
  assumes "ok s" "dispatch_keeps ok held taken dispatch" "dispatch_settles id_of settled dispatch"
    and "distinct (map id_of envs)" "\<forall>env \<in> set envs. \<exists>j. id_of env = Some j \<and> taken s j"
    and "process_batch dispatch ack reject clock ctx name envs s = (r, s')"
  shows "ok s' \<and> (\<forall>k. held s k \<or> settled s k \<longrightarrow> held s' k \<or> settled s' k)"
  using assms(1,4-)
proof (induction envs arbitrary: s clock)
  case (Cons env envs)
  obtain j where j: "id_of env = Some j" "taken s j" using Cons.prems(3) by auto
  obtain r1 s1 where p: "processMessage dispatch ack reject (clock 0) ctx name env s = (r1, s1)" by fastforce
  have others: "ok s1" "\<forall>i. i \<noteq> j \<longrightarrow> (held s i \<longrightarrow> held s1 i) \<and> (taken s i \<longrightarrow> taken s1 i)"
    using processMessage_others [OF Cons.prems(1) j assms(2) p] by auto
  have k1: "\<forall>k. held s k \<or> settled s k \<longrightarrow> held s1 k \<or> settled s1 k"
  proof (intro allI impI)
    fix k assume "held s k \<or> settled s k"
    then show "held s1 k \<or> settled s1 k"
      using processMessage_settles [OF Cons.prems(1) j assms(2,3) p] others(2) by (cases "k = j") auto
  qed
  have t1: "\<forall>e \<in> set envs. \<exists>i. id_of e = Some i \<and> taken s1 i"
  proof
    fix e assume e: "e \<in> set envs"
    then obtain i where i: "id_of e = Some i" "taken s i" using Cons.prems(3) by auto
    have "i \<noteq> j" using Cons.prems(2) e i(1) j(1) by (metis distinct.simps(2) image_eqI list.simps(9) set_map)
    with others(2) i show "\<exists>i. id_of e = Some i \<and> taken s1 i" by blast
  qed
  show ?case
  proof (cases r1)
    case (Panic q)
    with Cons.prems(4) p k1 others(1) show ?thesis by (simp add: go_bind_def)
  next
    case (Ret u)
    then have "process_batch dispatch ack reject (\<lambda>i. clock (Suc i)) ctx name envs s1 = (r, s')"
      using Cons.prems(4) p by (simp add: go_bind_def)
    with Cons.IH [OF others(1)] t1 Cons.prems(2)
    have "ok s' \<and> (\<forall>k. held s1 k \<or> settled s1 k \<longrightarrow> held s' k \<or> settled s' k)" by simp
    then show ?thesis using k1 by blast
  qed
qed simp

lemma consumeLoop_settles:
  assumes "ok s" "dispatch_keeps ok held taken dispatch" "dispatch_settles id_of settled dispatch"
    and rv: "rv_Ack rv = ack" "rv_Reject rv = reject" "\<And>ctx s r s'. rv_Get rv ctx s = (r, s') \<Longrightarrow> fetches s r s'"
    and "consumeLoop dispatch rv ctx name tks s = (r, s')"
  shows "\<forall>k. held s k \<or> settled s k \<longrightarrow> held s' k \<or> settled s' k"
  using assms(1,7)
proof (induction tks arbitrary: s)
  case (Cons tk tks)
  obtain x s1 where x: "rv_Get rv ctx s = (x, s1)" by fastforce
  note got = fetches_law [OF Cons.prems(1) rv(3) [OF x]]
  show ?case
  proof (cases "tk_cancelled tk \<or> (\<forall>envs. x \<noteq> Ret (envs, None)) \<or> x = Ret ([], None)")
    case True
    then have "s' = s \<or> s' = s1 \<or> consumeLoop dispatch rv ctx name tks s1 = (r, s')"
      using Cons.prems(2) x by (auto simp: go_bind_def split: exec.splits option.splits if_splits)
    then show ?thesis using got Cons.IH [of s1] by auto
  next
    case False
    then obtain envs where envs: "x = Ret (envs, None)" "envs \<noteq> []" by auto
    obtain y s2 where y: "process_batch dispatch ack reject (tk_clock tk) ctx name envs s1 = (y, s2)" by fastforce
    have "gets s envs s1" using got envs by blast
    from gets_law [OF Cons.prems(1) this]
    have batch: "ok s2 \<and> (\<forall>k. held s1 k \<or> settled s1 k \<longrightarrow> held s2 k \<or> settled s2 k)"
      using process_batch_settles [OF _ assms(2,3) _ _ y] by blast
    have "s' = s2 \<or> consumeLoop dispatch rv ctx name tks s2 = (r, s')"
      using Cons.prems(2) False x envs y rv(1,2) by (auto simp: go_bind_def split: exec.splits)
    then show ?thesis using got batch Cons.IH [of s2] by auto
  qed
qed simp

end

section \<open>A consumer on a bus that routes\<close>

text \<open>C40: a consumer that dispatches on a bus which routes the message's own type sends the message to
  a transport again instead of handling it: without \<^verbatim>\<open>ForceSync\<close> the outcome does not depend on the
  registered handlers, and a successful send acknowledges the message.\<close>

theorem worker_resends_routed:
  assumes "\<not> b_closed b" and "b_mws b = []" and "Route (b_router b) (Message env) = t" and "t \<noteq> []"
    and "b_transports b t = Some sender" and "\<not> HasStamp NameForceSync env" and "\<not> HasStamp NameForceTransport env"
  shows "processMessage (bus_Dispatch b clk) ack reject now ctx name env =
       go_bind (sender ctx (NewEnvelope clk (Message env) (stamps env @ [ReceivedStamp name now]))) (\<lambda>err.
         case err of
           Some e \<Rightarrow> go_bind (reject ctx (WithStamp (ReceivedStamp name now) env)
                        (Some (errorf_w (''messenger: transport '' @ quote t @ '' send failed'') e))) (\<lambda>_. go_return ())
         | None \<Rightarrow> go_bind (ack ctx (WithStamp (ReceivedStamp name now) env)) (\<lambda>_. go_return ()))"
proof -
  let ?env = "NewEnvelope clk (Message env) (stamps env @ [ReceivedStamp name now])"
  have "Last n ?env = Last n env" if "n \<noteq> NameReceived" for n
    using that by (simp add: Last_def NewEnvelope_def last_named_append)
  then have "\<not> HasStamp NameForceSync ?env" "Last NameForceTransport ?env = None"
    using assms(6,7) by (simp_all add: HasStamp_Last) (simp_all add: stamp_name_defs)
  then have dec: "decide (b_router b) ?env = ToTransport t"
    using assms(3,4) by (auto simp: decide_def NewEnvelope_def Route_def get_str_def split: option.splits)
  have d: "bus_Dispatch b clk ctx (Message env) (stamps env @ [ReceivedStamp name now]) = sendToTransport b t ctx ?env"
    using assms(1,2) dec by (simp add: bus_Dispatch_def buildChain_def dispatchTerminal_decide)
  let ?r = "WithStamp (ReceivedStamp name now) env"
  have "Message ?r = Message env" "stamps ?r = stamps env @ [ReceivedStamp name now]"
    by (simp_all add: WithStamp_def)
  then show ?thesis
    unfolding processMessage_def Let_def d sendToTransport_def assms(5) option.case go_bind_assoc
    by (simp only: d sendToTransport_def assms(5) option.case go_bind_assoc)
      (auto intro!: arg_cong [where f = "go_bind (sender ctx ?env)"] split: option.split)
qed

theorem worker_resends_routed_witness:
  "processMessage (bus_Dispatch recording_bus 0) (\<lambda>ctx env s. (Ret None, s)) (\<lambda>ctx env e s. (Ret None, s)) 0 background ''queue''
     (NewEnvelope 0 (sample_message ''Job'') []) []
   = (Ret (), [NewEnvelope 0 (sample_message ''Job'') [ReceivedStamp ''queue'' 0]])"
proof -
  have "Route (b_router recording_bus) (Message (NewEnvelope 0 (sample_message ''Job'') [])) = ''queue''"
    "\<not> HasStamp NameForceSync (NewEnvelope 0 (sample_message ''Job'') [])"
    "\<not> HasStamp NameForceTransport (NewEnvelope 0 (sample_message ''Job'') [])"
    by (simp_all add: Route_def recording_bus_def NewEnvelope_def sample_message_def TypeNameOf_def HasStamp_def)
  then show ?thesis
    by (subst worker_resends_routed [where t = "''queue''" and sender = "\<lambda>ctx env trail. (Ret None, trail @ [env])"])
      (simp_all add: recording_bus_def go_bind_def NewEnvelope_def)
qed

end
