(* ===== verification/Messenger_Outbox.thy ===== *)
theory Messenger_Outbox
  imports Messenger_Worker Outbox_Store "HOL-Library.Multiset"
begin

text \<open>
  The outbox transport of \<^verbatim>\<open>src/messenger/transport/outbox\<close> and its PostgreSQL store, on the same table
  \<^verbatim>\<open>outbox_events\<close> as the event outbox. The serializer is an argument (\<open>encode\<close>, \<open>decode\<close>), as it is an
  interface of the transport. PostgreSQL does not order the rows of \<^verbatim>\<open>UPDATE ... RETURNING\<close>: their order
  is the argument \<open>arrange\<close>. A column the \<^verbatim>\<open>INSERT\<close> does not name has no metadata.
\<close>

section \<open>The store\<close>

record mo_entry =
  mo_ID :: string
  mo_AggregateType :: string
  mo_AggregateID :: string
  mo_EventType :: string
  mo_Payload :: string
  mo_TraceID :: string
  mo_CreatedAt :: int
  mo_RetryCount :: int

abbreviation DefaultMaxRetries :: int where
  "DefaultMaxRetries \<equiv> 10"

record postgres_store =
  ps_claimTimeout :: int
  ps_maxRetries :: int

datatype store_option = WithClaimTimeout int | WithMaxRetries int

fun apply_store_option :: "store_option \<Rightarrow> postgres_store \<Rightarrow> postgres_store" where
  "apply_store_option (WithClaimTimeout d) s = s\<lparr>ps_claimTimeout := d\<rparr>"
| "apply_store_option (WithMaxRetries n) s = s\<lparr>ps_maxRetries := n\<rparr>"

definition NewPostgresStore :: "store_option list \<Rightarrow> postgres_store" where
  "NewPostgresStore opts =
     fold apply_store_option opts \<lparr>ps_claimTimeout = 5 * 60 * second, ps_maxRetries = DefaultMaxRetries\<rparr>"

definition entry_row :: "mo_entry \<Rightarrow> outbox_row" where
  "entry_row entry =
     \<lparr>row_id = mo_ID entry, row_aggregate_type = mo_AggregateType entry, row_aggregate_id = mo_AggregateID entry,
      row_event_type = mo_EventType entry, row_payload = mo_Payload entry, row_trace_id = mo_TraceID entry,
      row_metadata = Map.empty, row_created_at = mo_CreatedAt entry, row_claimed_at = None, row_lease_token = None,
      row_published_at = None, row_retry_count = 0, row_last_error = []\<rparr>"

definition mo_Insert :: "mctx \<Rightarrow> mo_entry \<Rightarrow> (('x database_scheme, 'm) world_scheme, goerr option) go" where
  "mo_Insert ctx entry =
     go_bind (on_db (executor (go_ctx.truncate ctx) (insert_outbox_row (entry_row entry)))) (\<lambda>r.
       case r of
         Inr err \<Rightarrow> go_return (Some (errorf_w (''outbox postgres: insert '' @ quote (mo_ID entry)) err))
       | Inl _ \<Rightarrow> go_return None)"

definition row_entry :: "outbox_row \<Rightarrow> mo_entry" where
  "row_entry r =
     \<lparr>mo_ID = row_id r, mo_AggregateType = row_aggregate_type r, mo_AggregateID = row_aggregate_id r,
      mo_EventType = row_event_type r, mo_Payload = row_payload r, mo_TraceID = row_trace_id r,
      mo_CreatedAt = row_created_at r, mo_RetryCount = row_retry_count r\<rparr>"

definition deliverable :: "postgres_store \<Rightarrow> outbox_row \<Rightarrow> bool" where
  "deliverable st r \<longleftrightarrow> row_published_at r = None \<and> row_retry_count r < ps_maxRetries st"

definition simple_select :: "postgres_store \<Rightarrow> int \<Rightarrow> 'x database_scheme \<Rightarrow> outbox_row list" where
  "simple_select st batchSize d =
     take (nat batchSize) (sort_key row_created_at (filter (deliverable st) (outbox_events d)))"

abbreviation mo_claimable :: "postgres_store \<Rightarrow> int \<Rightarrow> outbox_row \<Rightarrow> bool" where
  "mo_claimable st now r \<equiv> deliverable st r \<and>
     (case row_claimed_at r of None \<Rightarrow> True | Some c \<Rightarrow> c < now - (ps_claimTimeout st div second) * second)"

definition claim_select :: "postgres_store \<Rightarrow> int \<Rightarrow> int \<Rightarrow> 'x database_scheme \<Rightarrow> outbox_row list" where
  "claim_select st now batchSize d =
     take (nat batchSize) (sort_key row_created_at (filter (mo_claimable st now) (outbox_events d)))"

text \<open>The two queries as statements; the second claims what it returns.\<close>

definition simple_query :: "postgres_store \<Rightarrow> int \<Rightarrow> ('x database_scheme, outbox_row list) statement" where
  "simple_query st batchSize d = (Inl (simple_select st batchSize d), d)"

definition claim_query ::
  "(outbox_row list \<Rightarrow> outbox_row list) \<Rightarrow> postgres_store \<Rightarrow> int \<Rightarrow> int \<Rightarrow> ('x database_scheme, outbox_row list) statement" where
  "claim_query arrange st now batchSize d =
     (let ids = set (map row_id (claim_select st now batchSize d));
          d' = snd (update_rows (\<lambda>r. row_id r \<in> ids) (\<lambda>r. r\<lparr>row_claimed_at := Some now\<rparr>) d)
      in (Inl (arrange (filter (\<lambda>r. row_id r \<in> ids) (outbox_events d'))), d'))"

definition scanEntries ::
  "('x database_scheme, outbox_row list) statement \<Rightarrow>
   (('x database_scheme, 'm) world_scheme, mo_entry list \<times> goerr option) go" where
  "scanEntries query =
     go_bind (on_db (db_Exec query)) (\<lambda>r.
       case r of
         Inr err \<Rightarrow> go_return ([], Some (errorf_w ''outbox postgres: query unpublished'' err))
       | Inl rows \<Rightarrow>
           go_bind (on_db driver_call) (\<lambda>rerr.
             case rerr of
               Some err \<Rightarrow> go_return ([], Some (errorf_w ''outbox postgres: rows'' err))
             | None \<Rightarrow> go_return (map row_entry rows, None)))"

definition GetUnpublished ::
  "(outbox_row list \<Rightarrow> outbox_row list) \<Rightarrow> postgres_store \<Rightarrow> int \<Rightarrow> int \<Rightarrow>
   (('x database_scheme, 'm) world_scheme, mo_entry list \<times> goerr option) go" where
  "GetUnpublished arrange st now batchSize =
     (if ps_claimTimeout st \<le> 0 then scanEntries (simple_query st batchSize)
      else scanEntries (claim_query arrange st now batchSize))"

abbreviation mo_mark_statement :: "int \<Rightarrow> string \<Rightarrow> ('x database_scheme, unit) statement" where
  "mo_mark_statement now i \<equiv>
     update_rows (\<lambda>r. row_id r = i) (\<lambda>r. r\<lparr>row_published_at := Some now, row_claimed_at := None\<rparr>)"

definition mo_MarkPublished :: "int \<Rightarrow> string \<Rightarrow> (('x database_scheme, 'm) world_scheme, goerr option) go" where
  "mo_MarkPublished now i =
     go_bind (on_db (db_Exec (mo_mark_statement now i))) (\<lambda>r.
       case r of
         Inr err \<Rightarrow> go_return (Some (errorf_w (''outbox postgres: mark published '' @ quote i) err))
       | Inl _ \<Rightarrow> go_return None)"

abbreviation retry_statement :: "string \<Rightarrow> string \<Rightarrow> ('x database_scheme, unit) statement" where
  "retry_statement i lastError \<equiv>
     update_rows (\<lambda>r. row_id r = i)
       (\<lambda>r. r\<lparr>row_retry_count := row_retry_count r + 1, row_last_error := lastError, row_claimed_at := None\<rparr>)"

definition IncrementRetry :: "string \<Rightarrow> string \<Rightarrow> (('x database_scheme, 'm) world_scheme, goerr option) go" where
  "IncrementRetry i lastError =
     go_bind (on_db (db_Exec (retry_statement i lastError))) (\<lambda>r.
       case r of
         Inr err \<Rightarrow> go_return (Some (errorf_w (''outbox postgres: increment retry '' @ quote i) err))
       | Inl _ \<Rightarrow> go_return None)"

section \<open>The transport\<close>

record ('p, 'v) outbox_transport =
  ot_store :: postgres_store
  ot_encode :: "('p, 'v) envelope \<Rightarrow> string + goerr"
  ot_decode :: "string \<Rightarrow> ('p, 'v) envelope + goerr"
  ot_batchSize :: int

text \<open>The two stamps \<^verbatim>\<open>Send\<close> reads; the type assertions panic.\<close>

abbreviation aggregate_of :: "('p, 'v) envelope \<Rightarrow> (string \<times> string) exec" where
  "aggregate_of env \<equiv>
     (case Last NameAggregate env of
        None \<Rightarrow> Ret ([], [])
      | Some (AggregateStamp ty i) \<Rightarrow> Ret (ty, i)
      | Some _ \<Rightarrow> Panic (assertion_panic ''stamp.AggregateStamp''))"

abbreviation trace_of :: "('p, 'v) envelope \<Rightarrow> string exec" where
  "trace_of env \<equiv>
     (case Last NameTrace env of
        None \<Rightarrow> Ret []
      | Some (TraceStamp traceID sp headers) \<Rightarrow> Ret traceID
      | Some _ \<Rightarrow> Panic (assertion_panic ''stamp.TraceStamp''))"

definition outbox_Send ::
  "('p, 'v) outbox_transport \<Rightarrow> string \<Rightarrow> mctx \<Rightarrow> ('p, 'v) envelope \<Rightarrow>
   (('x database_scheme, 'm) world_scheme, goerr option) go" where
  "outbox_Send t uuid ctx env =
     (case ot_encode t env of
        Inr err \<Rightarrow> go_return (Some (errorf_w ''outbox transport: encode'' err))
      | Inl data \<Rightarrow>
          (case aggregate_of env of
             Panic p \<Rightarrow> go_panic p
           | Ret (ty, i) \<Rightarrow>
               (case trace_of env of
                  Panic p \<Rightarrow> go_panic p
                | Ret traceID \<Rightarrow>
                    go_bind (mo_Insert ctx
                       \<lparr>mo_ID = uuid, mo_AggregateType = ty, mo_AggregateID = i,
                        mo_EventType = TypeNameOf (Message env), mo_Payload = data, mo_TraceID = traceID,
                        mo_CreatedAt = env_createdAt env, mo_RetryCount = 0\<rparr>) (\<lambda>err.
                      case err of
                        Some e \<Rightarrow> go_return (Some (errorf_w ''outbox transport: insert'' e))
                      | None \<Rightarrow> go_return None))))"

text \<open>The loop of \<^verbatim>\<open>Get\<close>: an entry that cannot be decoded gets its retry counted and is skipped.\<close>

fun decode_entries ::
  "('p, 'v) outbox_transport \<Rightarrow> mo_entry list \<Rightarrow>
   (('x database_scheme, 'm) world_scheme, ('p, 'v) envelope list) go" where
  "decode_entries t [] = go_return []"
| "decode_entries t (e # es) =
     (case ot_decode t (mo_Payload e) of
        Inr err \<Rightarrow>
          go_bind (IncrementRetry (mo_ID e) (''decode: '' @ err_text err)) (\<lambda>retryErr. decode_entries t es)
      | Inl env \<Rightarrow>
          go_bind (decode_entries t es) (\<lambda>envelopes. go_return (WithStamp (OutboxIDStamp (mo_ID e)) env # envelopes)))"

definition outbox_Get ::
  "('p, 'v) outbox_transport \<Rightarrow> (outbox_row list \<Rightarrow> outbox_row list) \<Rightarrow> int \<Rightarrow>
   (('x database_scheme, 'm) world_scheme, ('p, 'v) envelope list \<times> goerr option) go" where
  "outbox_Get t arrange now =
     go_bind (GetUnpublished arrange (ot_store t) now (ot_batchSize t)) (\<lambda>(entries, err).
       case err of
         Some e \<Rightarrow> go_return ([], Some (errorf_w ''outbox transport: get'' e))
       | None \<Rightarrow>
           if entries = [] then go_return ([], None)
           else go_bind (decode_entries t entries) (\<lambda>envelopes. go_return (envelopes, None)))"

definition outboxEntryID :: "('p, 'v) envelope \<Rightarrow> (goerr + string) exec" where
  "outboxEntryID env =
     (case Last NameOutboxID env of
        None \<Rightarrow> Ret (Inl (errorf ''outbox transport: missing OutboxIDStamp on envelope''))
      | Some (OutboxIDStamp i) \<Rightarrow> Ret (Inr i)
      | Some _ \<Rightarrow> Panic (assertion_panic ''stamp.OutboxIDStamp''))"

definition outbox_Ack ::
  "int \<Rightarrow> mctx \<Rightarrow> ('p, 'v) envelope \<Rightarrow> (('x database_scheme, 'm) world_scheme, goerr option) go" where
  "outbox_Ack now ctx env =
     (case outboxEntryID env of
        Panic p \<Rightarrow> go_panic p
      | Ret (Inl err) \<Rightarrow> go_return (Some (errorf_w ''outbox transport: ack'' err))
      | Ret (Inr i) \<Rightarrow>
          go_bind (mo_MarkPublished now i) (\<lambda>err.
            case err of
              Some e \<Rightarrow> go_return (Some (errorf_w ''outbox transport: ack'' e))
            | None \<Rightarrow> go_return None))"

definition outbox_Reject ::
  "mctx \<Rightarrow> ('p, 'v) envelope \<Rightarrow> goerr option \<Rightarrow> (('x database_scheme, 'm) world_scheme, goerr option) go" where
  "outbox_Reject ctx env reason =
     (case outboxEntryID env of
        Panic p \<Rightarrow> go_panic p
      | Ret (Inl err) \<Rightarrow> go_return (Some (errorf_w ''outbox transport: reject'' err))
      | Ret (Inr i) \<Rightarrow>
          go_bind (IncrementRetry i (case reason of None \<Rightarrow> [] | Some e \<Rightarrow> err_text e)) (\<lambda>err.
            case err of
              Some e \<Rightarrow> go_return (Some (errorf_w ''outbox transport: reject'' e))
            | None \<Rightarrow> go_return None))"

section \<open>It is a durable receiver\<close>

definition mo_id :: "('p, 'v) envelope \<Rightarrow> string option" where
  "mo_id env = (case Last NameOutboxID env of Some (OutboxIDStamp i) \<Rightarrow> Some i | _ \<Rightarrow> None)"

definition unpub :: "'x database_scheme \<Rightarrow> string \<Rightarrow> bool" where
  "unpub d k \<longleftrightarrow> (\<exists>r \<in> set (outbox_events d). row_id r = k \<and> row_published_at r = None)"

definition unpublished :: "('x database_scheme, 'm) world_scheme \<Rightarrow> string \<Rightarrow> bool" where
  "unpublished w = unpub (world_committed w)"

definition mo_ok :: "('x database_scheme, 'm) world_scheme \<Rightarrow> bool" where
  "mo_ok w \<longleftrightarrow> outbox_key (world_committed w)"

definition mo_gets ::
  "('p, 'v) outbox_transport \<Rightarrow> ('x database_scheme, 'm) world_scheme \<Rightarrow> ('p, 'v) envelope list \<Rightarrow>
   ('x database_scheme, 'm) world_scheme \<Rightarrow> bool" where
  "mo_gets t w envs w' \<longleftrightarrow>
     (\<exists>arrange now. (\<forall>rs. mset (arrange rs) = mset rs) \<and> outbox_Get t arrange now w = (Ret (envs, None), w'))"

text \<open>The transport as the consumer sees it; the clock and the order of claimed rows may depend on the state.\<close>

definition outbox_receiver ::
  "('p, 'v) outbox_transport \<Rightarrow> (('x database_scheme, 'm) world_scheme \<Rightarrow> outbox_row list \<Rightarrow> outbox_row list) \<Rightarrow>
   (('x database_scheme, 'm) world_scheme \<Rightarrow> int) \<Rightarrow> (('x database_scheme, 'm) world_scheme, 'p, 'v) receiver" where
  "outbox_receiver t arrange now =
     \<lparr>rv_Get = (\<lambda>_ w. outbox_Get t (arrange w) (now w) w), rv_Ack = (\<lambda>ctx env w. outbox_Ack (now w) ctx env w),
      rv_Reject = outbox_Reject\<rparr>"

definition mo_fetches ::
  "('p, 'v) outbox_transport \<Rightarrow> ('x database_scheme, 'm) world_scheme \<Rightarrow> (('p, 'v) envelope list \<times> goerr option) exec \<Rightarrow>
   ('x database_scheme, 'm) world_scheme \<Rightarrow> bool" where
  "mo_fetches t w r w' \<longleftrightarrow> (\<exists>arrange now. (\<forall>rs. mset (arrange rs) = mset rs) \<and> outbox_Get t arrange now w = (r, w'))"

text \<open>Messages that were handled; the operations of the transport do not touch the rest of the world.\<close>

abbreviation mo_handled :: "('m \<Rightarrow> string set) \<Rightarrow> ('x database_scheme, 'm) world_scheme \<Rightarrow> string \<Rightarrow> bool" where
  "mo_handled handled w k \<equiv> k \<in> handled (world.more w)"

lemma mo_id_WithStamp [simp]:
  "mo_id (WithStamp (OutboxIDStamp i) env) = Some i"
  "StampName st \<noteq> NameOutboxID \<Longrightarrow> mo_id (WithStamp st env) = mo_id env"
  by (simp_all add: mo_id_def Last_WithStamp)

lemma mo_id_entry: "mo_id env = Some k \<Longrightarrow> outboxEntryID env = Ret (Inr k)"
  by (auto simp: mo_id_def outboxEntryID_def split: option.splits stamp.splits)

lemma on_db_Exec_cases:
  assumes "on_db (db_Exec st) w = (r, w')"
  obtains (failed) e where "r = Ret (Inr e)" "world_committed w' = world_committed w"
  | (executed) v where "r = Ret (Inl v)" "fst (st (world_committed w)) = Inl v"
      "world_committed w' = snd (st (world_committed w))"
proof -
  obtain x q where x: "db_Exec st (db w) = (x, q)" by fastforce
  with assms have r: "r = Ret x" "w' = w\<lparr>db := q\<rparr>" by (simp_all add: on_db_def)
  show thesis
  proof (cases x)
    case (Inl v)
    with db_Exec_cases(2) [OF x, of v] r show thesis by (intro executed [of v]) (simp_all add: world_committed_def)
  next
    case (Inr e)
    with db_Exec_cases(1) [OF x, of e] r show thesis by (intro failed [of e]) (simp_all add: world_committed_def)
  qed
qed

text \<open>An operation that is one statement: it takes effect or fails.\<close>

lemma one_statement:
  assumes "go_bind (on_db (db_Exec st)) (\<lambda>r. case r of Inr err \<Rightarrow> go_return (Some (f err)) | Inl _ \<Rightarrow> go_return None) w = (r, w')"
  shows "r = Ret None \<and> world_committed w' = snd (st (world_committed w))
     \<or> (\<exists>e. r = Ret (Some e)) \<and> world_committed w' = world_committed w"
proof -
  obtain x w1 where x: "on_db (db_Exec st) w = (x, w1)" by fastforce
  from x show ?thesis
    by (cases rule: on_db_Exec_cases) (use assms x in \<open>auto simp: go_bind_def\<close>)
qed

lemma outbox_key_mo_statements:
  "outbox_key d \<Longrightarrow> outbox_key (snd (mo_mark_statement now i d))"
  "outbox_key d \<Longrightarrow> outbox_key (snd (retry_statement i e d))"
  "outbox_key d \<Longrightarrow> outbox_key (snd (claim_query arrange st now n d))"
  by (simp_all add: outbox_key_def claim_query_def Let_def)

lemma update_rows_unpub:
  assumes "\<And>r. row_id (f r) = row_id r \<and> row_published_at (f r) = row_published_at r"
  shows "unpub (snd (update_rows p f d)) = unpub d"
proof -
  let ?g = "\<lambda>r. if p r then f r else r"
  have "row_id (?g r) = row_id r \<and> row_published_at (?g r) = row_published_at r" for r using assms by simp
  then have "(\<exists>r \<in> ?g ` set (outbox_events d). row_id r = k \<and> row_published_at r = None) \<longleftrightarrow> unpub d k" for k
    unfolding bex_simps(7) unpub_def by presburger
  then show ?thesis by (simp only: unpub_def update_rows_def fun_eq_iff) simp
qed

lemma unpub_statements:
  "unpub (snd (retry_statement i e d)) = unpub d"
  "unpub (snd (claim_query arrange st now n d)) = unpub d"
  by (simp_all add: claim_query_def Let_def update_rows_unpub)

lemma IncrementRetry_effect:
  assumes "IncrementRetry i e w = (r, w')"
  shows "(\<exists>x. r = Ret x) \<and> unpublished w' = unpublished w \<and> (mo_ok w \<longrightarrow> mo_ok w')"
  using one_statement [OF assms [unfolded IncrementRetry_def]]
  by (auto simp: unpublished_def mo_ok_def outbox_key_mo_statements unpub_statements)

lemma outbox_Reject_effect:
  assumes "mo_id env = Some k" "outbox_Reject ctx env reason w = (r, w')"
  shows "(\<exists>x. r = Ret x) \<and> unpublished w' = unpublished w \<and> (mo_ok w \<longrightarrow> mo_ok w')"
proof -
  obtain x w1 where x: "IncrementRetry k (case reason of None \<Rightarrow> [] | Some e \<Rightarrow> err_text e) w = (x, w1)" by fastforce
  note eff = IncrementRetry_effect [OF x]
  then obtain y where "x = Ret y" by blast
  with assms x have "w' = w1" "\<exists>x. r = Ret x"
    by (auto simp: outbox_Reject_def mo_id_entry go_bind_def split: option.splits)
  with eff show ?thesis by simp
qed

lemma outbox_Ack_effect:
  assumes "mo_id env = Some k" "outbox_Ack now ctx env w = (r, w')"
  shows "(r = Ret None \<and> world_committed w' = snd (mo_mark_statement now k (world_committed w)))
       \<or> (\<exists>e. r = Ret (Some e)) \<and> world_committed w' = world_committed w"
proof -
  obtain x w1 where x: "mo_MarkPublished now k w = (x, w1)" by fastforce
  note eff = one_statement [OF x [unfolded mo_MarkPublished_def]]
  then obtain y where "x = Ret y" by blast
  with assms x eff show ?thesis
    by (auto simp: outbox_Ack_def mo_id_entry go_bind_def split: option.splits)
qed

lemma decode_entries_effect:
  "\<exists>envs w'. decode_entries t es w = (Ret envs, w') \<and> unpublished w' = unpublished w \<and> (mo_ok w \<longrightarrow> mo_ok w')
     \<and> map mo_id envs = map Some (map mo_ID (filter (\<lambda>e. \<exists>env. ot_decode t (mo_Payload e) = Inl env) es))"
proof (induction es arbitrary: w)
  case (Cons e es)
  show ?case
  proof (cases "ot_decode t (mo_Payload e)")
    case (Inl env)
    obtain envs w' where "decode_entries t es w = (Ret envs, w')" "unpublished w' = unpublished w" "mo_ok w \<longrightarrow> mo_ok w'"
      "map mo_id envs = map Some (map mo_ID (filter (\<lambda>e. \<exists>env. ot_decode t (mo_Payload e) = Inl env) es))"
      using Cons.IH [of w] by auto
    with Inl show ?thesis by (simp add: go_bind_def)
  next
    case (Inr err)
    obtain x w1 where x: "IncrementRetry (mo_ID e) (''decode: '' @ err_text err) w = (x, w1)" by fastforce
    note eff = IncrementRetry_effect [OF x]
    then obtain y where "x = Ret y" by blast
    with Inr x eff Cons.IH [of w1] show ?thesis by (auto simp: go_bind_def)
  qed
qed simp

lemma query_rows:
  assumes "outbox_key d" and "\<forall>rs. mset (arrange rs) = mset rs"
    and "query = simple_query st n \<or> query = claim_query arrange st now n" and "fst (query d) = Inl rows"
  shows "distinct (map row_id rows) \<and> (\<forall>r \<in> set rows. unpub d (row_id r))"
    and "outbox_key (snd (query d)) \<and> unpub (snd (query d)) = unpub d"
proof -
  let ?ids = "set (map row_id (claim_select st now n d))"
  let ?d = "snd (update_rows (\<lambda>r. row_id r \<in> ?ids) (\<lambda>r. r\<lparr>row_claimed_at := Some now\<rparr>) d)"
  let ?claimed = "filter (\<lambda>r. row_id r \<in> ?ids) (outbox_events ?d)"
  have simple: "distinct (map row_id (simple_select st n d))" "\<forall>r \<in> set (simple_select st n d). unpub d (row_id r)"
  proof -
    have "distinct (map row_id (sort_key row_created_at (filter (deliverable st) (outbox_events d))))"
      using assms(1) by (auto simp: outbox_key_def distinct_map intro: inj_on_subset)
    then show "distinct (map row_id (simple_select st n d))"
      by (simp add: simple_select_def take_map [symmetric])
    show "\<forall>r \<in> set (simple_select st n d). unpub d (row_id r)"
      by (auto simp: simple_select_def unpub_def deliverable_def dest!: in_set_takeD)
  qed
  have "distinct (map row_id (outbox_events ?d))" using assms(1) by (simp add: outbox_key_def)
  then have "distinct (map row_id ?claimed)" by (rule distinct_map_filter)
  moreover have "mset (map row_id (arrange ?claimed)) = mset (map row_id ?claimed)" using assms(2) by simp
  ultimately have claimed: "distinct (map row_id (arrange ?claimed))" by (metis mset_eq_imp_distinct_iff)
  have "set (arrange ?claimed) = set ?claimed" using assms(2) by (metis set_mset_mset)
  moreover have "unpub d k" if "k \<in> ?ids" for k
    using that by (auto simp: claim_select_def deliverable_def unpub_def dest!: in_set_takeD)
  ultimately have "\<forall>r \<in> set (arrange ?claimed). unpub d (row_id r)" by auto
  with claimed simple assms(3,4) show "distinct (map row_id rows) \<and> (\<forall>r \<in> set rows. unpub d (row_id r))"
    by (auto simp: simple_query_def claim_query_def Let_def)
  show "outbox_key (snd (query d)) \<and> unpub (snd (query d)) = unpub d"
    using assms(1,3) by (auto simp: simple_query_def outbox_key_mo_statements unpub_statements)
qed

lemma scanEntries_ok:
  assumes "scanEntries query w = (Ret (es, None), w')"
  shows "\<exists>rows. fst (query (world_committed w)) = Inl rows \<and> es = map row_entry rows
     \<and> world_committed w' = snd (query (world_committed w))"
proof -
  obtain x w1 where x: "on_db (db_Exec query) w = (x, w1)" by fastforce
  from x show ?thesis
  proof (cases rule: on_db_Exec_cases)
    case (failed e)
    with assms x show ?thesis by (simp add: scanEntries_def go_bind_def)
  next
    case (executed rows)
    with assms x have "es = map row_entry rows" "world_committed w' = world_committed w1"
      by (auto simp: scanEntries_def go_bind_def on_db_def world_committed_def
          split: option.splits prod.splits dest!: driver_call_split)
    with executed show ?thesis by auto
  qed
qed

lemma GetUnpublished_ok:
  assumes "GetUnpublished arrange st now n w = (Ret (es, None), w')" "\<forall>rs. mset (arrange rs) = mset rs" "mo_ok w"
  shows "mo_ok w' \<and> unpublished w' = unpublished w \<and> distinct (map mo_ID es) \<and> (\<forall>e \<in> set es. unpublished w (mo_ID e))"
proof -
  obtain query where q: "query = simple_query st n \<or> query = claim_query arrange st now n"
    "scanEntries query w = (Ret (es, None), w')"
    using assms(1) by (auto simp: GetUnpublished_def split: if_splits)
  obtain rows where rows: "fst (query (world_committed w)) = Inl rows" "es = map row_entry rows"
    "world_committed w' = snd (query (world_committed w))"
    using scanEntries_ok [OF q(2)] by auto
  have "mo_ID \<circ> row_entry = row_id" by (simp add: fun_eq_iff row_entry_def)
  with query_rows [OF assms(3) [unfolded mo_ok_def] assms(2) q(1) rows(1)] rows show ?thesis
    by (auto simp: mo_ok_def unpublished_def row_entry_def)
qed

lemma mo_gets_law:
  assumes "mo_ok w" "mo_gets t w envs w'"
  shows "mo_ok w' \<and> unpublished w' = unpublished w \<and> distinct (map mo_id envs)
     \<and> (\<forall>env \<in> set envs. \<exists>k. mo_id env = Some k \<and> unpublished w' k)"
proof -
  obtain arrange now where a: "\<forall>rs. mset (arrange rs) = mset rs"
    and g: "outbox_Get t arrange now w = (Ret (envs, None), w')"
    using assms(2) by (auto simp: mo_gets_def)
  obtain es w1 where u: "GetUnpublished arrange (ot_store t) now (ot_batchSize t) w = (Ret (es, None), w1)"
    using g by (auto simp: outbox_Get_def go_bind_def split: prod.splits exec.splits option.splits)
  note got = GetUnpublished_ok [OF u a assms(1)]
  obtain envs1 w2 where d: "decode_entries t es w1 = (Ret envs1, w2)" "unpublished w2 = unpublished w1" "mo_ok w1 \<longrightarrow> mo_ok w2"
    "map mo_id envs1 = map Some (map mo_ID (filter (\<lambda>e. \<exists>env. ot_decode t (mo_Payload e) = Inl env) es))"
    using decode_entries_effect [of t es w1] by blast
  have e: "envs = envs1" "w' = w2"
    using g u d(1) by (auto simp: outbox_Get_def go_bind_def split: if_splits)
  have "distinct (map mo_id envs1)"
    unfolding d(4) using got by (auto simp: distinct_map inj_on_def)
  moreover have "\<exists>k. mo_id env = Some k \<and> unpublished w2 k" if "env \<in> set envs1" for env
  proof -
    have "mo_id env \<in> set (map mo_id envs1)" using that by simp
    then show ?thesis unfolding d(4) using got d(2) by auto
  qed
  ultimately show ?thesis using got d e by auto
qed

lemma mo_ack_law:
  assumes "mo_ok w" "mo_id env = Some k" "unpublished w k" "outbox_Ack now ctx env w = (r, w')"
  shows "mo_ok w' \<and> (\<forall>j. j \<noteq> k \<longrightarrow> unpublished w' j = unpublished w j \<and> unpublished w' j = unpublished w j)
     \<and> (r = Ret None \<longrightarrow> \<not> unpublished w' k) \<and> (r \<noteq> Ret None \<longrightarrow> unpublished w' k) \<and> (\<exists>e. r = Ret e)"
proof -
  have m: "unpub (snd (mo_mark_statement now k d)) j \<longleftrightarrow> j \<noteq> k \<and> unpub d j" for d :: "'a database_scheme" and j
    by (auto simp: unpub_def update_rows_def)
  show ?thesis
    using outbox_Ack_effect [OF assms(2,4)] assms(1,3)
    by (auto simp: unpublished_def mo_ok_def m outbox_key_mo_statements)
qed

lemma on_db_more [simp]: "world.more (snd (on_db f w)) = world.more w"
  by (simp add: on_db_def split: prod.splits)

lemma IncrementRetry_more: "IncrementRetry i e w = (r, w') \<Longrightarrow> world.more w' = world.more w"
  by (auto simp: IncrementRetry_def on_db_def go_bind_def split: prod.splits sum.splits)

lemma settle_more:
  "outbox_Ack now ctx env w = (r, w') \<Longrightarrow> world.more w' = world.more w"
  "outbox_Reject ctx env reason w = (r, w') \<Longrightarrow> world.more w' = world.more w"
proof -
  show "world.more w' = world.more w" if "outbox_Ack now ctx env w = (r, w')"
    using that by (auto simp: outbox_Ack_def mo_MarkPublished_def on_db_def go_bind_def
        split: exec.splits sum.splits prod.splits option.splits)
  show "world.more w' = world.more w" if "outbox_Reject ctx env reason w = (r, w')"
    using that by (auto simp: outbox_Reject_def go_bind_def
        split: exec.splits sum.splits prod.splits option.splits dest: IncrementRetry_more)
qed

lemma decode_entries_more: "decode_entries t es w = (r, w') \<Longrightarrow> world.more w' = world.more w"
proof (induction es arbitrary: w r w')
  case (Cons e es)
  then show ?case
    by (fastforce simp: go_bind_def split: sum.splits prod.splits exec.splits dest: IncrementRetry_more)
qed simp

lemma scanEntries_effect:
  assumes "scanEntries query w = (r, w')" and "outbox_key (world_committed w)"
    and "\<And>d. outbox_key d \<Longrightarrow> outbox_key (snd (query d)) \<and> unpub (snd (query d)) = unpub d"
  shows "mo_ok w' \<and> unpublished w' = unpublished w \<and> world.more w' = world.more w"
proof -
  obtain x w1 where x: "on_db (db_Exec query) w = (x, w1)" by fastforce
  have m: "world.more w1 = world.more w" using on_db_more [of "db_Exec query" w] x by simp
  have c: "outbox_key (world_committed w1) \<and> unpub (world_committed w1) = unpub (world_committed w)"
    using x by (cases rule: on_db_Exec_cases) (use assms(2,3) in auto)
  have "world.more w' = world.more w1 \<and> world_committed w' = world_committed w1"
    using assms(1) x by (auto simp: scanEntries_def go_bind_def on_db_def world_committed_def
        split: exec.splits sum.splits option.splits prod.splits dest!: driver_call_split)
  then show ?thesis using m c by (simp add: mo_ok_def unpublished_def)
qed

lemma GetUnpublished_effect:
  assumes "GetUnpublished arrange st now n w = (r, w')" and "mo_ok w"
  shows "mo_ok w' \<and> unpublished w' = unpublished w \<and> world.more w' = world.more w"
proof -
  obtain query where q: "query = simple_query st n \<or> query = claim_query arrange st now n" "scanEntries query w = (r, w')"
    using assms(1) by (auto simp: GetUnpublished_def split: if_splits)
  show ?thesis
    by (rule scanEntries_effect [OF q(2)])
      (use assms(2) q(1) in \<open>auto simp: mo_ok_def simple_query_def outbox_key_mo_statements unpub_statements\<close>)
qed

lemma mo_fetches_law:
  assumes "mo_ok w" and "mo_fetches t w r w'"
  shows "mo_ok w' \<and> unpublished w' = unpublished w \<and> world.more w' = world.more w
     \<and> (\<forall>envs. r = Ret (envs, None) \<longrightarrow> mo_gets t w envs w')"
proof -
  obtain arrange now where a: "\<forall>rs. mset (arrange rs) = mset rs" "outbox_Get t arrange now w = (r, w')"
    using assms(2) by (auto simp: mo_fetches_def)
  obtain x w1 where x: "GetUnpublished arrange (ot_store t) now (ot_batchSize t) w = (x, w1)" by fastforce
  note got = GetUnpublished_effect [OF x assms(1)]
  have "w' = w1 \<or> (\<exists>es y. decode_entries t es w1 = (y, w'))"
    using a(2) x by (auto simp: outbox_Get_def go_bind_def split: exec.splits prod.splits option.splits if_splits)
  then have "mo_ok w' \<and> unpublished w' = unpublished w \<and> world.more w' = world.more w"
  proof
    assume "\<exists>es y. decode_entries t es w1 = (y, w')"
    then obtain es y where d: "decode_entries t es w1 = (y, w')" by blast
    show ?thesis using decode_entries_effect [of t es w1] decode_entries_more [OF d] d got by auto
  qed (use got in simp)
  then show ?thesis using a by (auto simp: mo_gets_def)
qed

interpretation mo: durable_receiver "mo_gets t" "\<lambda>ctx env w. outbox_Ack (now w) ctx env w" outbox_Reject mo_id unpublished
    unpublished mo_ok "mo_fetches t" "mo_handled handled"
  for t now handled
proof (unfold_locales, goal_cases)
  case (1 s envs s') then show ?case by (rule mo_gets_law)
next
  case (2 s k) then show ?case by simp
next
  case (3 s env k ctx r s') then show ?case by (rule mo_ack_law)
next
  case (4 s env k ctx reason r s') then show ?case using outbox_Reject_effect [OF 4(2,4)] by auto
next
  case (5 name at env) show ?case by (simp add: stamp_name_defs)
next
  case (6 s env k ctx reason r s') then show ?case using outbox_Reject_effect [OF 6(2,4)] by auto
next
  case (7 ctx env s r s') then show ?case by (simp add: settle_more(1))
next
  case (8 ctx env reason s r s') then show ?case by (simp add: settle_more(2))
next
  case (9 s x s') then show ?case using mo_fetches_law [OF 9] by simp
qed

section \<open>Messages are not lost\<close>

text \<open>C6: a consumer of the outbox transport loses no message. However often its loop runs, whatever calls to the database fail,
  in \<^verbatim>\<open>Get\<close>, \<^verbatim>\<open>Ack\<close> or \<^verbatim>\<open>Reject\<close>, and whether a dispatch fails now and succeeds later or a handler panics, every
  message that was unpublished is still unpublished, or one of its dispatches has succeeded. \<open>handled\<close> is where the
  dispatcher records the messages it has handled.\<close>

theorem messenger_outbox_at_least_once:
  assumes "mo_ok w" and arrange: "\<And>w rs. mset (arrange w rs) = mset rs"
    and "dispatch_keeps mo_ok unpublished unpublished dispatch"
    and "dispatch_settles mo_id (mo_handled handled) dispatch"
    and "consumeLoop dispatch (outbox_receiver t arrange now) ctx name tks w = (r, w')" and "unpublished w k"
  shows "unpublished w' k \<or> k \<in> handled (world.more w')"
  using mo.consumeLoop_settles [where t = t and now = now, OF assms(1,3,4) _ _ _ assms(5)] assms(6) arrange
  by (auto simp: outbox_receiver_def mo_fetches_def)

definition sample_transport :: "(nat, nat) outbox_transport" where
  "sample_transport =
     \<lparr>ot_store = NewPostgresStore [WithClaimTimeout 0], ot_encode = (\<lambda>env. Inl (m_rtype (Message env))),
      ot_decode = (\<lambda>s. Inl (NewEnvelopeWithTime (sample_message s) 0 [])), ot_batchSize = 100\<rparr>"

definition empty_world :: "database world" where
  "empty_world =
     \<lparr>db = \<lparr>committed = \<lparr>outbox_events = [], lease_default = None, dead_letter_queue = [], inbox_events = []\<rparr>,
            txs = Map.empty, next_tx = 0, faults = []\<rparr>\<rparr>"

definition one_message :: "database world" where
  "one_message = snd (outbox_Send sample_transport ''id'' background (NewEnvelope 0 (sample_message ''Job'') []) empty_world)"

lemmas sample_outbox_defs =
  one_message_def empty_world_def sample_transport_def NewPostgresStore_def outbox_Send_def
  mo_Insert_def entry_row_def executor_def Extract_def background_def go_ctx.truncate_def
  insert_outbox_row_def on_db_def db_Exec_no_faults go_bind_def Last_def NewEnvelope_def NewEnvelopeWithTime_def
  sample_message_def TypeNameOf_def

text \<open>A dispatcher whose first call fails; later calls handle their message and record it.\<close>

definition flaky :: "((database, nat \<times> string set) world_scheme, nat, nat) dispatch_fn" where
  "flaky ctx m ss w =
     (case world.more w of (n, handled) \<Rightarrow>
        if n = 0 then (Ret (dr_zero, Some ErrNoHandler), world.more_update (\<lambda>_. (1, handled)) w)
        else (Ret (dr_zero, None), world.more_update (\<lambda>_. (Suc n, handled \<union> {i. OutboxIDStamp i \<in> set ss})) w))"

lemma flaky_keeps: "dispatch_keeps mo_ok unpublished unpublished flaky"
  by (auto simp: dispatch_keeps_def flaky_def mo_ok_def unpublished_def world_committed_def split: prod.splits if_splits)

lemma flaky_settles: "dispatch_settles mo_id (mo_handled snd) flaky"
proof -
  have "OutboxIDStamp k \<in> set (stamps env)" if "mo_id env = Some k" for env :: "(nat, nat) envelope" and k
    using that by (auto simp: mo_id_def Last_def split: option.splits stamp.splits dest: last_named_Some)
  then show ?thesis by (auto simp: dispatch_settles_def flaky_def split: prod.splits if_splits)
qed

definition flaky_world :: "(database, nat \<times> string set) world_scheme" where
  "flaky_world = \<lparr>db = db one_message, \<dots> = (0, {})\<rparr>"

abbreviation sample_tick :: tick where
  "sample_tick \<equiv> \<lparr>tk_cancelled = False, tk_cancelled_in_Get = False, tk_clock = (\<lambda>_. 0)\<rparr>"

lemma flaky_first_fails:
  "world.more (snd (consumeLoop flaky (outbox_receiver sample_transport (\<lambda>_. id) (\<lambda>_. 0)) background ''outbox'' [sample_tick]
     flaky_world)) = (1, {})"
  by (simp add: flaky_def flaky_world_def outbox_receiver_def outbox_Get_def GetUnpublished_def scanEntries_def simple_query_def
      simple_select_def deliverable_def row_entry_def driver_call_def processMessage_def outbox_Reject_def outboxEntryID_def
      IncrementRetry_def update_rows_def WithStamp_def Let_def sample_outbox_defs stamp_name_defs)

theorem messenger_outbox_at_least_once_witness:
  "\<exists>r w'. consumeLoop flaky (outbox_receiver sample_transport (\<lambda>_. id) (\<lambda>_. 0)) background ''outbox'' [sample_tick] flaky_world = (r, w')
     \<and> unpublished w' ''id''"
proof -
  have ok: "mo_ok flaky_world" and un: "unpublished flaky_world ''id''"
    by (simp_all add: flaky_world_def mo_ok_def unpublished_def unpub_def outbox_key_def world_committed_def sample_outbox_defs)
  obtain r w' where run: "consumeLoop flaky (outbox_receiver sample_transport (\<lambda>_. id) (\<lambda>_. 0)) background ''outbox'' [sample_tick]
      flaky_world = (r, w')"
    by fastforce
  then have "unpublished w' ''id'' \<or> ''id'' \<in> snd (world.more w')"
    by (intro messenger_outbox_at_least_once [OF ok _ flaky_keeps flaky_settles run un]) simp
  moreover have "world.more w' = (1, {})" using flaky_first_fails run by simp
  ultimately show ?thesis using run by simp
qed

section \<open>Sending\<close>

lemma outbox_Send_no_faults:
  assumes "faults (db w) = []" "ctx_tx ctx = None" "ot_encode t env = Inl data" "aggregate_of env = Ret (ty, i)"
    "trace_of env = Ret tid" "uuid \<notin> row_id ` set (outbox_events (world_committed w))"
  shows "outbox_Send t uuid ctx env w =
    (Ret None, w\<lparr>db := (db w)\<lparr>committed := (committed (db w))\<lparr>outbox_events := outbox_events (committed (db w)) @
       [(entry_row \<lparr>mo_ID = uuid, mo_AggregateType = ty, mo_AggregateID = i, mo_EventType = TypeNameOf (Message env),
          mo_Payload = data, mo_TraceID = tid, mo_CreatedAt = env_createdAt env, mo_RetryCount = 0\<rparr>)
          \<lparr>row_lease_token := lease_default (committed (db w))\<rparr>]\<rparr>\<rparr>\<rparr>)"
  using assms
  by (simp add: outbox_Send_def mo_Insert_def go_bind_def on_db_def executor_def Extract_def go_ctx.truncate_def
      db_Exec_no_faults insert_outbox_row_def world_committed_def entry_row_def)

text \<open>what is sent through the outbox transport is what the consumer gets: outside a transaction, on
  an empty table and without failures, \<^verbatim>\<open>Get\<close> after \<^verbatim>\<open>Send\<close> returns the one envelope that the serializer
  decodes, with the id of its row stamped on it.\<close>

theorem outbox_send_get:
  assumes "faults (db w) = []" "ctx_tx ctx = None" "outbox_events (world_committed w) = []"
    and "ot_encode t env = Inl data" "ot_decode t data = Inl env'" "aggregate_of env = Ret (ty, i)" "trace_of env = Ret tid"
    and "0 < ps_maxRetries (ot_store t)" "0 < ot_batchSize t" "\<forall>rs. mset (arrange rs) = mset rs"
  shows "\<exists>w1 w2. outbox_Send t uuid ctx env w = (Ret None, w1)
     \<and> outbox_Get t arrange now w1 = (Ret ([WithStamp (OutboxIDStamp uuid) env'], None), w2)"
proof -
  have one: "arrange [r] = [r]" for r
  proof -
    have "mset (arrange [r]) = {#r#}" using assms(10) by simp
    then show ?thesis by (metis mset_single_iff_right)
  qed
  obtain b where b: "nat (ot_batchSize t) = Suc b" using assms(9) by (metis gr0_implies_Suc zero_less_nat_eq)
  let ?w1 = "snd (outbox_Send t uuid ctx env w)"
  have "uuid \<notin> row_id ` set (outbox_events (world_committed w))" using assms(3) by simp
  note sent = outbox_Send_no_faults [OF assms(1,2,4,6,7) this]
  have "fst (outbox_Get t arrange now ?w1) = Ret ([WithStamp (OutboxIDStamp uuid) env'], None)"
    using assms(1,3,5,8) b one
    by (simp add: sent outbox_Get_def GetUnpublished_def scanEntries_def simple_query_def simple_select_def claim_query_def
        claim_select_def deliverable_def row_entry_def entry_row_def driver_call_def go_bind_def on_db_def
        db_Exec_no_faults world_committed_def update_rows_def Let_def)
  moreover have "outbox_Send t uuid ctx env w = (Ret None, ?w1)" using sent by simp
  ultimately show ?thesis by (metis prod.collapse)
qed

theorem outbox_send_get_witness:
  "\<exists>w1 w2. outbox_Send sample_transport ''id'' background (NewEnvelope 0 (sample_message ''Job'') []) empty_world = (Ret None, w1)
     \<and> outbox_Get sample_transport id 0 w1
        = (Ret ([WithStamp (OutboxIDStamp ''id'') (NewEnvelopeWithTime (sample_message ''Job'') 0 [])], None), w2)"
  by (rule outbox_send_get) (simp_all add: world_committed_def sample_outbox_defs)

lemma snd_go_bind_pure: "(\<And>x s. snd (f x s) = s) \<Longrightarrow> snd (go_bind m f v) = snd (m v)"
  by (simp add: go_bind_def split: prod.split exec.split)

text \<open>\<^verbatim>\<open>Send\<close> takes part in the transaction its context carries: it does not touch the committed
  table, so when the transaction fails, by an error of the business function or of \<^verbatim>\<open>Send\<close> itself, by
  a panic or at commit, the committed contents are what they were.\<close>

theorem outbox_send_atomic:
  assumes "tx_local world_committed sql_ctx fn"
    and "RunInTx ctx (\<lambda>c. go_bind (fn c) (\<lambda>err. case err of
           Some e \<Rightarrow> go_return (Some e)
         | None \<Rightarrow> outbox_Send t uuid (go_ctx.extend c (mctx.fields dl)) env)) w = (r, w')"
    and "r \<noteq> Ret None"
  shows "world_committed w' = world_committed w"
proof (rule pg.run_failed [OF _ assms(2,3)])
  have send: "world_committed (snd (outbox_Send t uuid (go_ctx.extend c (mctx.fields dl)) env v)) = world_committed v"
    if c: "sql_ctx c" for c and v :: "('a database_scheme, 'b) world_scheme"
  proof -
    obtain n where n: "Extract c = Some (SqlTx n)" using c by (auto simp: sql_ctx_def split: option.splits raw_tx.splits)
    have "go_ctx.truncate (go_ctx.extend c (mctx.fields dl)) = c" by (simp add: go_ctx.defs)
    then have "world_committed (snd (mo_Insert (go_ctx.extend c (mctx.fields dl)) en v)) = world_committed v" for en
      using tx_Exec_committed [of n "insert_outbox_row (entry_row en)" "db v"] n
      by (auto simp: mo_Insert_def go_bind_def on_db_def executor_def world_committed_def split: prod.splits sum.splits)
    then show ?thesis
      by (simp add: outbox_Send_def snd_go_bind_pure split: sum.split exec.split prod.split option.split)
  qed
  show "tx_local world_committed sql_ctx (\<lambda>c. go_bind (fn c) (\<lambda>err. case err of
           Some e \<Rightarrow> go_return (Some e)
         | None \<Rightarrow> outbox_Send t uuid (go_ctx.extend c (mctx.fields dl)) env))"
    unfolding tx_local_def
  proof (intro allI impI)
    fix c and v :: "('a database_scheme, 'b) world_scheme"
    assume c: "sql_ctx c"
    obtain x v1 where x: "fn c v = (x, v1)" by fastforce
    have "world_committed v1 = world_committed v" using assms(1) c x by (metis tx_local_def snd_conv)
    with x send [OF c, of v1]
    show "world_committed (snd (go_bind (fn c) (\<lambda>err. case err of
           Some e \<Rightarrow> go_return (Some e)
         | None \<Rightarrow> outbox_Send t uuid (go_ctx.extend c (mctx.fields dl)) env) v)) = world_committed v"
      by (cases x) (simp_all add: go_bind_def split: option.split)
  qed
qed

theorem outbox_send_atomic_witness:
  "\<exists>r w'. RunInTx (go_ctx.truncate background) (\<lambda>c. go_bind (go_return None) (\<lambda>err. case err of
           Some e \<Rightarrow> go_return (Some e)
         | None \<Rightarrow> outbox_Send sample_transport ''id'' (go_ctx.extend c (mctx.fields None)) (NewEnvelope 0 (sample_message ''Job'') [])))
      (empty_world\<lparr>db := (db empty_world)\<lparr>faults := [None, None, Some ErrBusClosed]\<rparr>\<rparr>) = (r, w')
    \<and> r \<noteq> Ret None \<and> world_committed w' = world_committed empty_world"
proof -
  let ?w = "empty_world\<lparr>db := (db empty_world)\<lparr>faults := [None, None, Some ErrBusClosed]\<rparr>\<rparr>"
  let ?f = "\<lambda>c. go_bind (go_return None) (\<lambda>err. case err of
           Some e \<Rightarrow> go_return (Some e)
         | None \<Rightarrow> outbox_Send sample_transport ''id'' (go_ctx.extend c (mctx.fields None)) (NewEnvelope 0 (sample_message ''Job'') []))"
  let ?r = "RunInTx (go_ctx.truncate background) ?f ?w"
  have r: "fst ?r \<noteq> Ret None"
    by (simp add: RunInTx_def WithTx_def BeginTx_def driver_call_def tx_Exec_def tx_Commit_def Inject_def go_ctx.defs
        mctx.defs sample_outbox_defs)
  have n: "tx_local world_committed sql_ctx (\<lambda>c. go_return None :: (database world, goerr option) go)"
    by (simp add: tx_local_def)
  have "world_committed (snd ?r) = world_committed ?w"
    by (rule outbox_send_atomic [OF n prod.collapse [symmetric] r])
  with r show ?thesis
    by (intro exI [of _ "fst ?r"] exI [of _ "snd ?r"]) (simp add: world_committed_def)
qed

end
