(* ===== verification/Wolf_Toposort.thy ===== *)
theory Wolf_Toposort
  imports Wolf_Errors "HOL-Library.Multiset"
begin

text \<open>
  Kahn's algorithm, which the sources have twice: for seeders (\<^verbatim>\<open>src/infra/seed/sort.go\<close>) and for
  modules (\<^verbatim>\<open>src/infra/modular/registry.go\<close>). Both range over a map to build the reverse dependencies,
  in an order \<open>ks\<close> that Go leaves open. The loop over the queue is a partial function whose value is
  \<open>None\<close> if it does not end.
\<close>

section \<open>The loops\<close>

text \<open>Reading a missing key of a map of slices gives the empty slice.\<close>

definition get_list :: "('k \<rightharpoonup> 'v list) \<Rightarrow> 'k \<Rightarrow> 'v list" where
  "get_list m k = (case m k of Some v \<Rightarrow> v | None \<Rightarrow> [])"

lemma get_list_dom: "d \<in> set (get_list m k) \<Longrightarrow> k \<in> dom m"
  by (cases "m k") (simp_all add: get_list_def dom_def)

definition add_rev :: "string \<Rightarrow> string list \<Rightarrow> (string \<Rightarrow> string list) \<Rightarrow> (string \<Rightarrow> string list)" where
  "add_rev name d rd = fold (\<lambda>dep rd. rd(dep := rd dep @ [name])) d rd"

definition build_revDeps :: "string list \<Rightarrow> (string \<rightharpoonup> string list) \<Rightarrow> (string \<Rightarrow> string list)" where
  "build_revDeps ks deps = fold (\<lambda>name. add_rev name (get_list deps name)) ks (\<lambda>_. [])"

fun relax :: "string list \<Rightarrow> (string \<Rightarrow> int) \<Rightarrow> string list \<Rightarrow> (string \<Rightarrow> int) \<times> string list" where
  "relax [] inDegree queue = (inDegree, queue)"
| "relax (dependent # ds) inDegree queue =
     (let inDegree' = inDegree(dependent := inDegree dependent - 1) in
      relax ds inDegree' (if inDegree' dependent = 0 then queue @ [dependent] else queue))"

partial_function (option) kahn_loop ::
  "(string \<Rightarrow> string list) \<Rightarrow> (string \<Rightarrow> int) \<Rightarrow> string list \<Rightarrow> string list \<Rightarrow> string list option" where
  "kahn_loop revDeps inDegree queue out =
     (case queue of
        [] \<Rightarrow> Some out
      | name # rest \<Rightarrow>
          (case relax (revDeps name) inDegree rest of
             (inDegree', queue') \<Rightarrow> kahn_loop revDeps inDegree' queue' (out @ [name])))"

text \<open>The part after the dependencies have been collected, on names.\<close>

definition kahn :: "string list \<Rightarrow> string list \<Rightarrow> (string \<rightharpoonup> string list) \<Rightarrow> string list option" where
  "kahn ks names deps =
     (let inDegree = (\<lambda>n. int (length (get_list deps n)));
          queue = filter (\<lambda>n. inDegree n = 0) names
      in kahn_loop (build_revDeps ks deps) inDegree queue [])"

text \<open>Collecting the dependencies; the first one that is not registered stops the loop. \<open>msg\<close> is the
  error, \<open>names\<close> the registered names.\<close>

fun add_deps ::
  "(string \<Rightarrow> string \<Rightarrow> goerr) \<Rightarrow> string list \<Rightarrow> string \<Rightarrow> string list \<Rightarrow> (string \<rightharpoonup> string list) \<Rightarrow>
   goerr + (string \<rightharpoonup> string list)" where
  "add_deps msg names name [] deps = Inr deps"
| "add_deps msg names name (dep # ds) deps =
     (if dep \<notin> set names then Inl (msg name dep)
      else add_deps msg names name ds (deps(name \<mapsto> get_list deps name @ [dep])))"

fun build_deps ::
  "(string \<Rightarrow> string \<Rightarrow> goerr) \<Rightarrow> string list \<Rightarrow> (string \<times> string list) list \<Rightarrow> (string \<rightharpoonup> string list) \<Rightarrow>
   goerr + (string \<rightharpoonup> string list)" where
  "build_deps msg names [] deps = Inr deps"
| "build_deps msg names ((name, ds) # items) deps =
     (case add_deps msg names name ds deps of
        Inl e \<Rightarrow> Inl e
      | Inr deps' \<Rightarrow> build_deps msg names items deps')"

text \<open>The whole sort of \<open>xs\<close>, whose elements have a name and dependencies. \<open>order\<close> is the order in
  which the map of dependencies is ranged over; in \<^verbatim>\<open>byName\<close> the last of equal names wins.\<close>

definition topo_sort ::
  "(string \<Rightarrow> string \<Rightarrow> goerr) \<Rightarrow> goerr \<Rightarrow> ((string \<rightharpoonup> string list) \<Rightarrow> string list) \<Rightarrow>
   ('a \<Rightarrow> string) \<Rightarrow> ('a \<Rightarrow> string list) \<Rightarrow> 'a list \<Rightarrow> (goerr + 'a list) option" where
  "topo_sort msg cyclic order name_of deps_of xs =
     (let names = map name_of xs;
          byName = map_of (rev (map (\<lambda>x. (name_of x, x)) xs))
      in case build_deps msg names (map (\<lambda>x. (name_of x, deps_of x)) xs) Map.empty of
           Inl e \<Rightarrow> Some (Inl e)
         | Inr deps \<Rightarrow>
             (case kahn (order deps) names deps of
                None \<Rightarrow> None
              | Some ns \<Rightarrow>
                  if length ns \<noteq> length xs then Some (Inl cyclic)
                  else Some (Inr (map (\<lambda>n. the (byName n)) ns))))"

section \<open>What the loops compute\<close>

lemma add_rev_apply: "add_rev name d rd x = rd x @ replicate (count_list d x) name"
proof (induction d arbitrary: rd)
  case (Cons a d)
  then show ?case by (simp add: add_rev_def replicate_append_same [symmetric])
qed (simp add: add_rev_def)

lemma build_revDeps_apply:
  "build_revDeps ks deps x = concat (map (\<lambda>n. replicate (count_list (get_list deps n) x) n) ks)"
proof -
  have "fold (\<lambda>name. add_rev name (get_list deps name)) ks rd x
      = rd x @ concat (map (\<lambda>n. replicate (count_list (get_list deps n) x) n) ks)" for rd
    by (induction ks arbitrary: rd) (simp_all add: add_rev_apply)
  then show ?thesis by (simp add: build_revDeps_def)
qed

lemma count_list_concat_replicate:
  "distinct ks \<Longrightarrow> count_list (concat (map (\<lambda>n. replicate (f n) n) ks)) x = (if x \<in> set ks then f x else 0)"
proof (induction ks)
  case (Cons k ks)
  have "count_list (replicate m k) x = (if x = k then m else 0)" for m by (induction m) auto
  with Cons show ?case by auto
qed simp

lemma count_list_revDeps:
  assumes "ranges ks deps"
  shows "count_list (build_revDeps ks deps d) n = count_list (get_list deps n) d"
  using count_list_concat_replicate [OF rangesD(1) [OF assms], of "\<lambda>n. count_list (get_list deps n) d" n] rangesD(2) [OF assms]
  by (auto simp: build_revDeps_apply get_list_def split: option.splits)

lemma relax_spec:
  assumes "\<forall>d. int (count_list ds d) \<le> inDegree d"
  shows "\<exists>new. relax ds inDegree queue = (\<lambda>d. inDegree d - int (count_list ds d), queue @ new)
     \<and> distinct new \<and> set new = {d \<in> set ds. inDegree d = int (count_list ds d)}"
  using assms
proof (induction ds arbitrary: inDegree queue)
  case (Cons a ds)
  let ?in = "inDegree(a := inDegree a - 1)"
  have le: "\<forall>d. int (count_list ds d) \<le> ?in d"
  proof
    fix d show "int (count_list ds d) \<le> ?in d" using Cons.prems [rule_format, of d] by (auto split: if_splits)
  qed
  obtain new where new: "relax ds ?in (if ?in a = 0 then queue @ [a] else queue)
        = (\<lambda>d. ?in d - int (count_list ds d), (if ?in a = 0 then queue @ [a] else queue) @ new)"
      "distinct new" "set new = {d \<in> set ds. ?in d = int (count_list ds d)}"
    using Cons.IH [OF le, of "if ?in a = 0 then queue @ [a] else queue"] by blast
  have fn: "(\<lambda>d. ?in d - int (count_list ds d)) = (\<lambda>d. inDegree d - int (count_list (a # ds) d))"
    by (auto simp: fun_eq_iff)
  have eq: "relax (a # ds) inDegree queue = (\<lambda>d. inDegree d - int (count_list (a # ds) d), (if ?in a = 0 then queue @ [a] else queue) @ new)"
    using new(1) fn by (simp only: relax.simps Let_def)
  have notin: "a \<notin> set ds" if "?in a = 0"
    using le [rule_format, of a] that by (simp add: count_list_0_iff)
  have iff: "inDegree d = int (count_list (a # ds) d) \<longleftrightarrow> ?in d = int (count_list ds d)" for d by auto
  have "{d \<in> set (a # ds). ?in d = int (count_list ds d)} = set new \<union> {d. d = a \<and> ?in a = int (count_list ds a)}"
    unfolding new(3) list.set by blast
  moreover have "?in a = int (count_list ds a) \<longleftrightarrow> a \<in> set new \<or> ?in a = 0"
    using notin by (cases "a \<in> set ds") (auto simp: new(3) count_list_0_iff)
  ultimately have set': "{d \<in> set (a # ds). inDegree d = int (count_list (a # ds) d)}
      = set ((if ?in a = 0 then [a] else []) @ new)"
    unfolding iff by (auto split: if_splits)
  have "distinct ((if ?in a = 0 then [a] else []) @ new)" using new(2,3) notin by auto
  with eq set' show ?case
    by (intro exI [of _ "(if ?in a = 0 then [a] else []) @ new"]) (simp only: append_assoc if_distrib append_Nil2 if_cancel split: if_split, simp)
qed auto

section \<open>The invariant of the queue\<close>

definition open_deps :: "(string \<rightharpoonup> string list) \<Rightarrow> string list \<Rightarrow> string \<Rightarrow> string list" where
  "open_deps deps done n = filter (\<lambda>d. d \<notin> set done) (get_list deps n)"

definition in_dep_order :: "(string \<rightharpoonup> string list) \<Rightarrow> string list \<Rightarrow> bool" where
  "in_dep_order deps ns \<longleftrightarrow> (\<forall>xs n ys. ns = xs @ n # ys \<longrightarrow> set (get_list deps n) \<subseteq> set xs)"

definition kahn_inv ::
  "string list \<Rightarrow> (string \<rightharpoonup> string list) \<Rightarrow> (string \<Rightarrow> int) \<Rightarrow> string list \<Rightarrow> string list \<Rightarrow> bool" where
  "kahn_inv names deps inDegree queue out \<longleftrightarrow>
     (\<forall>n. inDegree n = int (length (open_deps deps out n)))
     \<and> distinct (out @ queue)
     \<and> set (out @ queue) = {n \<in> set names. open_deps deps out n = []}
     \<and> in_dep_order deps out"

lemma in_dep_order_snoc:
  "in_dep_order deps (xs @ [n]) \<longleftrightarrow> in_dep_order deps xs \<and> set (get_list deps n) \<subseteq> set xs"
proof
  assume o: "in_dep_order deps (xs @ [n])"
  have "set (get_list deps m) \<subseteq> set as" if "xs = as @ m # bs" for as m bs
    using o [unfolded in_dep_order_def, rule_format, of as m "bs @ [n]"] that by simp
  moreover have "set (get_list deps n) \<subseteq> set xs"
    using o [unfolded in_dep_order_def, rule_format, of xs n "[]"] by simp
  ultimately show "in_dep_order deps xs \<and> set (get_list deps n) \<subseteq> set xs" by (simp add: in_dep_order_def)
next
  assume o: "in_dep_order deps xs \<and> set (get_list deps n) \<subseteq> set xs"
  have "set (get_list deps m) \<subseteq> set as" if e: "xs @ [n] = as @ m # bs" for as m bs
  proof (cases bs rule: rev_cases)
    case Nil
    with e o show ?thesis by simp
  next
    case (snoc cs c)
    with e have "xs = as @ m # cs" by simp
    with o show ?thesis by (simp add: in_dep_order_def)
  qed
  then show "in_dep_order deps (xs @ [n])" by (simp add: in_dep_order_def)
qed

lemma open_deps_snoc:
  "length (open_deps deps (out @ [name]) n)
     = length (open_deps deps out n) - (if name \<in> set out then 0 else count_list (get_list deps n) name)"
proof -
  have "length (filter (\<lambda>d. d \<notin> set out \<and> d \<noteq> name) xs) + (if name \<in> set out then 0 else count_list xs name)
      = length (filter (\<lambda>d. d \<notin> set out) xs)" for xs
    by (induction xs) auto
  from this [of "get_list deps n"] show ?thesis by (simp add: open_deps_def conj_commute)
qed

lemma open_deps_count: "name \<notin> set out \<Longrightarrow> count_list (get_list deps n) name \<le> length (open_deps deps out n)"
proof -
  assume "name \<notin> set out"
  then have "count_list xs name \<le> length (filter (\<lambda>d. d \<notin> set out) xs)" for xs by (induction xs) auto
  then show ?thesis by (simp add: open_deps_def)
qed

lemma open_deps_mono: "open_deps deps out n = [] \<Longrightarrow> open_deps deps (out @ [name]) n = []"
  by (auto simp: open_deps_def filter_empty_conv)

lemma kahn_inv_step:
  assumes inv: "kahn_inv names deps inDegree (name # rest) out" and ks: "ranges ks deps" and names: "dom deps \<subseteq> set names"
    and r: "relax (build_revDeps ks deps name) inDegree rest = (inDegree', queue')"
  shows "kahn_inv names deps inDegree' queue' (out @ [name])"
proof -
  let ?c = "\<lambda>n. count_list (get_list deps n) name"
  have name: "name \<notin> set out" "name \<in> set names" "open_deps deps out name = []"
    using inv by (auto simp: kahn_inv_def)
  have deg: "inDegree n = int (length (open_deps deps out n))" for n using inv by (simp add: kahn_inv_def)
  have cnt: "count_list (build_revDeps ks deps name) n = ?c n" for n by (rule count_list_revDeps [OF ks])
  have "\<forall>d. int (count_list (build_revDeps ks deps name) d) \<le> inDegree d"
    using open_deps_count [OF name(1)] by (simp add: cnt deg)
  from relax_spec [OF this, of rest] r obtain new where
    i': "inDegree' = (\<lambda>d. inDegree d - int (?c d))" and q': "queue' = rest @ new" and "distinct new"
    and new: "set new = {d \<in> set (build_revDeps ks deps name). inDegree d = int (?c d)}"
    by (auto simp: cnt)
  have len: "length (open_deps deps (out @ [name]) n) = length (open_deps deps out n) - ?c n" for n
    using name(1) by (simp add: open_deps_snoc)
  have mem: "n \<in> set (build_revDeps ks deps name) \<longleftrightarrow> 0 < ?c n" for n
    unfolding cnt [symmetric] by (simp add: count_list_0_iff flip: neq0_conv)
  have reg: "n \<in> set names" if "0 < ?c n" for n
    using that names by (auto simp: get_list_def split: option.splits)
  have new_iff: "n \<in> set new \<longleftrightarrow> n \<in> set names \<and> open_deps deps out n \<noteq> [] \<and> open_deps deps (out @ [name]) n = []" for n
  proof -
    have "n \<in> set new \<longleftrightarrow> 0 < ?c n \<and> length (open_deps deps out n) = ?c n" by (simp add: new mem deg)
    then show ?thesis
      using len [of n] open_deps_count [OF name(1), of deps n] reg [of n] unfolding length_0_conv [symmetric] by auto
  qed
  have "set (out @ [name] @ rest) = {n \<in> set names. open_deps deps out n = []}" using inv by (auto simp: kahn_inv_def)
  then have sets: "set ((out @ [name]) @ queue') = {n \<in> set names. open_deps deps (out @ [name]) n = []}"
    using new_iff open_deps_mono [of deps out _ name] by (auto simp: q')
  have dis: "distinct ((out @ [name]) @ queue')"
    using inv \<open>distinct new\<close> new_iff by (auto simp: kahn_inv_def q')
  have "in_dep_order deps (out @ [name])"
    using inv name(3) by (auto simp: kahn_inv_def in_dep_order_snoc open_deps_def filter_empty_conv)
  moreover have "\<forall>n. inDegree' n = int (length (open_deps deps (out @ [name]) n))"
    using len open_deps_count [OF name(1)] by (simp add: i' deg of_nat_diff)
  ultimately show ?thesis using sets dis by (simp add: kahn_inv_def)
qed

lemma kahn_loop_returns:
  assumes "kahn_inv names deps inDegree queue out" and "ranges ks deps" and "dom deps \<subseteq> set names"
  shows "\<exists>ns inDegree'. kahn_loop (build_revDeps ks deps) inDegree queue out = Some ns
     \<and> kahn_inv names deps inDegree' [] ns"
  using assms(1)
proof (induction "card (set names) - length out" arbitrary: inDegree queue out rule: less_induct)
  case less
  show ?case
  proof (cases queue)
    case Nil
    with less.prems show ?thesis by (subst kahn_loop.simps) auto
  next
    case (Cons name rest)
    obtain inDegree' queue' where r: "relax (build_revDeps ks deps name) inDegree rest = (inDegree', queue')" by fastforce
    have "kahn_inv names deps inDegree' queue' (out @ [name])"
      using kahn_inv_step [OF _ assms(2,3) r] less.prems Cons by simp
    moreover have "length (out @ [name]) \<le> card (set names)"
    proof -
      have "distinct (out @ [name])" "set (out @ [name]) \<subseteq> set names"
        using less.prems Cons by (auto simp: kahn_inv_def)
      then show ?thesis by (metis card_mono distinct_card finite_set)
    qed
    ultimately show ?thesis
      using less.hyps [of "out @ [name]" inDegree' queue'] r Cons by (subst kahn_loop.simps) simp
  qed
qed

section \<open>Kahn's algorithm sorts\<close>

definition dep_rel :: "(string \<rightharpoonup> string list) \<Rightarrow> (string \<times> string) set" where
  "dep_rel deps = {(d, n). d \<in> set (get_list deps n)}"

definition deps_ok :: "string list \<Rightarrow> string list \<Rightarrow> (string \<rightharpoonup> string list) \<Rightarrow> bool" where
  "deps_ok ks names deps \<longleftrightarrow>
     distinct names \<and> ranges ks deps \<and> dom deps \<subseteq> set names \<and> (\<forall>n. set (get_list deps n) \<subseteq> set names)"

lemma in_dep_order_acyclic:
  assumes "distinct ns" and "in_dep_order deps ns" and "dom deps \<subseteq> set ns"
  shows "acyclic (dep_rel deps)"
proof -
  define pos where "pos x = length (takeWhile (\<lambda>y. y \<noteq> x) ns)" for x
  have tw: "x \<notin> set as \<Longrightarrow> takeWhile (\<lambda>y. y \<noteq> x) (as @ x # bs) = as" for x :: string and as bs
    by (induction as) auto
  have "pos d < pos n" if "d \<in> set (get_list deps n)" for d n
  proof -
    have "n \<in> set ns" using get_list_dom [OF that] assms(3) by blast
    then obtain xs ys where ns: "ns = xs @ n # ys" "n \<notin> set xs" using split_list_first by metis
    then have d: "d \<in> set xs" using assms(2) that by (auto simp: in_dep_order_def)
    have "pos n = length xs" using ns tw by (simp add: pos_def)
    moreover have "pos d < length xs"
    proof -
      from d obtain as bs where xs: "xs = as @ d # bs" "d \<notin> set as" using split_list_first by metis
      then have "takeWhile (\<lambda>y. y \<noteq> d) ns = as" using ns(1) tw [of d as "bs @ n # ys"] by simp
      with xs show ?thesis by (simp add: pos_def)
    qed
    ultimately show ?thesis by simp
  qed
  then have "dep_rel deps \<subseteq> measure pos" by (auto simp: dep_rel_def)
  then show ?thesis by (rule acyclic_subset [OF wf_acyclic [OF wf_measure]])
qed

lemma kahn_inv_complete:
  assumes "kahn_inv names deps inDegree [] ns" and "deps_ok ks names deps" and "acyclic (dep_rel deps)"
  shows "set ns = set names"
proof (rule ccontr)
  have "dep_rel deps \<subseteq> set names \<times> set names"
    using assms(2) by (auto simp: dep_rel_def deps_ok_def dest: get_list_dom)
  then have wf: "wf (dep_rel deps)" using assms(3) by (meson finite_SigmaI finite_acyclic_wf finite_set finite_subset)
  assume "set ns \<noteq> set names"
  then obtain m where m: "m \<in> set names - set ns" using assms(1) by (auto simp: kahn_inv_def)
  from wfE_min [OF wf m] obtain n where n: "n \<in> set names - set ns"
    and min: "\<And>d. (d, n) \<in> dep_rel deps \<Longrightarrow> d \<notin> set names - set ns" by blast
  have "d \<in> set ns" if "d \<in> set (get_list deps n)" for d
    using that min [of d] assms(2) by (auto simp: dep_rel_def deps_ok_def)
  then have "open_deps deps ns n = []" by (auto simp: open_deps_def filter_empty_conv)
  with n assms(1) show False by (auto simp: kahn_inv_def)
qed

lemma kahn_sorts:
  assumes "deps_ok ks names deps"
  shows "\<exists>ns. kahn ks names deps = Some ns \<and> distinct ns \<and> set ns \<subseteq> set names \<and> in_dep_order deps ns
     \<and> (length ns = length names \<longleftrightarrow> acyclic (dep_rel deps))"
proof -
  have o: "open_deps deps [] n = get_list deps n" for n by (simp add: open_deps_def)
  have "kahn_inv names deps (\<lambda>n. int (length (get_list deps n))) (filter (\<lambda>n. int (length (get_list deps n)) = 0) names) []"
    using assms by (auto simp: kahn_inv_def o deps_ok_def in_dep_order_def)
  then obtain ns inDegree where ns: "kahn ks names deps = Some ns" "kahn_inv names deps inDegree [] ns"
    using kahn_loop_returns assms unfolding kahn_def Let_def deps_ok_def by meson
  then have d: "distinct ns" "set ns \<subseteq> set names" "in_dep_order deps ns" by (auto simp: kahn_inv_def)
  have "set ns = set names" if "length ns = length names"
    using that d assms by (metis card_subset_eq deps_ok_def distinct_card finite_set)
  then have "acyclic (dep_rel deps)" if "length ns = length names"
    using that d assms by (intro in_dep_order_acyclic [of ns]) (auto simp: deps_ok_def)
  moreover have "length ns = length names" if "acyclic (dep_rel deps)"
    using kahn_inv_complete [OF ns(2) assms that] d(1) assms by (metis deps_ok_def distinct_card)
  ultimately show ?thesis using ns(1) d by blast
qed

section \<open>The sort as a whole\<close>

lemma add_deps_spec:
  "add_deps msg names name ds deps =
     (if set ds \<subseteq> set names
      then Inr (if ds = [] then deps else deps(name \<mapsto> get_list deps name @ ds))
      else Inl (msg name (the (List.find (\<lambda>d. d \<notin> set names) ds))))"
proof (induction ds arbitrary: deps)
  case (Cons d ds)
  then show ?case by (auto simp: get_list_def)
qed simp

lemma build_deps_ok:
  assumes "distinct (map fst items)" and "\<forall>n \<in> fst ` set items. deps n = None"
    and "\<forall>it \<in> set items. set (snd it) \<subseteq> set names"
  shows "\<exists>deps'. build_deps msg names items deps = Inr deps' \<and> dom deps' \<subseteq> dom deps \<union> fst ` set items
         \<and> (\<forall>it \<in> set items. get_list deps' (fst it) = snd it) \<and> (\<forall>n. n \<notin> fst ` set items \<longrightarrow> deps' n = deps n)"
  using assms
proof (induction items arbitrary: deps)
  case (Cons it items)
  obtain name ds where it: "it = (name, ds)" by fastforce
  let ?deps = "if ds = [] then deps else deps(name \<mapsto> get_list deps name @ ds)"
  have none: "deps name = None" and new: "name \<notin> fst ` set items" using Cons.prems(1,2) it by auto
  have step: "build_deps msg names (it # items) deps = build_deps msg names items ?deps"
    using Cons.prems(3) it by (simp add: add_deps_spec)
  have "\<forall>n \<in> fst ` set items. ?deps n = None" using Cons.prems(2) new it by auto
  then obtain deps' where d: "build_deps msg names items ?deps = Inr deps'" "dom deps' \<subseteq> dom ?deps \<union> fst ` set items"
      "\<forall>it \<in> set items. get_list deps' (fst it) = snd it" "\<forall>n. n \<notin> fst ` set items \<longrightarrow> deps' n = ?deps n"
    using Cons.IH [of ?deps] Cons.prems(1,3) by auto
  have "get_list deps' name = ds" using d(4) new none by (auto simp: get_list_def)
  with d step it show ?case by (intro exI [of _ deps']) (auto split: if_splits)
qed auto

lemma build_deps_error:
  "\<exists>it \<in> set items. \<not> set (snd it) \<subseteq> set names \<Longrightarrow> \<exists>e. build_deps msg names items deps = Inl e"
proof (induction items arbitrary: deps)
  case (Cons it items)
  obtain name ds where it: "it = (name, ds)" by fastforce
  show ?case
  proof (cases "set ds \<subseteq> set names")
    case True
    with Cons it show ?thesis by (auto simp: add_deps_spec)
  next
    case False
    with it show ?thesis by (simp add: add_deps_spec)
  qed
qed simp

definition deps_before :: "('a \<Rightarrow> string) \<Rightarrow> ('a \<Rightarrow> string list) \<Rightarrow> 'a list \<Rightarrow> bool" where
  "deps_before name_of deps_of ys \<longleftrightarrow>
     (\<forall>as y bs. ys = as @ y # bs \<longrightarrow> set (deps_of y) \<subseteq> name_of ` set as)"

definition item_rel :: "('a \<Rightarrow> string) \<Rightarrow> ('a \<Rightarrow> string list) \<Rightarrow> 'a list \<Rightarrow> (string \<times> string) set" where
  "item_rel name_of deps_of xs = {(d, name_of x) | d x. x \<in> set xs \<and> d \<in> set (deps_of x)}"

definition sortable :: "('a \<Rightarrow> string) \<Rightarrow> ('a \<Rightarrow> string list) \<Rightarrow> 'a list \<Rightarrow> bool" where
  "sortable name_of deps_of xs \<longleftrightarrow>
     (\<forall>x \<in> set xs. set (deps_of x) \<subseteq> name_of ` set xs) \<and> acyclic (item_rel name_of deps_of xs)"

lemma map_of_rev_name:
  assumes "distinct (map f xs)" and "x \<in> set xs"
  shows "map_of (rev (map (\<lambda>x. (f x, x)) xs)) (f x) = Some x"
proof -
  have "distinct (map fst (rev (map (\<lambda>x. (f x, x)) xs)))"
    using assms(1) by (simp add: rev_map [symmetric] comp_def)
  then show ?thesis using assms(2) by (intro map_of_is_SomeI) auto
qed

lemma topo_sort_spec:
  assumes "distinct (map name_of xs)" and order: "\<And>m. finite (dom m) \<Longrightarrow> ranges (order m) m"
  shows "sortable name_of deps_of xs \<Longrightarrow>
      \<exists>ys. topo_sort msg cyclic order name_of deps_of xs = Some (Inr ys) \<and> mset ys = mset xs \<and> deps_before name_of deps_of ys"
    and "\<not> sortable name_of deps_of xs \<Longrightarrow> \<exists>e. topo_sort msg cyclic order name_of deps_of xs = Some (Inl e)"
proof -
  let ?items = "map (\<lambda>x. (name_of x, deps_of x)) xs" and ?names = "map name_of xs"
  let ?by = "map_of (rev (map (\<lambda>x. (name_of x, x)) xs))"
  have dist: "distinct (map fst ?items)" using assms(1) by (simp add: comp_def)
  have closed: "(\<forall>it \<in> set ?items. set (snd it) \<subseteq> set ?names) \<longleftrightarrow> (\<forall>x \<in> set xs. set (deps_of x) \<subseteq> name_of ` set xs)" by auto
  have ok: "\<exists>ns. topo_sort msg cyclic order name_of deps_of xs
        = Some (if length ns \<noteq> length xs then Inl cyclic else Inr (map (\<lambda>n. the (?by n)) ns))
      \<and> distinct ns \<and> set ns \<subseteq> set ?names \<and> (\<forall>as n bs. ns = as @ n # bs \<longrightarrow> set (deps_of (the (?by n))) \<subseteq> set as)
      \<and> (length ns = length xs \<longleftrightarrow> acyclic (item_rel name_of deps_of xs))"
    if c: "\<forall>x \<in> set xs. set (deps_of x) \<subseteq> name_of ` set xs"
  proof -
    obtain deps where d: "build_deps msg ?names ?items Map.empty = Inr deps" "dom deps \<subseteq> fst ` set ?items"
      and get: "\<forall>it \<in> set ?items. get_list deps (fst it) = snd it"
      using build_deps_ok [OF dist, of Map.empty ?names msg] c closed by auto
    have d2: "dom deps \<subseteq> set ?names" using d(2) by (simp add: image_image)
    have g: "get_list deps (name_of x) = deps_of x" if "x \<in> set xs" for x using get that by force
    have mem: "\<exists>x \<in> set xs. n = name_of x \<and> d' \<in> set (deps_of x)" if "d' \<in> set (get_list deps n)" for d' n
    proof -
      have "n \<in> set ?names" using get_list_dom [OF that] d2 by blast
      then obtain x where "x \<in> set xs" "n = name_of x" by auto
      with g that show ?thesis by auto
    qed
    have rel: "dep_rel deps = item_rel name_of deps_of xs"
      using g mem by (fastforce simp: dep_rel_def item_rel_def)
    have "set (get_list deps n) \<subseteq> set ?names" for n using mem c by fastforce
    moreover have "finite (dom deps)" using d2 by (meson finite_set finite_subset)
    ultimately have "deps_ok (order deps) ?names deps" using order assms(1) d2 by (simp add: deps_ok_def)
    from kahn_sorts [OF this] obtain ns where k: "kahn (order deps) ?names deps = Some ns" "distinct ns"
        "set ns \<subseteq> set ?names" "in_dep_order deps ns" "length ns = length ?names \<longleftrightarrow> acyclic (dep_rel deps)" by blast
    have pre: "set (deps_of (the (?by n))) \<subseteq> set as" if "ns = as @ n # bs" for as n bs
    proof -
      have "n \<in> set ?names" using k(3) that by auto
      then obtain x where x: "x \<in> set xs" "n = name_of x" by auto
      then have "the (?by n) = x" using map_of_rev_name [OF assms(1)] by simp
      then show ?thesis using k(4) [unfolded in_dep_order_def, rule_format, OF that] g x by simp
    qed
    have "topo_sort msg cyclic order name_of deps_of xs
        = Some (if length ns \<noteq> length xs then Inl cyclic else Inr (map (\<lambda>n. the (?by n)) ns))"
      using d(1) k(1) by (simp add: topo_sort_def Let_def)
    then show ?thesis using k(2,3) pre k(5) [unfolded rel length_map] by blast
  qed
  {
    assume s: "sortable name_of deps_of xs"
    obtain ns where t0: "topo_sort msg cyclic order name_of deps_of xs
          = Some (if length ns \<noteq> length xs then Inl cyclic else Inr (map (\<lambda>n. the (?by n)) ns))"
      and ns: "distinct ns" "set ns \<subseteq> set ?names"
      and pre: "\<forall>as n bs. ns = as @ n # bs \<longrightarrow> set (deps_of (the (?by n))) \<subseteq> set as"
      and len: "length ns = length xs \<longleftrightarrow> acyclic (item_rel name_of deps_of xs)"
      using ok s unfolding sortable_def by blast
    have ns': "length ns = length xs" using s len by (simp add: sortable_def)
    with t0 have t: "topo_sort msg cyclic order name_of deps_of xs = Some (Inr (map (\<lambda>n. the (?by n)) ns))" by simp
    have perm: "mset ns = mset ?names"
      using ns ns' assms(1) by (metis card_subset_eq distinct_card finite_set length_map set_eq_iff_mset_eq_distinct)
    have "mset (map (\<lambda>n. the (?by n)) ns) = image_mset (\<lambda>n. the (?by n)) (mset ?names)" using perm by simp
    also have "\<dots> = mset (map (\<lambda>x. the (?by (name_of x))) xs)" by (simp add: multiset.map_comp comp_def)
    also have "map (\<lambda>x. the (?by (name_of x))) xs = xs"
      using map_of_rev_name [OF assms(1)] by (simp add: map_idI)
    finally have m: "mset (map (\<lambda>n. the (?by n)) ns) = mset xs" .
    have name: "name_of (the (?by n)) = n" if "n \<in> set ns" for n
      using that ns(2) map_of_rev_name [OF assms(1)] by auto
    have "deps_before name_of deps_of (map (\<lambda>n. the (?by n)) ns)"
      unfolding deps_before_def
    proof (intro allI impI)
      fix as y bs assume "map (\<lambda>n. the (?by n)) ns = as @ y # bs"
      then obtain as' n bs' where e: "ns = as' @ n # bs'" "as = map (\<lambda>n. the (?by n)) as'" "y = the (?by n)"
        by (auto simp: map_eq_append_conv map_eq_Cons_conv)
      have "name_of ` set as = set as'" using e(1,2) name by (force simp: image_image)
      then show "set (deps_of y) \<subseteq> name_of ` set as" using pre [rule_format, OF e(1)] e(3) by simp
    qed
    with t m show "\<exists>ys. topo_sort msg cyclic order name_of deps_of xs = Some (Inr ys) \<and> mset ys = mset xs \<and> deps_before name_of deps_of ys"
      by blast
  next
    assume s: "\<not> sortable name_of deps_of xs"
    show "\<exists>e. topo_sort msg cyclic order name_of deps_of xs = Some (Inl e)"
    proof (cases "\<forall>x \<in> set xs. set (deps_of x) \<subseteq> name_of ` set xs")
      case True
      obtain ns where t0: "topo_sort msg cyclic order name_of deps_of xs
            = Some (if length ns \<noteq> length xs then Inl cyclic else Inr (map (\<lambda>n. the (?by n)) ns))"
        and len: "length ns = length xs \<longleftrightarrow> acyclic (item_rel name_of deps_of xs)"
        using ok [OF True] by blast
      with s True show ?thesis by (simp add: sortable_def)
    next
      case False
      then have "\<exists>e. build_deps msg ?names ?items Map.empty = Inl e" unfolding closed [symmetric] by (intro build_deps_error) blast
      then show ?thesis by (auto simp: topo_sort_def Let_def)
    qed
  }
qed

end
