(* ===== verification/Wolf_Seed.thy ===== *)
theory Wolf_Seed
  imports Wolf_Toposort Wolf_Tx "HOL-Library.List_Lexorder" "HOL-Library.Char_ord"
begin

text \<open>
  Seeding (\<^verbatim>\<open>src/infra/seed\<close>: registry, filters, dependency order, runner, truncation, references) and
  the module registry (\<^verbatim>\<open>src/infra/modular/registry.go\<close>). A seeder is a record of its methods; the two
  optional interfaces it may implement are options. Its \<^verbatim>\<open>Seed\<close> is a computation on the world of
  \<^theory_text>\<open>Wolf_Tx\<close>, and the SQL of \<^verbatim>\<open>TRUNCATE\<close> is an argument, a statement for a list of tables. The
  reference store is shared by the seeders of a run through a pointer and is threaded through them. The
  configuration, the logger and the pool that a seed context also hands out are the same for the whole run: a seeder
  has them built in. Durations and log lines are left out.
\<close>

section \<open>References between seeders\<close>

type_synonym 'v reference_store = "string \<rightharpoonup> 'v"

definition NewReferenceStore :: "'v reference_store" where
  "NewReferenceStore = Map.empty"

definition refs_Set :: "string \<Rightarrow> 'v \<Rightarrow> 'v reference_store \<Rightarrow> 'v reference_store" where
  "refs_Set key v rs = rs(key \<mapsto> v)"

definition refs_Get :: "'v reference_store \<Rightarrow> string \<Rightarrow> 'v option" where
  "refs_Get rs key = rs key"

definition refs_MustGet :: "'v reference_store \<Rightarrow> string \<Rightarrow> 'v exec" where
  "refs_MustGet rs key =
     (case refs_Get rs key of Some v \<Rightarrow> Ret v | None \<Rightarrow> Panic (''seed: reference '' @ quote key @ '' not found''))"

text \<open>\<open>as_T\<close> is the type assertion, \<open>type_name\<close> and \<open>want\<close> print the types.\<close>

definition GetRef ::
  "('v \<Rightarrow> 't option) \<Rightarrow> ('v \<Rightarrow> string) \<Rightarrow> string \<Rightarrow> 'v reference_store \<Rightarrow> string \<Rightarrow> goerr + 't" where
  "GetRef as_T type_name want rs key =
     (case refs_Get rs key of
        None \<Rightarrow> Inl (errorf (''seed: reference '' @ quote key @ '' not found''))
      | Some raw \<Rightarrow>
          (case as_T raw of
             None \<Rightarrow> Inl (errorf (''seed: reference '' @ quote key @ '' has type '' @ type_name raw @ '', want '' @ want))
           | Some typed \<Rightarrow> Inr typed))"

definition MustGetRef ::
  "('v \<Rightarrow> 't option) \<Rightarrow> ('v \<Rightarrow> string) \<Rightarrow> string \<Rightarrow> 'v reference_store \<Rightarrow> string \<Rightarrow> 't exec" where
  "MustGetRef as_T type_name want rs key =
     (case GetRef as_T type_name want rs key of Inl err \<Rightarrow> Panic (err_text err) | Inr v \<Rightarrow> Ret v)"

section \<open>Seeders\<close>

text \<open>What the runner puts into the context, and the seed context.\<close>

record seed_ctx =
  cx_seeding :: bool
  cx_eventsDisabled :: bool

abbreviation WithSeeding :: "seed_ctx \<Rightarrow> seed_ctx" where
  "WithSeeding ctx \<equiv> ctx\<lparr>cx_seeding := True\<rparr>"

abbreviation IsSeeding :: "seed_ctx \<Rightarrow> bool" where
  "IsSeeding ctx \<equiv> cx_seeding ctx"

abbreviation WithEventsDisabled :: "seed_ctx \<Rightarrow> seed_ctx" where
  "WithEventsDisabled ctx \<equiv> ctx\<lparr>cx_eventsDisabled := True\<rparr>"

abbreviation EventsDisabled :: "seed_ctx \<Rightarrow> bool" where
  "EventsDisabled ctx \<equiv> cx_eventsDisabled ctx"

record seed_context =
  sc_tx :: "nat option"
  sc_env :: string
  sc_dryRun :: bool

definition newSeedContext :: "nat \<Rightarrow> string \<Rightarrow> bool \<Rightarrow> seed_context" where
  "newSeedContext t env dryRun = \<lparr>sc_tx = Some t, sc_env = env, sc_dryRun = dryRun\<rparr>"

definition DBTX :: "seed_context \<Rightarrow> ('d, 'a) statement \<Rightarrow> 'd sqldb \<Rightarrow> ('a + goerr) \<times> 'd sqldb" where
  "DBTX sc = (case sc_tx sc of Some t \<Rightarrow> tx_Exec t | None \<Rightarrow> db_Exec)"

record ('w, 'v) seeder =
  s_Name :: string
  s_Groups :: "string list"
  s_Environments :: "string list"
  s_DependsOn :: "string list"
  s_ShouldRun :: "(seed_ctx \<Rightarrow> seed_context \<Rightarrow> 'v reference_store \<Rightarrow> ('w, bool \<times> 'v reference_store) go) option"
  s_TruncateTables :: "string list option"
  s_Seed :: "seed_ctx \<Rightarrow> seed_context \<Rightarrow> 'v reference_store \<Rightarrow> ('w, goerr option \<times> 'v reference_store) go"

record ('w, 'v) seed_registry =
  sg_seeders :: "('w, 'v) seeder list"
  sg_seen :: "string set"

definition seed_NewRegistry :: "('w, 'v) seed_registry" where
  "seed_NewRegistry = \<lparr>sg_seeders = [], sg_seen = {}\<rparr>"

definition seed_Register :: "('w, 'v) seeder \<Rightarrow> ('w, 'v) seed_registry \<Rightarrow> goerr option \<times> ('w, 'v) seed_registry" where
  "seed_Register s r =
     (if s_Name s \<in> sg_seen r then (Some (errorf (''seed: duplicate seeder '' @ quote (s_Name s))), r)
      else (None, r\<lparr>sg_seen := insert (s_Name s) (sg_seen r), sg_seeders := sg_seeders r @ [s]\<rparr>))"

definition seed_Names :: "('w, 'v) seed_registry \<Rightarrow> string list" where
  "seed_Names r = map s_Name (sg_seeders r)"

definition seed_MustRegister :: "('w, 'v) seeder \<Rightarrow> (('w, 'v) seed_registry, unit) go" where
  "seed_MustRegister s r =
     (case seed_Register s r of
        (Some err, r') \<Rightarrow> (Panic (err_text err), r')
      | (None, r') \<Rightarrow> (Ret (), r'))"

section \<open>Filters\<close>

record run_options =
  ro_Groups :: "string list"
  ro_Classes :: "string list"
  ro_Skip :: "string list"
  ro_Env :: string
  ro_TxMode :: string
  ro_DryRun :: bool
  ro_Fresh :: bool
  ro_Force :: bool

definition filterByEnv :: "string \<Rightarrow> ('w, 'v) seeder list \<Rightarrow> ('w, 'v) seeder list" where
  "filterByEnv env ss =
     (if env = [] then ss
      else filter (\<lambda>s. s_Environments s = [] \<or> env \<in> set (s_Environments s)) ss)"

definition filterByGroups :: "string list \<Rightarrow> ('w, 'v) seeder list \<Rightarrow> ('w, 'v) seeder list" where
  "filterByGroups groups ss =
     (if groups = [] then ss else filter (\<lambda>s. list_ex (\<lambda>sg. sg \<in> set groups) (s_Groups s)) ss)"

definition filterByClass :: "string list \<Rightarrow> ('w, 'v) seeder list \<Rightarrow> ('w, 'v) seeder list" where
  "filterByClass classes ss = (if classes = [] then ss else filter (\<lambda>s. s_Name s \<in> set classes) ss)"

definition filterBySkip :: "string list \<Rightarrow> ('w, 'v) seeder list \<Rightarrow> ('w, 'v) seeder list" where
  "filterBySkip skip ss = (if skip = [] then ss else filter (\<lambda>s. s_Name s \<notin> set skip) ss)"

definition filterSeeders :: "string \<Rightarrow> run_options \<Rightarrow> ('w, 'v) seeder list \<Rightarrow> ('w, 'v) seeder list" where
  "filterSeeders env opts ss =
     filterBySkip (ro_Skip opts) (filterByClass (ro_Classes opts) (filterByGroups (ro_Groups opts) (filterByEnv env ss)))"

section \<open>Order\<close>

definition seed_topologicalSort ::
  "((string \<rightharpoonup> string list) \<Rightarrow> string list) \<Rightarrow> ('w, 'v) seeder list \<Rightarrow> (goerr + ('w, 'v) seeder list) option" where
  "seed_topologicalSort order ss =
     (if ss = [] then Some (Inr [])
      else topo_sort
        (\<lambda>name dep. errorf (''seed: seeder '' @ quote name @ '' depends on unregistered seeder '' @ quote dep))
        (errorf ''seed: dependency cycle detected among seeders'') order s_Name s_DependsOn ss)"

section \<open>Truncation\<close>

abbreviation char_in :: "char \<Rightarrow> char \<Rightarrow> char \<Rightarrow> bool" where
  "char_in a z c \<equiv> (of_char a :: nat) \<le> of_char c \<and> (of_char c :: nat) \<le> of_char z"

abbreviation ident_start :: "char \<Rightarrow> bool" where
  "ident_start c \<equiv> char_in CHR ''a'' CHR ''z'' c \<or> char_in CHR ''A'' CHR ''Z'' c \<or> c = CHR ''_''"

abbreviation ident_part :: "char \<Rightarrow> bool" where
  "ident_part c \<equiv> ident_start c \<or> char_in CHR ''0'' CHR ''9'' c"

abbreviation ident :: "string \<Rightarrow> bool" where
  "ident s \<equiv> (case s of [] \<Rightarrow> False | c # cs \<Rightarrow> ident_start c \<and> list_all ident_part cs)"

text \<open>The regular expression of \<^verbatim>\<open>validTableName\<close>: an identifier, or two with a dot between them.\<close>

definition validTableName :: "string \<Rightarrow> bool" where
  "validTableName t \<longleftrightarrow>
     (case split_at CHR ''.'' t of
        [a] \<Rightarrow> ident a
      | [a, b] \<Rightarrow> ident a \<and> ident b
      | _ \<Rightarrow> False)"

definition TruncateTables ::
  "(string list \<Rightarrow> ('d, unit) statement) \<Rightarrow> string list \<Rightarrow> (('d, 'm) world_scheme, goerr option) go" where
  "TruncateTables trunc tables =
     (if tables = [] then go_return None
      else case List.find (\<lambda>t. \<not> validTableName t) tables of
             Some t \<Rightarrow> go_return (Some (errorf (''seed: invalid table name '' @ quote t)))
           | None \<Rightarrow>
               go_bind (on_db (db_Exec (trunc tables))) (\<lambda>r.
                 case r of Inr err \<Rightarrow> go_return (Some err) | Inl _ \<Rightarrow> go_return None))"

text \<open>The loop of \<^verbatim>\<open>handleFresh\<close> keeps the first occurrence of every table.\<close>

fun collect_tables :: "string list \<Rightarrow> string list \<Rightarrow> string list" where
  "collect_tables [] tables = tables"
| "collect_tables (t # ts) tables = collect_tables ts (if t \<in> set tables then tables else tables @ [t])"

definition handleFresh ::
  "(string list \<Rightarrow> ('d, unit) statement) \<Rightarrow> (('d, 'm) world_scheme, 'v) seeder list \<Rightarrow>
   (('d, 'm) world_scheme, goerr option) go" where
  "handleFresh trunc ss =
     (let tables = collect_tables (concat (map (\<lambda>s. case s_TruncateTables s of Some ts \<Rightarrow> ts | None \<Rightarrow> []) ss)) []
      in if tables \<noteq> []
         then go_bind (TruncateTables trunc tables) (\<lambda>err.
                case err of
                  Some e \<Rightarrow> go_return (Some (errorf_w ''seed: truncation failed'' e))
                | None \<Rightarrow> go_return None)
         else go_return None)"

section \<open>The runner\<close>

record seeder_result =
  sr_Name :: string
  sr_Status :: string
  sr_Error :: "goerr option"

definition executeSingle ::
  "seed_ctx \<Rightarrow> ('w, 'v) seeder \<Rightarrow> seed_context \<Rightarrow> bool \<Rightarrow> 'v reference_store \<Rightarrow>
   ('w, seeder_result \<times> 'v reference_store) go" where
  "executeSingle ctx s sc dryRun refs =
     go_bind (case s_ShouldRun s of Some f \<Rightarrow> f ctx sc refs | None \<Rightarrow> go_return (True, refs)) (\<lambda>(should, refs).
       if \<not> should then go_return (\<lparr>sr_Name = s_Name s, sr_Status = ''conditional-skip'', sr_Error = None\<rparr>, refs)
       else if dryRun then go_return (\<lparr>sr_Name = s_Name s, sr_Status = ''dry-run'', sr_Error = None\<rparr>, refs)
       else go_bind (s_Seed s ctx sc refs) (\<lambda>(err, refs).
              case err of
                Some e \<Rightarrow> go_return (\<lparr>sr_Name = s_Name s, sr_Status = ''error'', sr_Error = Some e\<rparr>, refs)
              | None \<Rightarrow> go_return (\<lparr>sr_Name = s_Name s, sr_Status = ''ok'', sr_Error = None\<rparr>, refs)))"

text \<open>The loop of \<^verbatim>\<open>runGlobal\<close>: the results, and the error at which it stopped.\<close>

fun global_loop ::
  "seed_ctx \<Rightarrow> ('w, 'v) seeder list \<Rightarrow> seed_context \<Rightarrow> bool \<Rightarrow> 'v reference_store \<Rightarrow> seeder_result list \<Rightarrow>
   ('w, seeder_result list \<times> goerr option) go" where
  "global_loop ctx [] sc dryRun refs results = go_return (results, None)"
| "global_loop ctx (s # ss) sc dryRun refs results =
     go_bind (executeSingle ctx s sc dryRun refs) (\<lambda>(result, refs).
       case sr_Error result of
         Some e \<Rightarrow> go_return (results @ [result], Some e)
       | None \<Rightarrow> global_loop ctx ss sc dryRun refs (results @ [result]))"

definition runGlobal ::
  "seed_ctx \<Rightarrow> (('d, 'm) world_scheme, 'v) seeder list \<Rightarrow> string \<Rightarrow> run_options \<Rightarrow>
   (('d, 'm) world_scheme, seeder_result list \<times> goerr option) go" where
  "runGlobal ctx ss env opts =
     go_bind (on_db BeginTx) (\<lambda>b.
       case b of
         Inr err \<Rightarrow> go_return ([], Some (errorf_w ''seed: failed to begin transaction'' err))
       | Inl t \<Rightarrow>
           go_bind (global_loop ctx ss (newSeedContext t env (ro_DryRun opts)) (ro_DryRun opts) NewReferenceStore [])
             (\<lambda>(results, err).
               case err of
                 Some e \<Rightarrow> go_bind (on_db (tx_Rollback t)) (\<lambda>_. go_return (results, Some e))
               | None \<Rightarrow>
                   if ro_DryRun opts
                   then go_bind (on_db (tx_Rollback t)) (\<lambda>rb.
                          go_return (results, map_option (errorf_w ''seed: dry-run rollback failed'') rb))
                   else go_bind (on_db (tx_Commit t)) (\<lambda>ce.
                          go_return (results, map_option (errorf_w ''seed: commit failed'') ce))))"

text \<open>\<^verbatim>\<open>runPerSeeder\<close> and its loop. The result is appended before the commit: what a failed commit
  assigns to it afterwards does not reach the list.\<close>

fun per_seeder_loop ::
  "seed_ctx \<Rightarrow> (('d, 'm) world_scheme, 'v) seeder list \<Rightarrow> string \<Rightarrow> run_options \<Rightarrow> 'v reference_store \<Rightarrow>
   seeder_result list \<Rightarrow> (('d, 'm) world_scheme, seeder_result list \<times> goerr option) go" where
  "per_seeder_loop ctx [] env opts refs results = go_return (results, None)"
| "per_seeder_loop ctx (s # ss) env opts refs results =
     go_bind (on_db BeginTx) (\<lambda>b.
       case b of
         Inr err \<Rightarrow>
           go_return (results, Some (errorf_w (''seed: failed to begin transaction for '' @ s_Name s) err))
       | Inl t \<Rightarrow>
           go_bind (executeSingle ctx s (newSeedContext t env (ro_DryRun opts)) (ro_DryRun opts) refs) (\<lambda>(result, refs).
             case sr_Error result of
               Some e \<Rightarrow>
                 go_bind (on_db (tx_Rollback t)) (\<lambda>_. per_seeder_loop ctx ss env opts refs (results @ [result]))
             | None \<Rightarrow>
                 if ro_DryRun opts
                 then go_bind (on_db (tx_Rollback t)) (\<lambda>rb.
                        case rb of
                          Some e \<Rightarrow> go_return (results @ [result],
                                      Some (errorf_w (''seed: dry-run rollback failed for '' @ s_Name s) e))
                        | None \<Rightarrow> per_seeder_loop ctx ss env opts refs (results @ [result]))
                 else go_bind (on_db (tx_Commit t)) (\<lambda>_.
                        per_seeder_loop ctx ss env opts refs (results @ [result]))))"

definition runPerSeeder ::
  "seed_ctx \<Rightarrow> (('d, 'm) world_scheme, 'v) seeder list \<Rightarrow> string \<Rightarrow> run_options \<Rightarrow>
   (('d, 'm) world_scheme, seeder_result list \<times> goerr option) go" where
  "runPerSeeder ctx ss env opts = per_seeder_loop ctx ss env opts NewReferenceStore []"

definition resolveEnv :: "string \<Rightarrow> run_options \<Rightarrow> string" where
  "resolveEnv cfg_env opts = (if ro_Env opts \<noteq> [] then ro_Env opts else cfg_env)"

text \<open>\<^verbatim>\<open>Run\<close>. The sort always returns (\<open>seed_sort_returns\<close> below), so its last case is never taken.\<close>

definition seed_Run ::
  "((string \<rightharpoonup> string list) \<Rightarrow> string list) \<Rightarrow> (string list \<Rightarrow> ('d, unit) statement) \<Rightarrow> string \<Rightarrow> seed_ctx \<Rightarrow>
   (('d, 'm) world_scheme, 'v) seed_registry \<Rightarrow> run_options \<Rightarrow>
   (('d, 'm) world_scheme, seeder_result list \<times> goerr option) go" where
  "seed_Run order trunc cfg_env ctx reg opts =
     (let ctx = WithEventsDisabled (WithSeeding ctx); env = resolveEnv cfg_env opts in
      if env = ''production'' \<and> \<not> ro_Force opts
      then go_return ([], Some (errorf ''seed: refusing to run in production without --force''))
      else
        (let ss = filterSeeders env opts (sg_seeders reg) in
         go_bind (if ro_Fresh opts then handleFresh trunc ss else go_return None) (\<lambda>ferr.
           case ferr of
             Some e \<Rightarrow> go_return ([], Some e)
           | None \<Rightarrow>
               if ss = [] then go_return ([], None)
               else
                 (case seed_topologicalSort order ss of
                    Some (Inl err) \<Rightarrow> go_return ([], Some err)
                  | Some (Inr out) \<Rightarrow>
                      if ro_TxMode opts = ''per-seeder'' then runPerSeeder ctx out env opts
                      else runGlobal ctx out env opts
                  | None \<Rightarrow> go_panic ''unreachable''))))"

text \<open>The four counts \<^verbatim>\<open>printSummary\<close> logs: ok, skipped, errors and total.\<close>

definition printSummary :: "seeder_result list \<Rightarrow> nat \<times> nat \<times> nat \<times> nat" where
  "printSummary results =
     (length (filter (\<lambda>r. sr_Status r = ''ok'') results),
      length (filter (\<lambda>r. sr_Status r \<in> {''conditional-skip'', ''dry-run''}) results),
      length (filter (\<lambda>r. sr_Status r = ''error'') results),
      length results)"

text \<open>\<^verbatim>\<open>ParseCSV\<close>; \<^verbatim>\<open>nil\<close> and an empty slice are the same list.\<close>

definition ParseCSV :: "string \<Rightarrow> string list" where
  "ParseCSV s = (if s = [] then [] else filter (\<lambda>t. t \<noteq> []) (map trim_space (split_at CHR '','' s)))"

section \<open>Modules\<close>

text \<open>Of a module its name and, if it declares them, its dependencies.\<close>

record app_module =
  m_Name :: string
  m_DependsOn :: "string list option"

record 'x module_registry =
  mr_modules :: "'x app_module_scheme list"
  mr_seen :: "string set"

definition NewModuleRegistry :: "'x module_registry" where
  "NewModuleRegistry = \<lparr>mr_modules = [], mr_seen = {}\<rparr>"

definition module_Register :: "'x app_module_scheme \<Rightarrow> 'x module_registry \<Rightarrow> goerr option \<times> 'x module_registry" where
  "module_Register m r =
     (if m_Name m \<in> mr_seen r then (Some (errorf (''modular: duplicate module '' @ quote (m_Name m))), r)
      else (None, r\<lparr>mr_seen := insert (m_Name m) (mr_seen r), mr_modules := mr_modules r @ [m]\<rparr>))"

abbreviation module_deps :: "'x app_module_scheme \<Rightarrow> string list" where
  "module_deps m \<equiv> (case m_DependsOn m of Some ds \<Rightarrow> ds | None \<Rightarrow> [])"

definition hasDependencies :: "'x module_registry \<Rightarrow> bool" where
  "hasDependencies r = list_ex (\<lambda>m. module_deps m \<noteq> []) (mr_modules r)"

definition Modules ::
  "((string \<rightharpoonup> string list) \<Rightarrow> string list) \<Rightarrow> 'x module_registry \<Rightarrow> (goerr + 'x app_module_scheme list) option" where
  "Modules order r =
     (if \<not> hasDependencies r then Some (Inr (mr_modules r))
      else topo_sort
        (\<lambda>name dep. errorf (''modular: module '' @ quote name @ '' depends on unregistered module '' @ quote dep))
        (errorf ''modular: dependency cycle detected among modules'') order m_Name module_deps (mr_modules r))"

section \<open>The contract of a dependency sort\<close>

text \<open>A Go map is ranged over in any order: \<open>order\<close> gives one for every map.\<close>

definition valid_order :: "((string \<rightharpoonup> string list) \<Rightarrow> string list) \<Rightarrow> bool" where
  "valid_order order \<longleftrightarrow> (\<forall>m. finite (dom m) \<longrightarrow> ranges (order m) m)"

text \<open>What both clients of the sort rely on, for every order of the maps: it returns, it accepts exactly the
  inputs that have an order, and then it lists every item after what the item depends on.\<close>

locale dependency_sorter =
  fixes sorts :: "'a list \<Rightarrow> (goerr + 'a list) option \<Rightarrow> bool"
    and name_of :: "'a \<Rightarrow> string"
    and deps_of :: "'a \<Rightarrow> string list"
  assumes sorts_ok: "sorts xs r \<Longrightarrow> distinct (map name_of xs) \<Longrightarrow> sortable name_of deps_of xs \<Longrightarrow>
      \<exists>ys. r = Some (Inr ys) \<and> mset ys = mset xs \<and> deps_before name_of deps_of ys"
    and sorts_refused: "sorts xs r \<Longrightarrow> distinct (map name_of xs) \<Longrightarrow> \<not> sortable name_of deps_of xs \<Longrightarrow>
      \<exists>e. r = Some (Inl e)"
begin

lemma sorts_returns: "sorts xs r \<Longrightarrow> distinct (map name_of xs) \<Longrightarrow> r \<noteq> None"
  using sorts_ok sorts_refused by blast

lemma sorts_decides:
  assumes "sorts xs r" and "distinct (map name_of xs)"
  shows "case r of
           None \<Rightarrow> False
         | Some (Inl e) \<Rightarrow> \<not> sortable name_of deps_of xs
         | Some (Inr ys) \<Rightarrow> sortable name_of deps_of xs \<and> mset ys = mset xs \<and> deps_before name_of deps_of ys"
  using sorts_ok [OF assms] sorts_refused [OF assms] by (cases "sortable name_of deps_of xs") auto

lemma sorted_set: "sorts xs (Some (Inr ys)) \<Longrightarrow> distinct (map name_of xs) \<Longrightarrow> set ys = set xs"
  using sorts_decides [of xs "Some (Inr ys)"] by (auto dest: mset_eq_setD)

end

lemma topo_sort_empty [simp]: "sortable name_of deps_of []" "deps_before name_of deps_of []"
  by (simp_all add: sortable_def deps_before_def item_rel_def acyclic_def)

definition seed_sorts :: "('w, 'v) seeder list \<Rightarrow> (goerr + ('w, 'v) seeder list) option \<Rightarrow> bool" where
  "seed_sorts ss r \<longleftrightarrow> (\<exists>order. valid_order order \<and> seed_topologicalSort order ss = r)"

interpretation seed_sort: dependency_sorter seed_sorts s_Name s_DependsOn
proof
  fix xs :: "('w, 'v) seeder list" and r
  assume r: "seed_sorts xs r" and d: "distinct (map s_Name xs)"
  then obtain order where o: "\<And>m. finite (dom m) \<Longrightarrow> ranges (order m) m" and e: "seed_topologicalSort order xs = r"
    by (auto simp: seed_sorts_def valid_order_def)
  note spec = topo_sort_spec [where order = order and deps_of = s_DependsOn, OF d o]
  show "\<exists>ys. r = Some (Inr ys) \<and> mset ys = mset xs \<and> deps_before s_Name s_DependsOn ys"
    if "sortable s_Name s_DependsOn xs"
    using spec(1) [OF _ that] e by (cases "xs = []") (auto simp: seed_topologicalSort_def)
  show "\<exists>e. r = Some (Inl e)" if "\<not> sortable s_Name s_DependsOn xs"
    using spec(2) [OF _ that] e that by (cases "xs = []") (auto simp: seed_topologicalSort_def)
qed

text \<open>The registry refuses a name it has: its items have distinct names and \<^verbatim>\<open>seen\<close> is the set of them.\<close>

definition module_registry_ok :: "'x module_registry \<Rightarrow> bool" where
  "module_registry_ok r \<longleftrightarrow> distinct (map m_Name (mr_modules r)) \<and> mr_seen r = m_Name ` set (mr_modules r)"

definition seed_registry_ok :: "('w, 'v) seed_registry \<Rightarrow> bool" where
  "seed_registry_ok r \<longleftrightarrow> distinct (map s_Name (sg_seeders r)) \<and> sg_seen r = s_Name ` set (sg_seeders r)"

lemma module_Register_ok: "module_registry_ok r \<Longrightarrow> module_registry_ok (snd (module_Register m r))"
  by (auto simp: module_registry_ok_def module_Register_def)

lemma seed_Register_ok: "seed_registry_ok r \<Longrightarrow> seed_registry_ok (snd (seed_Register s r))"
  by (auto simp: seed_registry_ok_def seed_Register_def)

text \<open>A registry filled by any sequence of registrations, accepted or refused.\<close>

definition register_modules :: "'x app_module_scheme list \<Rightarrow> 'x module_registry" where
  "register_modules ms = fold (\<lambda>m r. snd (module_Register m r)) ms NewModuleRegistry"

definition register_seeders :: "('w, 'v) seeder list \<Rightarrow> ('w, 'v) seed_registry" where
  "register_seeders ss = fold (\<lambda>s r. snd (seed_Register s r)) ss seed_NewRegistry"

lemma register_modules_ok: "module_registry_ok (register_modules ms)"
  unfolding register_modules_def
  by (rule fold_invariant [where Q = "\<lambda>_. True"]) (simp_all add: module_Register_ok, simp add: module_registry_ok_def NewModuleRegistry_def)

lemma register_seeders_ok: "seed_registry_ok (register_seeders ss)"
  unfolding register_seeders_def
  by (rule fold_invariant [where Q = "\<lambda>_. True"]) (simp_all add: seed_Register_ok, simp add: seed_registry_ok_def seed_NewRegistry_def)

definition module_sorts :: "'x app_module_scheme list \<Rightarrow> (goerr + 'x app_module_scheme list) option \<Rightarrow> bool" where
  "module_sorts ms r \<longleftrightarrow> (\<exists>order reg. valid_order order \<and> mr_modules reg = ms \<and> Modules order reg = r)"

lemma no_deps_sorted:
  assumes "\<And>x. x \<in> set xs \<Longrightarrow> deps_of x = []"
  shows "sortable name_of deps_of xs" and "deps_before name_of deps_of xs"
proof -
  have "item_rel name_of deps_of xs = {}" using assms by (auto simp: item_rel_def)
  then show "sortable name_of deps_of xs" using assms by (simp add: sortable_def acyclic_def)
  show "deps_before name_of deps_of xs" using assms by (simp add: deps_before_def)
qed

interpretation module_sort: dependency_sorter module_sorts m_Name module_deps
proof
  fix xs r
  assume r: "module_sorts xs r" and d: "distinct (map m_Name xs)"
  then obtain order reg where o: "\<And>m. finite (dom m) \<Longrightarrow> ranges (order m) m" and x: "mr_modules reg = xs"
    and e: "Modules order reg = r"
    by (auto simp: module_sorts_def valid_order_def)
  note spec = topo_sort_spec [where order = order and deps_of = module_deps, OF d o]
  have free: "sortable m_Name module_deps xs \<and> deps_before m_Name module_deps xs" if "\<not> hasDependencies reg"
    using no_deps_sorted [of xs module_deps m_Name] that x by (auto simp: hasDependencies_def list_ex_iff)
  show "\<exists>ys. r = Some (Inr ys) \<and> mset ys = mset xs \<and> deps_before m_Name module_deps ys"
    if "sortable m_Name module_deps xs"
    using spec(1) [OF _ that] e x free by (cases "hasDependencies reg") (auto simp: Modules_def)
  show "\<exists>e. r = Some (Inl e)" if "\<not> sortable m_Name module_deps xs"
    using spec(2) [OF _ that] e x free that by (cases "hasDependencies reg") (auto simp: Modules_def)
qed

lemma seed_sort_returns:
  "valid_order order \<Longrightarrow> distinct (map s_Name ss) \<Longrightarrow> seed_topologicalSort order ss \<noteq> None"
  by (rule seed_sort.sorts_returns) (auto simp: seed_sorts_def)

text \<open>The modules of an application, registered in any sequence, are ordered for startup: the sort always
  returns; it returns an error exactly if a module depends on one that is not registered or on itself through
  others; otherwise it lists every registered module once, each after all it depends on, whatever order the
  maps are ranged over.\<close>

theorem modules_start_in_dependency_order:
  assumes "valid_order order"
  shows "case Modules order (register_modules ms) of
           None \<Rightarrow> False
         | Some (Inl e) \<Rightarrow> \<not> sortable m_Name module_deps (mr_modules (register_modules ms))
         | Some (Inr ys) \<Rightarrow> sortable m_Name module_deps (mr_modules (register_modules ms))
             \<and> mset ys = mset (mr_modules (register_modules ms)) \<and> deps_before m_Name module_deps ys"
  using assms register_modules_ok [of ms]
  by (intro module_sort.sorts_decides) (auto simp: module_sorts_def module_registry_ok_def)

text \<open>One order of the maps: by name.\<close>

definition name_order :: "(string \<rightharpoonup> string list) \<Rightarrow> string list" where
  "name_order m = sorted_list_of_set (dom m)"

lemma name_order_valid: "valid_order name_order"
  by (simp add: valid_order_def name_order_def ranges_def)

lemma acyclic_empty: "acyclic {}"
  by (simp add: acyclic_def)

lemma item_rel_simps [simp]:
  "item_rel name_of deps_of [] = {}"
  "item_rel name_of deps_of (x # xs) = (\<lambda>d. (d, name_of x)) ` set (deps_of x) \<union> item_rel name_of deps_of xs"
  by (auto simp: item_rel_def)

definition sample_modules :: "app_module list" where
  "sample_modules =
     [\<lparr>m_Name = ''orders'', m_DependsOn = Some [''iam'']\<rparr>, \<lparr>m_Name = ''iam'', m_DependsOn = None\<rparr>]"

lemma sample_modules_registered: "mr_modules (register_modules sample_modules) = sample_modules"
  by (simp add: register_modules_def sample_modules_def module_Register_def NewModuleRegistry_def)

lemma sample_modules_sortable: "sortable m_Name module_deps sample_modules"
proof -
  have r: "item_rel m_Name module_deps sample_modules = {(''iam'', ''orders'')}"
    by (simp add: sample_modules_def)
  show ?thesis unfolding sortable_def r by (auto simp: sample_modules_def acyclic_insert acyclic_empty)
qed

theorem modules_start_in_dependency_order_witness:
  "\<exists>ys. Modules name_order (register_modules sample_modules) = Some (Inr ys) \<and> deps_before m_Name module_deps ys"
  using modules_start_in_dependency_order [OF name_order_valid, of sample_modules] sample_modules_sortable
  by (auto simp: sample_modules_registered split: option.splits sum.splits)

section \<open>What a run does to the database\<close>

text \<open>Inside a transaction a seeder works through that transaction: it leaves the committed contents alone.\<close>

definition seeder_local :: "(('d, 'm) world_scheme, 'v) seeder \<Rightarrow> bool" where
  "seeder_local s \<longleftrightarrow>
     (\<forall>ctx sc refs w. sc_tx sc \<noteq> None \<longrightarrow>
        world_committed (snd (s_Seed s ctx sc refs w)) = world_committed w
        \<and> (\<forall>f. s_ShouldRun s = Some f \<longrightarrow> world_committed (snd (f ctx sc refs w)) = world_committed w))"

lemma seeder_localD:
  assumes "seeder_local s" and "sc_tx sc \<noteq> None"
  shows "s_Seed s ctx sc refs w = (r, w') \<Longrightarrow> world_committed w' = world_committed w"
    and "s_ShouldRun s = Some f \<Longrightarrow> f ctx sc refs w = (b, w') \<Longrightarrow> world_committed w' = world_committed w"
  using assms by (auto simp: seeder_local_def dest!: spec [of _ ctx] spec [of _ sc] spec [of _ refs] spec [of _ w])

lemma executeSingle_local:
  assumes "seeder_local s" and "sc_tx sc \<noteq> None" and "executeSingle ctx s sc dryRun refs w = (r, w')"
  shows "world_committed w' = world_committed w"
proof -
  obtain r1 w1 where a: "(case s_ShouldRun s of Some f \<Rightarrow> f ctx sc refs | None \<Rightarrow> go_return (True, refs)) w = (r1, w1)"
    by fastforce
  then have "world_committed w1 = world_committed w"
    using seeder_localD(2) [OF assms(1,2)] by (auto split: option.splits simp: go_return_def)
  with a assms(3) seeder_localD(1) [OF assms(1,2)] show ?thesis
    by (auto simp: executeSingle_def go_bind_def go_return_def split: exec.splits prod.splits if_splits option.splits)
qed

lemma global_loop_local:
  "\<forall>s \<in> set ss. seeder_local s \<Longrightarrow> sc_tx sc \<noteq> None \<Longrightarrow> global_loop ctx ss sc dryRun refs results w = (r, w') \<Longrightarrow>
   world_committed w' = world_committed w"
proof (induction ss arbitrary: refs results w)
  case (Cons s ss)
  from Cons.prems(3) obtain r1 w1 where e: "executeSingle ctx s sc dryRun refs w = (r1, w1)" by fastforce
  then have "world_committed w1 = world_committed w" using executeSingle_local Cons.prems by fastforce
  with Cons.IH [of _ _ w1] Cons.prems e show ?case
    by (auto simp: go_bind_def go_return_def split: exec.splits prod.splits option.splits)
qed (simp add: go_return_def)

lemma runGlobal_committed:
  assumes "\<forall>s \<in> set ss. seeder_local s" and "runGlobal ctx ss env opts w = (r, w')"
    and "ro_DryRun opts \<or> (\<forall>results. r \<noteq> Ret (results, None))"
  shows "world_committed w' = world_committed w"
proof -
  obtain b q where b: "BeginTx (db w) = (b, q)" by fastforce
  have c: "committed q = committed (db w)" using BeginTx_cases(1) [OF b] .
  show ?thesis
  proof (cases b)
    case (Inr e)
    with b c assms(2) show ?thesis by (auto simp: runGlobal_def go_bind_def on_db_def go_return_def world_committed_def)
  next
    case (Inl t)
    let ?sc = "newSeedContext t env (ro_DryRun opts)"
    obtain r2 w2 where l: "global_loop ctx ss ?sc (ro_DryRun opts) NewReferenceStore [] (w\<lparr>db := q\<rparr>) = (r2, w2)" by fastforce
    have w2: "committed (db w2) = committed (db w)"
      using global_loop_local [OF assms(1) _ l] c by (simp add: newSeedContext_def world_committed_def)
    obtain rb q3 where rb: "tx_Rollback t (db w2) = (rb, q3)" by fastforce
    obtain ce q4 where ce: "tx_Commit t (db w2) = (ce, q4)" by fastforce
    have "committed q3 = committed (db w2)" using tx_RollbackD [OF rb] .
    moreover have "ce \<noteq> None \<Longrightarrow> committed q4 = committed (db w2)" using tx_Commit_cases(1) [OF ce] .
    ultimately show ?thesis
      using assms(2,3) b Inl l rb ce w2
      by (auto simp: runGlobal_def go_bind_def on_db_def go_return_def world_committed_def
          split: exec.splits prod.splits option.splits if_splits)
  qed
qed

lemma per_seeder_dry_run:
  "\<forall>s \<in> set ss. seeder_local s \<Longrightarrow> ro_DryRun opts \<Longrightarrow> per_seeder_loop ctx ss env opts refs results w = (r, w') \<Longrightarrow>
   world_committed w' = world_committed w"
proof (induction ss arbitrary: refs results w)
  case (Cons s ss)
  obtain b q where b: "BeginTx (db w) = (b, q)" by fastforce
  have c: "committed q = committed (db w)" using BeginTx_cases(1) [OF b] .
  show ?case
  proof (cases b)
    case (Inr e)
    with b c Cons.prems show ?thesis by (auto simp: go_bind_def on_db_def go_return_def world_committed_def)
  next
    case (Inl t)
    let ?sc = "newSeedContext t env (ro_DryRun opts)"
    obtain r2 w2 where x: "executeSingle ctx s ?sc (ro_DryRun opts) refs (w\<lparr>db := q\<rparr>) = (r2, w2)" by fastforce
    have w2: "committed (db w2) = committed (db w)"
      using executeSingle_local [OF _ _ x] Cons.prems(1) c by (simp add: newSeedContext_def world_committed_def)
    obtain rb q3 where rb: "tx_Rollback t (db w2) = (rb, q3)" by fastforce
    have q3: "committed q3 = committed (db w)" using tx_RollbackD [OF rb] w2 by simp
    have cont: "world_committed w' = world_committed w"
      if "per_seeder_loop ctx ss env opts refs' results' (w2\<lparr>db := q3\<rparr>) = (r, w')" for refs' results'
      using Cons.IH [OF _ _ that] Cons.prems q3 by (simp add: world_committed_def)
    show ?thesis
      using Cons.prems(2,3) b Inl x rb q3 w2 cont
      by (auto simp: go_bind_def on_db_def go_return_def world_committed_def
          split: exec.splits prod.splits option.splits)
  qed
qed (simp add: go_return_def)

lemma filterSeeders_sub: "set (filterSeeders env opts ss) \<subseteq> set ss"
  "distinct (map s_Name ss) \<Longrightarrow> distinct (map s_Name (filterSeeders env opts ss))"
  by (auto simp: filterSeeders_def filterBySkip_def filterByClass_def filterByGroups_def filterByEnv_def
      distinct_map_filter)

text \<open>What is left of a run once the tables are dealt with.\<close>

lemma seed_Run_started:
  assumes "valid_order order" and "seed_registry_ok reg" and "resolveEnv cfg_env opts \<noteq> ''production'' \<or> ro_Force opts"
    and "env = resolveEnv cfg_env opts" and "ss = filterSeeders env opts (sg_seeders reg)"
    and "(if ro_Fresh opts then handleFresh trunc ss else go_return None) w = (Ret None, w1)"
    and "seed_Run order trunc cfg_env ctx reg opts w = (r, w')"
  obtains (stopped) "w' = w1" and "ss = [] \<or> \<not> sortable s_Name s_DependsOn ss"
  | (runs) ys where "mset ys = mset ss" and "deps_before s_Name s_DependsOn ys"
      and "(if ro_TxMode opts = ''per-seeder'' then runPerSeeder else runGlobal)
             (WithEventsDisabled (WithSeeding ctx)) ys env opts w1 = (r, w')"
proof -
  have d: "distinct (map s_Name ss)"
    unfolding assms(5) by (rule filterSeeders_sub(2)) (use assms(2) in \<open>simp add: seed_registry_ok_def\<close>)
  have s: "seed_sorts ss (seed_topologicalSort order ss)" using assms(1) by (auto simp: seed_sorts_def)
  note run = assms(7) [unfolded seed_Run_def Let_def, folded assms(4), folded assms(5)]
  show thesis
    using seed_sort.sorts_decides [OF s d] run assms(3,4,6) stopped runs
    by (auto simp: go_bind_def go_return_def split: option.splits sum.splits if_splits)
qed

lemma register_seeders_sub: "set (sg_seeders (register_seeders ss)) \<subseteq> set ss"
proof -
  have "set (sg_seeders (fold (\<lambda>s r. snd (seed_Register s r)) ss r)) \<subseteq> set ss \<union> set (sg_seeders r)" for r
  proof (induction ss arbitrary: r)
    case (Cons a ss)
    have "set (sg_seeders (snd (seed_Register a r))) \<subseteq> insert a (set (sg_seeders r))" by (auto simp: seed_Register_def)
    with Cons.IH [of "snd (seed_Register a r)"] show ?case by auto
  qed simp
  from this [of seed_NewRegistry] show ?thesis by (simp add: register_seeders_def seed_NewRegistry_def)
qed

lemma run_committed:
  assumes "\<forall>s \<in> set ys. seeder_local s"
    and "(if ro_TxMode opts = ''per-seeder'' then runPerSeeder else runGlobal) ctx ys env opts w = (r, w')"
    and "ro_DryRun opts \<or> ro_TxMode opts \<noteq> ''per-seeder'' \<and> (\<forall>results. r \<noteq> Ret (results, None))"
  shows "world_committed w' = world_committed w"
  using assms(2,3) runGlobal_committed [OF assms(1), of ctx env opts w r w'] per_seeder_dry_run [OF assms(1), of opts ctx env _ _ w r w']
  by (auto simp: runPerSeeder_def split: if_splits)

text \<open>The part of a run before its transaction: the truncation that \<^verbatim>\<open>--fresh\<close> asks for.\<close>

abbreviation seed_truncation ::
  "(string list \<Rightarrow> ('d, unit) statement) \<Rightarrow> string \<Rightarrow> (('d, 'm) world_scheme, 'v) seed_registry \<Rightarrow> run_options \<Rightarrow>
   (('d, 'm) world_scheme, goerr option) go" where
  "seed_truncation trunc cfg_env reg opts \<equiv>
     if ro_Fresh opts \<and> (resolveEnv cfg_env opts \<noteq> ''production'' \<or> ro_Force opts)
     then handleFresh trunc (filterSeeders (resolveEnv cfg_env opts) opts (sg_seeders reg)) else go_return None"

text \<open>C9: Apart from the truncation of \<^verbatim>\<open>--fresh\<close>, which comes before the transaction, a seed run is all or nothing in the
  global mode, and a dry run changes nothing in either mode: if a run of seeders that work through the transaction they
  are given is a dry run, or reports an error or panics in the global mode, then the committed contents of the database
  are what they were after the truncation, and without \<^verbatim>\<open>--fresh\<close> what they were before the run, whichever of the seeders
  failed, and also if the commit or the rollback itself failed.\<close>

theorem seed_run_all_or_nothing:
  assumes "valid_order order" and "\<forall>s \<in> set ss. seeder_local s"
    and "seed_Run order trunc cfg_env ctx (register_seeders ss) opts w = (r, w')"
    and "ro_DryRun opts \<or> ro_TxMode opts \<noteq> ''per-seeder'' \<and> (\<forall>results. r \<noteq> Ret (results, None))"
  shows "world_committed w' = world_committed (snd (seed_truncation trunc cfg_env (register_seeders ss) opts w))"
proof (cases "resolveEnv cfg_env opts \<noteq> ''production'' \<or> ro_Force opts")
  case True
  let ?ss = "filterSeeders (resolveEnv cfg_env opts) opts (sg_seeders (register_seeders ss))"
  obtain f w1 where fresh: "(if ro_Fresh opts then handleFresh trunc ?ss else go_return None) w = (f, w1)" by fastforce
  then have w1: "snd (seed_truncation trunc cfg_env (register_seeders ss) opts w) = w1" using True by (auto split: if_splits)
  have "world_committed w' = world_committed w1"
  proof (cases "f = Ret None")
    case False
    have "\<not> (resolveEnv cfg_env opts = ''production'' \<and> \<not> ro_Force opts)" using True by blast
    then have "w' = w1"
      using assms(3) False fresh unfolding seed_Run_def Let_def
      by (auto simp: go_bind_def split: exec.splits option.splits)
    then show ?thesis by simp
  next
    case started: True
    show ?thesis
    proof (rule seed_Run_started [OF assms(1) register_seeders_ok True refl refl fresh [unfolded started] assms(3)])
      fix ys
      assume m: "mset ys = mset ?ss" and run: "(if ro_TxMode opts = ''per-seeder'' then runPerSeeder else runGlobal)
             (WithEventsDisabled (WithSeeding ctx)) ys (resolveEnv cfg_env opts) opts w1 = (r, w')"
      have "\<forall>s \<in> set ys. seeder_local s"
        using assms(2) mset_eq_setD [OF m] filterSeeders_sub(1) register_seeders_sub by fast
      from run_committed [OF this run assms(4)] show ?thesis .
    qed simp
  qed
  then show ?thesis by (simp only: w1)
next
  case False
  with assms(3) show ?thesis by (auto simp: seed_Run_def go_return_def)
qed

definition fresh_tables :: "('w, 'v) seeder list \<Rightarrow> string list" where
  "fresh_tables ss = collect_tables (concat (map (\<lambda>s. case s_TruncateTables s of Some ts \<Rightarrow> ts | None \<Rightarrow> []) ss)) []"

lemma collect_tables_set: "set (collect_tables ts acc) = set ts \<union> set acc"
  "distinct acc \<Longrightarrow> distinct (collect_tables ts acc)"
  by (induction ts acc rule: collect_tables.induct) auto

lemma handleFresh_truncates:
  assumes "fresh_tables ss \<noteq> []" and "\<forall>t \<in> set (fresh_tables ss). validTableName t"
    and "faults (db w) = []" and "trunc (fresh_tables ss) (committed (db w)) = (Inl (), d)"
  shows "handleFresh trunc ss w = (Ret None, w\<lparr>db := (db w)\<lparr>committed := d\<rparr>\<rparr>)"
proof -
  have "List.find (\<lambda>t. \<not> validTableName t) (fresh_tables ss) = None" using assms(2) by (simp add: find_None_iff)
  with assms(1,3,4) show ?thesis
    by (simp add: handleFresh_def fresh_tables_def [symmetric] Let_def TruncateTables_def go_bind_def on_db_def
        go_return_def db_Exec_no_faults)
qed

text \<open>C37: A dry run with \<^verbatim>\<open>--fresh\<close> is not dry: the tables of the selected seeders are truncated on the pool,
  outside every transaction, before the dry run is looked at, so the truncation is committed although no seeder
  ran and the dry run's transaction is rolled back.\<close>

theorem seed_fresh_dry_run_truncates:
  assumes "valid_order order" and "\<forall>s \<in> set ss. seeder_local s" and "ro_Fresh opts" and "ro_DryRun opts"
    and "resolveEnv cfg_env opts \<noteq> ''production''"
    and "tables = fresh_tables (filterSeeders (resolveEnv cfg_env opts) opts (sg_seeders (register_seeders ss)))"
    and "tables \<noteq> []" and "\<forall>t \<in> set tables. validTableName t"
    and "faults (db w) = []" and "trunc tables (committed (db w)) = (Inl (), d)"
    and "seed_Run order trunc cfg_env ctx (register_seeders ss) opts w = (r, w')"
  shows "world_committed w' = d"
proof -
  let ?ss = "filterSeeders (resolveEnv cfg_env opts) opts (sg_seeders (register_seeders ss))"
  let ?w1 = "w\<lparr>db := (db w)\<lparr>committed := d\<rparr>\<rparr>"
  have started: "(if ro_Fresh opts then handleFresh trunc ?ss else go_return None) w = (Ret None, ?w1)"
    using handleFresh_truncates [of ?ss w trunc d] assms by simp
  have allowed: "resolveEnv cfg_env opts \<noteq> ''production'' \<or> ro_Force opts" using assms(5) by simp
  show ?thesis
  proof (rule seed_Run_started [OF assms(1) register_seeders_ok allowed refl refl started assms(11)])
    fix ys
    assume m: "mset ys = mset ?ss"
      and run: "(if ro_TxMode opts = ''per-seeder'' then runPerSeeder else runGlobal)
             (WithEventsDisabled (WithSeeding ctx)) ys (resolveEnv cfg_env opts) opts ?w1 = (r, w')"
    have "\<forall>s \<in> set ys. seeder_local s"
      using assms(2) mset_eq_setD [OF m] filterSeeders_sub(1) register_seeders_sub by fast
    from run_committed [OF this run] assms(4) show ?thesis by (simp add: world_committed_def)
  qed (simp add: world_committed_def)
qed

text \<open>In the mode per seeder a seeder whose commit failed is reported as \<^verbatim>\<open>ok\<close>: the result was copied into the
  list before the commit.\<close>

lemma per_seeder_commit_failure_reported_ok:
  assumes "BeginTx (db w) = (Inl t, q)" and "s_ShouldRun s = None" and "\<not> ro_DryRun opts"
    and "s_Seed s ctx (newSeedContext t env False) NewReferenceStore (w\<lparr>db := q\<rparr>) = (Ret (None, refs), w2)"
    and "tx_Commit t (db w2) = (Some e, q2)"
  shows "runPerSeeder ctx [s] env opts w
           = (Ret ([\<lparr>sr_Name = s_Name s, sr_Status = ''ok'', sr_Error = None\<rparr>], None), w2\<lparr>db := q2\<rparr>)"
  using assms by (simp add: runPerSeeder_def executeSingle_def go_bind_def on_db_def go_return_def)

section \<open>Witnesses\<close>

text \<open>A seeder that inserts a row and then answers \<open>outcome\<close>, a database with one row, and options.\<close>

definition sample_seeder :: "goerr option \<Rightarrow> (int list world, unit) seeder" where
  "sample_seeder outcome =
     \<lparr>s_Name = ''iam.roles'', s_Groups = [''core''], s_Environments = [], s_DependsOn = [],
      s_ShouldRun = None, s_TruncateTables = Some [''roles'', ''iam.users'', ''roles''],
      s_Seed = (\<lambda>ctx sc refs. go_bind (on_db (DBTX sc (\<lambda>d. (Inl (), d @ [1])))) (\<lambda>_. go_return (outcome, refs)))\<rparr>"

definition seed_sample_world :: "int list world" where
  "seed_sample_world = \<lparr>db = \<lparr>committed = [7], txs = Map.empty, next_tx = 0, faults = []\<rparr>\<rparr>"

definition seed_sample_options :: "bool \<Rightarrow> run_options" where
  "seed_sample_options dry =
     \<lparr>ro_Groups = [], ro_Classes = [], ro_Skip = [], ro_Env = ''dev'', ro_TxMode = ''global'', ro_DryRun = dry,
      ro_Fresh = dry, ro_Force = False\<rparr>"

definition seed_sample_ctx :: seed_ctx where
  "seed_sample_ctx = \<lparr>cx_seeding = False, cx_eventsDisabled = False\<rparr>"

definition truncate_all :: "string list \<Rightarrow> (int list, unit) statement" where
  "truncate_all tables d = (Inl (), [])"

lemma sample_seeder_local: "seeder_local (sample_seeder outcome)"
  by (auto simp: seeder_local_def sample_seeder_def go_bind_def on_db_def go_return_def DBTX_def world_committed_def
      tx_Exec_committed split: option.splits prod.splits dest!: tx_Exec_committedD)

lemma sample_registered:
  "sg_seeders (register_seeders [sample_seeder outcome]) = [sample_seeder outcome]"
  "filterSeeders ''dev'' (seed_sample_options dry) [sample_seeder outcome] = [sample_seeder outcome]"
  by (simp_all add: register_seeders_def seed_Register_def seed_NewRegistry_def filterSeeders_def filterByEnv_def
      filterByGroups_def filterByClass_def filterBySkip_def seed_sample_options_def sample_seeder_def)

lemma sample_sorted: "seed_topologicalSort name_order [sample_seeder outcome] = Some (Inr [sample_seeder outcome])"
proof -
  have "sortable s_Name s_DependsOn [sample_seeder outcome]"
    by (rule no_deps_sorted(1)) (simp add: sample_seeder_def)
  then obtain ys where "seed_topologicalSort name_order [sample_seeder outcome] = Some (Inr ys)"
    and "mset ys = {#sample_seeder outcome#}"
    using seed_sort.sorts_ok [of "[sample_seeder outcome]"] name_order_valid by (fastforce simp: seed_sorts_def)
  then show ?thesis by simp
qed

lemma sample_env: "resolveEnv env (seed_sample_options dry) = ''dev''"
  by (simp add: resolveEnv_def seed_sample_options_def)

text \<open>The failing seeder: its insertion is rolled back and its error is the run's.\<close>

lemma sample_failing_run:
  "fst (seed_Run name_order truncate_all ''dev'' seed_sample_ctx (register_seeders [sample_seeder (Some ErrTxDone)])
     (seed_sample_options False) seed_sample_world)
   = Ret ([\<lparr>sr_Name = ''iam.roles'', sr_Status = ''error'', sr_Error = Some ErrTxDone\<rparr>], Some ErrTxDone)"
  unfolding seed_Run_def sample_env sample_registered Let_def sample_sorted
  by (simp add: seed_sample_options_def go_bind_def go_return_def runGlobal_def on_db_def BeginTx_def driver_call_def
      seed_sample_world_def executeSingle_def sample_seeder_def DBTX_def newSeedContext_def tx_Exec_def tx_Rollback_def)

theorem seed_run_all_or_nothing_witness:
  "world_committed (snd (seed_Run name_order truncate_all ''dev'' seed_sample_ctx
     (register_seeders [sample_seeder (Some ErrTxDone)]) (seed_sample_options False) seed_sample_world)) = [7]"
proof -
  let ?run = "seed_Run name_order truncate_all ''dev'' seed_sample_ctx (register_seeders [sample_seeder (Some ErrTxDone)])
     (seed_sample_options False) seed_sample_world"
  obtain r w' where run: "?run = (r, w')" by fastforce
  have r: "r = Ret ([\<lparr>sr_Name = ''iam.roles'', sr_Status = ''error'', sr_Error = Some ErrTxDone\<rparr>], Some ErrTxDone)"
    using sample_failing_run run by simp
  have "world_committed w' = world_committed (snd (seed_truncation truncate_all ''dev''
      (register_seeders [sample_seeder (Some ErrTxDone)]) (seed_sample_options False) seed_sample_world))"
    by (rule seed_run_all_or_nothing [OF name_order_valid, where ctx = seed_sample_ctx and r = r])
      (use run in \<open>simp_all add: sample_seeder_local r\<close>, simp_all add: seed_sample_options_def)
  also have "\<dots> = world_committed seed_sample_world" by (simp add: seed_sample_options_def)
  finally have "world_committed w' = world_committed seed_sample_world" .
  then show ?thesis by (simp add: run) (simp add: world_committed_def seed_sample_world_def)
qed

theorem seed_fresh_dry_run_truncates_witness:
  "world_committed seed_sample_world = [7] \<and>
   world_committed (snd (seed_Run name_order truncate_all ''dev'' seed_sample_ctx
     (register_seeders [sample_seeder None]) (seed_sample_options True) seed_sample_world)) = []"
proof -
  let ?run = "seed_Run name_order truncate_all ''dev'' seed_sample_ctx (register_seeders [sample_seeder None])
     (seed_sample_options True) seed_sample_world"
  have t: "fresh_tables [sample_seeder None] = [''roles'', ''iam.users'']"
    by (simp add: fresh_tables_def sample_seeder_def)
  have v: "validTableName ''roles'' \<and> validTableName ''iam.users''" by code_simp
  have "world_committed (snd ?run) = []"
    by (rule seed_fresh_dry_run_truncates [OF name_order_valid, of "[sample_seeder None]" "seed_sample_options True" "''dev''"
          "[''roles'', ''iam.users'']" seed_sample_world truncate_all "[]" seed_sample_ctx "fst ?run"])
      (use v in \<open>simp_all add: sample_seeder_local sample_env sample_registered t truncate_all_def\<close>,
       simp_all add: seed_sample_options_def seed_sample_world_def)
  then show ?thesis by (simp add: world_committed_def seed_sample_world_def)
qed

end
