(* ===== verification/Wolf_DI.thy ===== *)
theory Wolf_DI
  imports Wolf_Tx
begin

text \<open>
  The container (\<^verbatim>\<open>src/infra/di/container.go\<close>) and the two transaction middlewares that register a connection
  in it (\<^verbatim>\<open>src/infra/middleware/http/transaction.go\<close>, \<^verbatim>\<open>src/infra/middleware/grpc/transaction.go\<close>).

  A factory is a function of the container it is given, and all it can do with it is to resolve keys: it is
  the tree of its resolutions. The fields that a pointer shares, the registrations, the singletons with their
  \<^verbatim>\<open>sync.Once\<close> and the child scopes with their mutex, are one state. A goroutine that waits for a lock it holds
  itself is a value of the result. Resolution can recurse without end, so it has fuel.
\<close>

section \<open>The container\<close>

text \<open>\<open>None\<close> is the value nil.\<close>

datatype 'v di_factory =
    Returns "'v option"
  | Panics string
  | Resolves string "'v option \<Rightarrow> 'v di_factory"

record 'v entry =
  e_factory :: "'v di_factory"
  e_isScoped :: bool

text \<open>A \<^verbatim>\<open>singletonEntry\<close>: its function runs, or is done; after a panic it is done and the value is nil.\<close>

datatype 'v once = Running | Finished "'v option"

record 'v scope =
  sc_values :: "string \<rightharpoonup> 'v option"
  sc_locked :: bool

record 'v container =
  di_entries :: "string \<rightharpoonup> 'v entry"
  di_singletons :: "string \<rightharpoonup> 'v once"
  di_scopes :: "nat \<rightharpoonup> 'v scope"
  di_next_scope :: nat

datatype handle = Root | Scope nat

datatype 'v resolution = Got "'v option" | Panicked string | Deadlock | OutOfFuel

definition di_New :: "'v container" where
  "di_New = \<lparr>di_entries = Map.empty, di_singletons = Map.empty, di_scopes = Map.empty, di_next_scope = 0\<rparr>"

text \<open>The registrations of a child scope go to the root.\<close>

definition AddSingleton :: "string \<Rightarrow> 'v di_factory \<Rightarrow> 'v container \<Rightarrow> 'v container" where
  "AddSingleton key f c = c\<lparr>di_entries := (di_entries c)(key \<mapsto> \<lparr>e_factory = f, e_isScoped = False\<rparr>)\<rparr>"

definition AddScoped :: "string \<Rightarrow> 'v di_factory \<Rightarrow> 'v container \<Rightarrow> 'v container" where
  "AddScoped key f c = c\<lparr>di_entries := (di_entries c)(key \<mapsto> \<lparr>e_factory = f, e_isScoped = True\<rparr>)\<rparr>"

definition lookupEntry :: "string \<Rightarrow> 'v container \<Rightarrow> 'v entry option" where
  "lookupEntry key c = di_entries c key"

definition Scoped :: "'v container \<Rightarrow> nat \<times> 'v container" where
  "Scoped c =
     (di_next_scope c,
      c\<lparr>di_scopes := (di_scopes c)(di_next_scope c \<mapsto> \<lparr>sc_values = Map.empty, sc_locked = False\<rparr>),
        di_next_scope := di_next_scope c + 1\<rparr>)"

abbreviation not_registered :: "string \<Rightarrow> 'v resolution" where
  "not_registered key \<equiv> Panicked (''di: key not registered: '' @ key)"

text \<open>\<open>run_once key r\<close> ends \<^verbatim>\<open>once.Do\<close>: a value is stored, a panic leaves nil and goes on.\<close>

definition once_done :: "string \<Rightarrow> 'v resolution \<Rightarrow> 'v container \<Rightarrow> 'v resolution \<times> 'v container" where
  "once_done key r c =
     (case r of
        Got v \<Rightarrow> (Got v, c\<lparr>di_singletons := (di_singletons c)(key \<mapsto> Finished v)\<rparr>)
      | Panicked p \<Rightarrow> (Panicked p, c\<lparr>di_singletons := (di_singletons c)(key \<mapsto> Finished None)\<rparr>)
      | _ \<Rightarrow> (r, c))"

definition set_scope :: "nat \<Rightarrow> 'v scope \<Rightarrow> 'v container \<Rightarrow> 'v container" where
  "set_scope i s c = c\<lparr>di_scopes := (di_scopes c)(i \<mapsto> s)\<rparr>"

text \<open>The end of \<^verbatim>\<open>scopedContainer.Get\<close>: the value is kept, and the deferred unlock runs also after a panic.\<close>

definition scope_done :: "nat \<Rightarrow> string \<Rightarrow> 'v resolution \<Rightarrow> 'v container \<Rightarrow> 'v resolution \<times> 'v container" where
  "scope_done i key r c =
     (case (r, di_scopes c i) of
        (Got v, Some s) \<Rightarrow> (Got v, set_scope i \<lparr>sc_values = (sc_values s)(key \<mapsto> v), sc_locked = False\<rparr> c)
      | (Panicked p, Some s) \<Rightarrow> (Panicked p, set_scope i (s\<lparr>sc_locked := False\<rparr>) c)
      | _ \<Rightarrow> (r, c))"

fun Get :: "nat \<Rightarrow> handle \<Rightarrow> string \<Rightarrow> 'v container \<Rightarrow> 'v resolution \<times> 'v container"
  and run_factory :: "nat \<Rightarrow> handle \<Rightarrow> 'v di_factory \<Rightarrow> 'v container \<Rightarrow> 'v resolution \<times> 'v container" where
  "Get 0 h key c = (OutOfFuel, c)"
| "Get (Suc n) Root key c =
     (case lookupEntry key c of
        None \<Rightarrow> (not_registered key, c)
      | Some e \<Rightarrow>
          if e_isScoped e then run_factory n Root (e_factory e) c
          else (case di_singletons c key of
                  Some (Finished v) \<Rightarrow> (Got v, c)
                | Some Running \<Rightarrow> (Deadlock, c)
                | None \<Rightarrow>
                    (case run_factory n Root (e_factory e) (c\<lparr>di_singletons := (di_singletons c)(key \<mapsto> Running)\<rparr>) of
                       (r, c') \<Rightarrow> once_done key r c')))"
| "Get (Suc n) (Scope i) key c =
     (case lookupEntry key c of
        None \<Rightarrow> (not_registered key, c)
      | Some e \<Rightarrow>
          if \<not> e_isScoped e then Get n Root key c
          else (case di_scopes c i of
                  None \<Rightarrow> (Panicked ''invalid memory address'', c)
                | Some s \<Rightarrow>
                    if sc_locked s then (Deadlock, c)
                    else (case sc_values s key of
                            Some v \<Rightarrow> (Got v, c)
                          | None \<Rightarrow>
                              (case run_factory n (Scope i) (e_factory e) (set_scope i (s\<lparr>sc_locked := True\<rparr>) c) of
                                 (r, c') \<Rightarrow> scope_done i key r c'))))"
| "run_factory 0 h f c = (OutOfFuel, c)"
| "run_factory (Suc n) h (Returns v) c = (Got v, c)"
| "run_factory (Suc n) h (Panics p) c = (Panicked p, c)"
| "run_factory (Suc n) h (Resolves key k) c =
     (case Get n h key c of
        (Got v, c') \<Rightarrow> run_factory n h (k v) c'
      | (r, c') \<Rightarrow> (r, c'))"

text \<open>\<^verbatim>\<open>tryResolve\<close> does not look at the value; a recovered panic becomes an error. \<^verbatim>\<open>Validate\<close> goes over the
  registrations in the order \<open>ks\<close>.\<close>

definition tryResolve :: "nat \<Rightarrow> string \<Rightarrow> 'v entry \<Rightarrow> 'v container \<Rightarrow> (goerr option) option \<times> 'v container" where
  "tryResolve n key e c =
     (case di_singletons c key of
        Some (Finished v) \<Rightarrow> (Some None, c)
      | Some Running \<Rightarrow> (None, c)
      | None \<Rightarrow>
          (case run_factory n Root (e_factory e) (c\<lparr>di_singletons := (di_singletons c)(key \<mapsto> Running)\<rparr>) of
             (r, c') \<Rightarrow>
               (case once_done key r c' of
                  (Got v, c'') \<Rightarrow> (Some None, c'')
                | (Panicked p, c'') \<Rightarrow>
                    (Some (Some (errorf (''di: singleton '' @ quote key @ '' panicked during validation: '' @ p))), c'')
                | (_, c'') \<Rightarrow> (None, c''))))"

fun validate_keys ::
  "nat \<Rightarrow> (string \<rightharpoonup> 'v entry) \<Rightarrow> string list \<Rightarrow> goerr option list \<Rightarrow> 'v container \<Rightarrow> (goerr option) option \<times> 'v container" where
  "validate_keys n snapshot [] errs c = (Some (errors_Join errs), c)"
| "validate_keys n snapshot (key # ks) errs c =
     (case snapshot key of
        None \<Rightarrow> validate_keys n snapshot ks errs c
      | Some e \<Rightarrow>
          if e_isScoped e then validate_keys n snapshot ks errs c
          else (case tryResolve n key e c of
                  (Some err, c') \<Rightarrow> validate_keys n snapshot ks (errs @ [err]) c'
                | (None, c') \<Rightarrow> (None, c')))"

definition di_Validate :: "nat \<Rightarrow> string list \<Rightarrow> 'v container \<Rightarrow> (goerr option) option \<times> 'v container" where
  "di_Validate n ks c = validate_keys n (di_entries c) ks [] c"

text \<open>\<open>ctx\<close> is the scope in the context, \<open>as_T\<close> the type assertion.\<close>

definition GetTyped ::
  "nat \<Rightarrow> ('v option \<Rightarrow> 't option) \<Rightarrow> nat option \<Rightarrow> string \<Rightarrow> 'v container \<Rightarrow> ('t resolution) \<times> 'v container" where
  "GetTyped n as_T ctx key c =
     (case ctx of
        None \<Rightarrow> (Panicked ''di: no scoped container in context'', c)
      | Some i \<Rightarrow>
          (case Get n (Scope i) key c of
             (Got v, c') \<Rightarrow>
               (case as_T v of
                  Some t \<Rightarrow> (Got (Some t), c')
                | None \<Rightarrow> (Panicked (''di: type assertion failed for key: '' @ key), c'))
           | (Panicked p, c') \<Rightarrow> (Panicked p, c')
           | (Deadlock, c') \<Rightarrow> (Deadlock, c')
           | (OutOfFuel, c') \<Rightarrow> (OutOfFuel, c')))"

definition GetTypedSafe ::
  "nat \<Rightarrow> ('v option \<Rightarrow> 't option) \<Rightarrow> ('v option \<Rightarrow> string) \<Rightarrow> nat option \<Rightarrow> string \<Rightarrow> 'v container \<Rightarrow>
   (goerr + 't) resolution \<times> 'v container" where
  "GetTypedSafe n as_T type_name ctx key c =
     (case ctx of
        None \<Rightarrow> (Got (Some (Inl (errorf ''di: no scoped container in context''))), c)
      | Some i \<Rightarrow>
          (case Get n (Scope i) key c of
             (Got v, c') \<Rightarrow>
               (case as_T v of
                  Some t \<Rightarrow> (Got (Some (Inr t)), c')
                | None \<Rightarrow> (Got (Some (Inl (errorf (''di: type assertion failed for key '' @ quote key @ '': got '' @ type_name v)))), c'))
           | (Panicked p, c') \<Rightarrow> (Panicked p, c')
           | (Deadlock, c') \<Rightarrow> (Deadlock, c')
           | (OutOfFuel, c') \<Rightarrow> (OutOfFuel, c')))"

section \<open>Transactions of a request\<close>

text \<open>A connection in the container is a transaction; other services are named.\<close>

datatype di_value = Conn nat | Service string

record 'd req_world = "'d world" +
  ctr :: "di_value container"

abbreviation connKey :: string where
  "connKey \<equiv> ''db.conn''"

text \<open>The common start of both middlewares: a child scope, a transaction, and the registration of its
  connection, made through the scope.\<close>

definition tx_start :: "(('d, 'm) req_world_scheme, (nat \<times> nat) + goerr) go" where
  "tx_start w =
     (case Scoped (ctr w) of
        (i, c) \<Rightarrow>
          go_bind (on_db BeginTx) (\<lambda>b.
            case b of
              Inr err \<Rightarrow> go_return (Inr err)
            | Inl t \<Rightarrow> (\<lambda>w. (Ret (Inl (i, t)), w\<lparr>ctr := AddScoped connKey (Returns (Some (Conn t))) (ctr w)\<rparr>)))
          (w\<lparr>ctr := c\<rparr>))"

text \<open>How the HTTP middleware ends: it leaves the handler's status alone, or calls its own abort. That is not yet what the
  client sees: gin keeps the status of a response that the handler has already written, and the abort then only adds to
  its body.\<close>

datatype http_outcome = Status int | AbortInternalError string

definition client_status :: "bool \<Rightarrow> int \<Rightarrow> http_outcome \<Rightarrow> int" where
  "client_status written status out =
     (case out of Status s \<Rightarrow> s | AbortInternalError _ \<Rightarrow> if written then status else 500)"

definition http_tx_end :: "nat \<Rightarrow> int \<Rightarrow> (('d, 'm) req_world_scheme, http_outcome) go" where
  "http_tx_end t status =
     (if status \<ge> 500
      then go_bind (on_db (tx_Rollback t)) (\<lambda>_. go_return (Status status))
      else go_bind (on_db (tx_Commit t)) (\<lambda>ce.
             case ce of
               Some e \<Rightarrow> go_return (AbortInternalError ''failed to commit database transaction'')
             | None \<Rightarrow> go_return (Status status)))"

definition on_panic_rollback :: "nat \<Rightarrow> (('d, 'm) req_world_scheme, 'a) go \<Rightarrow> (('d, 'm) req_world_scheme, 'a) go" where
  "on_panic_rollback t m w =
     (case m w of
        (Panic p, w') \<Rightarrow> (Panic p, w'\<lparr>db := snd (tx_Rollback t (db w'))\<rparr>)
      | (Ret v, w') \<Rightarrow> (Ret v, w'))"

definition TransactionMiddleware ::
  "(nat \<Rightarrow> (('d, 'm) req_world_scheme, int) go) \<Rightarrow> (('d, 'm) req_world_scheme, http_outcome) go" where
  "TransactionMiddleware next =
     go_bind tx_start (\<lambda>r.
       case r of
         Inr err \<Rightarrow> go_return (AbortInternalError ''failed to begin database transaction'')
       | Inl (i, t) \<Rightarrow> on_panic_rollback t (go_bind (next i) (http_tx_end t)))"

text \<open>The gRPC interceptor returns a response or an error; its own errors are status errors with code Internal.\<close>

abbreviation grpc_tx_end ::
  "nat \<Rightarrow> 'resp + goerr \<Rightarrow> (('d, 'm) req_world_scheme, 'resp + goerr) go" where
  "grpc_tx_end t r \<equiv>
     (case r of
        Inr err \<Rightarrow> go_bind (on_db (tx_Rollback t)) (\<lambda>_. go_return (Inr err))
      | Inl resp \<Rightarrow>
          go_bind (on_db (tx_Commit t)) (\<lambda>ce.
            case ce of
              Some e \<Rightarrow> go_return (Inr (ErrorsNew ''rpc error: code = Internal desc = failed to commit database transaction''))
            | None \<Rightarrow> go_return (Inl resp)))"

definition TransactionInterceptor ::
  "(nat \<Rightarrow> (('d, 'm) req_world_scheme, 'resp + goerr) go) \<Rightarrow> (('d, 'm) req_world_scheme, 'resp + goerr) go" where
  "TransactionInterceptor handler =
     go_bind tx_start (\<lambda>r.
       case r of
         Inr err \<Rightarrow> go_return (Inr (ErrorsNew ''rpc error: code = Internal desc = failed to begin database transaction''))
       | Inl (i, t) \<Rightarrow> on_panic_rollback t (go_bind (handler i) (grpc_tx_end t)))"

section \<open>Fuel\<close>

lemma once_done_OutOfFuel: "fst (once_done key r c) = OutOfFuel \<longleftrightarrow> r = OutOfFuel"
  by (cases r) (simp_all add: once_done_def)

lemma scope_done_OutOfFuel: "fst (scope_done i key r c) = OutOfFuel \<longleftrightarrow> r = OutOfFuel"
  by (cases r) (simp_all add: scope_done_def split: option.splits)

lemma fuel_Suc:
  "Get n h key c = (r, c') \<Longrightarrow> r \<noteq> OutOfFuel \<Longrightarrow> Get (Suc n) h key c = (r, c')"
  "run_factory n h f c = (r, c') \<Longrightarrow> r \<noteq> OutOfFuel \<Longrightarrow> run_factory (Suc n) h f c = (r, c')"
proof (induction n h key c and n h f c arbitrary: r c' and r c' rule: Get_run_factory.induct)
  case (2 n key c)
  show ?case
  proof (cases "lookupEntry key c")
    case (Some e)
    show ?thesis
    proof (cases "e_isScoped e")
      case True
      with Some 2 show ?thesis by simp
    next
      case False
      show ?thesis
      proof (cases "di_singletons c key")
        case None
        let ?d = "c\<lparr>di_singletons := (di_singletons c)(key \<mapsto> Running)\<rparr>"
        obtain r1 c1 where r: "run_factory n Root (e_factory e) ?d = (r1, c1)" by fastforce
        have "r1 \<noteq> OutOfFuel" using 2(3,4) Some False None r once_done_OutOfFuel [of key r1 c1] by auto
        with 2(2) [OF Some _ None r] False have "run_factory (Suc n) Root (e_factory e) ?d = (r1, c1)" by simp
        with 2(3) Some False None r show ?thesis by (simp del: run_factory.simps)
      qed (use Some False 2(3) in \<open>auto split: once.splits\<close>)
    qed
  qed (use 2(3) in simp)
next
  case (3 n i key c)
  show ?case
  proof (cases "lookupEntry key c")
    case (Some e)
    show ?thesis
    proof (cases "e_isScoped e")
      case False
      with Some 3 show ?thesis by (simp del: Get.simps(2))
    next
      case True
      show ?thesis
      proof (cases "di_scopes c i")
        case (Some s)
        note s = this
        show ?thesis
        proof (cases "\<not> sc_locked s \<and> sc_values s key = None")
          case go: True
          let ?d = "set_scope i (s\<lparr>sc_locked := True\<rparr>) c"
          obtain r1 c1 where r: "run_factory n (Scope i) (e_factory e) ?d = (r1, c1)" by fastforce
          have "r1 \<noteq> OutOfFuel"
            using 3(3,4) \<open>lookupEntry key c = Some e\<close> True s go r scope_done_OutOfFuel [of i key r1 c1] by auto
          with 3(2) [OF \<open>lookupEntry key c = Some e\<close> _ s _ _ r] True go
          have "run_factory (Suc n) (Scope i) (e_factory e) ?d = (r1, c1)" by simp
          with 3(3) \<open>lookupEntry key c = Some e\<close> True s go r show ?thesis by (simp del: run_factory.simps)
        qed (use 3(3) \<open>lookupEntry key c = Some e\<close> True s in auto)
      qed (use 3(3) \<open>lookupEntry key c = Some e\<close> True in simp)
    qed
  qed (use 3(3) in simp)
next
  case (7 n h key k c)
  obtain r1 c1 where g: "Get n h key c = (r1, c1)" by fastforce
  have "r1 \<noteq> OutOfFuel" using 7(3,4) g by auto
  with 7(1) [OF g] have g': "Get (Suc n) h key c = (r1, c1)" by simp
  show ?case
  proof (cases r1)
    case (Got v)
    with 7 g g' show ?thesis by (simp del: Get.simps)
  qed (use 7(3) g g' in \<open>auto simp del: Get.simps\<close>)
qed simp_all

lemma fuel_mono:
  assumes "n \<le> m" and "r \<noteq> OutOfFuel"
  shows "Get n h key c = (r, c') \<Longrightarrow> Get m h key c = (r, c')"
    and "run_factory n h f c = (r, c') \<Longrightarrow> run_factory m h f c = (r, c')"
  using assms(1) by (induction m rule: dec_induct) (blast intro: fuel_Suc [OF _ assms(2)])+

section \<open>A container without cycles resolves\<close>

text \<open>\<open>below rank E r f\<close>: whatever it is given, the factory returns, and it only resolves registered keys of a
  rank less than \<open>r\<close>.\<close>

primrec below :: "(string \<Rightarrow> nat) \<Rightarrow> (string \<rightharpoonup> 'v entry) \<Rightarrow> nat \<Rightarrow> 'v di_factory \<Rightarrow> bool" where
  "below rank E r (Returns v) \<longleftrightarrow> True"
| "below rank E r (Panics p) \<longleftrightarrow> False"
| "below rank E r (Resolves key k) \<longleftrightarrow> key \<in> dom E \<and> rank key < r \<and> (\<forall>v. below rank E r (k v))"

definition ranked :: "(string \<Rightarrow> nat) \<Rightarrow> 'v container \<Rightarrow> bool" where
  "ranked rank c \<longleftrightarrow> (\<forall>key e. di_entries c key = Some e \<longrightarrow> below rank (di_entries c) (rank key) (e_factory e))"

definition running :: "'v container \<Rightarrow> string set" where
  "running c = {key. di_singletons c key = Some Running}"

lemma once_done_Got:
  "once_done key (Got v) c = (Got v, c\<lparr>di_singletons := (di_singletons c)(key \<mapsto> Finished v)\<rparr>)"
  by (simp add: once_done_def)

lemma factory_resolves:
  assumes keys: "\<And>key c. rank key < r \<Longrightarrow> di_entries c = E \<Longrightarrow> key \<in> dom E \<Longrightarrow> \<forall>k \<in> running c. rank key < rank k \<Longrightarrow>
      \<exists>n v c'. Get n Root key c = (Got v, c') \<and> di_entries c' = E \<and> running c' = running c"
  shows "below rank E r f \<Longrightarrow> di_entries c = E \<Longrightarrow> \<forall>k \<in> running c. r \<le> rank k \<Longrightarrow>
      \<exists>n v c'. run_factory n Root f c = (Got v, c') \<and> di_entries c' = E \<and> running c' = running c"
proof (induction f arbitrary: c)
  case (Returns v)
  then have "run_factory 1 Root (Returns v) c = (Got v, c)" by (simp add: One_nat_def)
  with Returns show ?case by blast
next
  case (Resolves key k)
  have "\<forall>k \<in> running c. rank key < rank k" using Resolves.prems by fastforce
  then obtain n v c1 where g: "Get n Root key c = (Got v, c1)" "di_entries c1 = E" "running c1 = running c"
    using keys [of key c] Resolves.prems by auto
  obtain m w c2 where f: "run_factory m Root (k v) c1 = (Got w, c2)" "di_entries c2 = E" "running c2 = running c1"
    using Resolves.IH [of "k v" c1] Resolves.prems g by auto
  have "Get (max n m) Root key c = (Got v, c1)" by (rule fuel_mono(1) [OF _ _ g(1)]) simp_all
  moreover have "run_factory (max n m) Root (k v) c1 = (Got w, c2)" by (rule fuel_mono(2) [OF _ _ f(1)]) simp_all
  ultimately have "run_factory (Suc (max n m)) Root (Resolves key k) c = (Got w, c2)" by simp
  moreover have "running c2 = running c" using g(3) f(3) by simp
  ultimately show ?case using f(2) by blast
qed simp

lemma ranked_resolves:
  assumes "ranked rank c0"
  shows "di_entries c = di_entries c0 \<Longrightarrow> key \<in> dom (di_entries c0) \<Longrightarrow> \<forall>k \<in> running c. rank key < rank k \<Longrightarrow>
      \<exists>n v c'. Get n Root key c = (Got v, c') \<and> di_entries c' = di_entries c0 \<and> running c' = running c"
proof (induction "rank key" arbitrary: key c rule: less_induct)
  case less
  obtain e where e: "di_entries c key = Some e" using less.prems by auto
  have b: "below rank (di_entries c0) (rank key) (e_factory e)" using assms e less.prems(1) by (simp add: ranked_def)
  have "\<exists>n v c'. run_factory n Root (e_factory e) d = (Got v, c') \<and> di_entries c' = di_entries c0 \<and> running c' = running d"
    if "di_entries d = di_entries c0" "\<forall>k \<in> running d. rank key \<le> rank k" for d
    using factory_resolves [OF less.hyps b that(1) that(2)] by blast
  note factory = this
  show ?case
  proof (cases "e_isScoped e \<or> di_singletons c key \<noteq> None")
    case True
    show ?thesis
    proof (cases "e_isScoped e")
      case True
      obtain n v c' where "run_factory n Root (e_factory e) c = (Got v, c')" "di_entries c' = di_entries c0" "running c' = running c"
        using factory [of c] less.prems by fastforce
      with e True have "Get (Suc n) Root key c = (Got v, c') \<and> di_entries c' = di_entries c0 \<and> running c' = running c"
        by (simp add: lookupEntry_def)
      then show ?thesis by blast
    next
      case False
      with True obtain v where "di_singletons c key = Some (Finished v)"
        using less.prems(3) by (cases "the (di_singletons c key)") (auto simp: running_def)
      with e False less.prems have "Get (Suc 0) Root key c = (Got v, c) \<and> di_entries c = di_entries c0 \<and> running c = running c"
        by (simp add: lookupEntry_def)
      then show ?thesis by blast
    qed
  next
    case False
    let ?d = "c\<lparr>di_singletons := (di_singletons c)(key \<mapsto> Running)\<rparr>"
    have d: "running ?d = insert key (running c)" by (auto simp: running_def)
    obtain n v c' where r: "run_factory n Root (e_factory e) ?d = (Got v, c')" "di_entries c' = di_entries c0" "running c' = running ?d"
      using factory [of ?d] less.prems d by fastforce
    let ?c = "c'\<lparr>di_singletons := (di_singletons c')(key \<mapsto> Finished v)\<rparr>"
    have "running ?c = running c" using r(3) d False by (auto simp: running_def set_eq_iff)
    moreover have "Get (Suc n) Root key c = (Got v, ?c)" using e False r by (simp add: lookupEntry_def once_done_Got)
    moreover have "di_entries ?c = di_entries c0" using r(2) by simp
    ultimately show ?thesis by blast
  qed
qed

section \<open>A singleton has one value\<close>

lemma once_done_singletons:
  "once_done key r c = (r', c') \<Longrightarrow> key' \<noteq> key \<Longrightarrow> di_singletons c' key' = di_singletons c key'"
  by (auto simp: once_done_def split: resolution.splits)

lemma scope_done_singletons: "scope_done i key r c = (r', c') \<Longrightarrow> di_singletons c' = di_singletons c"
  by (auto simp: scope_done_def set_scope_def split: resolution.splits option.splits)

lemma resolution_keeps_finished:
  "Get n h key c = (r, c') \<Longrightarrow> di_singletons c k = Some (Finished v) \<Longrightarrow> di_singletons c' k = Some (Finished v)"
  "run_factory n h f c = (r, c') \<Longrightarrow> di_singletons c k = Some (Finished v) \<Longrightarrow> di_singletons c' k = Some (Finished v)"
proof (induction n h key c and n h f c arbitrary: r c' and r c' rule: Get_run_factory.induct)
  case (2 n key c)
  show ?case
  proof (cases "\<exists>e. lookupEntry key c = Some e \<and> \<not> e_isScoped e \<and> di_singletons c key = None")
    case True
    then obtain e where e: "lookupEntry key c = Some e" "\<not> e_isScoped e" "di_singletons c key = None" by blast
    let ?d = "c\<lparr>di_singletons := (di_singletons c)(key \<mapsto> Running)\<rparr>"
    obtain r1 c1 where r: "run_factory n Root (e_factory e) ?d = (r1, c1)" by fastforce
    have k: "k \<noteq> key" using 2(4) e(3) by auto
    then have "di_singletons c1 k = Some (Finished v)" using 2(2) [OF e r] 2(4) by simp
    moreover have "once_done key r1 c1 = (r, c')" using 2(3) e r by simp
    ultimately show ?thesis using once_done_singletons k by metis
  next
    case False
    with 2 show ?thesis by (auto split: option.splits if_splits once.splits)
  qed
next
  case (3 n i key c)
  show ?case
  proof (cases "\<exists>e s. lookupEntry key c = Some e \<and> e_isScoped e \<and> di_scopes c i = Some s \<and> \<not> sc_locked s \<and> sc_values s key = None")
    case True
    then obtain e s where e: "lookupEntry key c = Some e" "e_isScoped e" "di_scopes c i = Some s" "\<not> sc_locked s" "sc_values s key = None"
      by blast
    let ?d = "set_scope i (s\<lparr>sc_locked := True\<rparr>) c"
    obtain r1 c1 where r: "run_factory n (Scope i) (e_factory e) ?d = (r1, c1)" by fastforce
    have "di_singletons c1 k = Some (Finished v)" using 3(2) [OF e(1) _ e(3,4,5) r] e(2) 3(4) by (simp add: set_scope_def)
    moreover have "scope_done i key r1 c1 = (r, c')" using 3(3) e r by simp
    ultimately show ?thesis using scope_done_singletons by metis
  next
    case False
    with 3 show ?thesis by (auto split: option.splits if_splits)
  qed
next
  case (7 n h key k' c)
  obtain r1 c1 where g: "Get n h key c = (r1, c1)" by fastforce
  with 7 show ?case by (cases r1) auto
qed auto

text \<open>What happens to a container: a registration, a child scope, a resolution through any handle, however it
  ends.\<close>

inductive di_step :: "'v container \<Rightarrow> 'v container \<Rightarrow> bool" where
  step_AddSingleton: "di_step c (AddSingleton key f c)"
| step_AddScoped: "di_step c (AddScoped key f c)"
| step_Scoped: "di_step c (snd (Scoped c))"
| step_Get: "di_step c (snd (Get n h key c))"

lemma di_steps_keep_finished:
  "di_step\<^sup>*\<^sup>* c c' \<Longrightarrow> di_singletons c k = Some (Finished v) \<Longrightarrow> di_singletons c' k = Some (Finished v)"
proof (induction rule: rtranclp_induct)
  case (step c1 c2)
  from step.hyps(2) show ?case
  proof cases
    case (step_Get n h key)
    then show ?thesis using resolution_keeps_finished(1) [of n h key c1 _ c2 k v] step.IH step.prems by (metis prod.collapse)
  qed (use step in \<open>simp_all add: AddSingleton_def AddScoped_def Scoped_def\<close>)
qed

text \<open>A singleton is one value for the life of the container: once a resolution through the root has returned
  it, every later resolution of that key, from the root or from any scope, returns the same value without
  changing anything, whatever was registered, resolved or panicked in between, even a new registration of the
  same key as a singleton.\<close>

theorem singleton_has_one_value:
  assumes "lookupEntry key c = Some e" and "\<not> e_isScoped e" and "Get n Root key c = (Got v, c1)"
    and "di_step\<^sup>*\<^sup>* c1 c2" and "lookupEntry key c2 = Some e2" and "\<not> e_isScoped e2"
  shows "Get (Suc (Suc m)) h key c2 = (Got v, c2)"
proof -
  have "di_singletons c1 key = Some (Finished v)"
    using assms(1-3)
    by (cases n) (auto split: option.splits once.splits prod.splits resolution.splits simp: once_done_def)
  from di_steps_keep_finished [OF assms(4) this] assms(5,6) show ?thesis by (cases h) simp_all
qed

text \<open>In a request scope a scoped factory cannot use another scoped service: the scope holds its mutex while
  the factory runs, so resolving any scoped key there, or its own, blocks for ever.\<close>

theorem scoped_dependency_deadlocks:
  assumes "lookupEntry a c = Some ea" and "e_isScoped ea" and "e_factory ea = Resolves b k"
    and "lookupEntry b c = Some eb" and "e_isScoped eb"
    and "di_scopes c i = Some s" and "\<not> sc_locked s" and "sc_values s a = None"
  shows "fst (Get (Suc (Suc (Suc n))) (Scope i) a c) = Deadlock"
  using assms by (simp add: lookupEntry_def set_scope_def scope_done_def)

text \<open>\<^verbatim>\<open>GetTypedSafe\<close> also panics if the key is not registered.\<close>

lemma GetTypedSafe_unregistered:
  "lookupEntry key c = None \<Longrightarrow> fst (GetTypedSafe (Suc n) as_T type_name (Some i) key c) = not_registered key"
  by (simp add: GetTypedSafe_def)

text \<open>C14: If the registrations have no cycle (a rank falls along every resolution), every factory returns and no
  singleton is being built, then resolving a registered key from the root returns a value: no deadlock, no panic
  and no endless recursion.\<close>

theorem acyclic_container_resolves:
  assumes "ranked rank c" and "key \<in> dom (di_entries c)" and "running c = {}"
  shows "\<exists>n v c'. \<forall>m \<ge> n. Get m Root key c = (Got v, c')"
proof -
  obtain n v c' where g: "Get n Root key c = (Got v, c')" using ranked_resolves [OF assms(1) refl assms(2)] assms(3) by auto
  have "Get m Root key c = (Got v, c')" if "n \<le> m" for m using fuel_mono(1) [OF that _ g] by simp
  then show ?thesis by blast
qed

section \<open>The transaction middlewares\<close>

lemma tx_start_cases:
  assumes "tx_start w = (r, w')"
  obtains (failed) e where "r = Ret (Inr e)" and "world_committed w' = world_committed w"
  | (started) i t where "r = Ret (Inl (i, t))" and "i = di_next_scope (ctr w)" and "t = next_tx (db w)"
      and "world_committed w' = world_committed w" and "tx_view t (db w') = Some (world_committed w)"
      and "next_tx (db w') = Suc t" and "txs (db w') = (txs (db w))(t \<mapsto> Active [])"
      and "ctr w' = AddScoped connKey (Returns (Some (Conn t))) (snd (Scoped (ctr w)))"
  using assms
  by (auto simp: tx_start_def Scoped_def go_bind_def on_db_def go_return_def world_committed_def BeginTx_def tx_view_def
      split: prod.splits option.splits sum.splits dest!: driver_call_split)

text \<open>A handler that leaves the committed contents alone: it writes through its transaction.\<close>

definition handler_local :: "(nat \<Rightarrow> (('d, 'm) req_world_scheme, 'a) go) \<Rightarrow> bool" where
  "handler_local next \<longleftrightarrow> (\<forall>i w. world_committed (snd (next i w)) = world_committed w)"

lemma handler_localD: "handler_local next \<Longrightarrow> next i w = (r, w') \<Longrightarrow> world_committed w' = world_committed w"
  unfolding handler_local_def by (metis snd_conv)

lemma tx_CommitD:
  "tx_Commit t q = (Some e, q') \<Longrightarrow> committed q' = committed q"
  "tx_Commit t q = (None, q') \<Longrightarrow> tx_view t q = Some (committed q')"
  using tx_Commit_cases by blast+

lemma http_tx_end_cases:
  assumes "http_tx_end t status w = (r, w')"
  shows "r = Ret (Status s) \<Longrightarrow> s < 500 \<Longrightarrow> status = s \<and> tx_view t (db w) = Some (world_committed w')"
    and "\<not> (\<exists>s. r = Ret (Status s) \<and> s < 500) \<Longrightarrow> world_committed w' = world_committed w"
    and "\<exists>v. r = Ret v"
  using assms
  by (auto simp: http_tx_end_def go_bind_def on_db_def go_return_def world_committed_def
      split: if_splits option.splits prod.splits dest!: tx_RollbackD tx_CommitD)

text \<open>A client whose response is written before a commit that fails sees the status of a success.\<close>

lemma failed_commit_looks_fine:
  assumes "http_tx_end t status w = (Ret out, w')" and "status < 500" and "tx_Commit t (db w) = (Some e, q)"
  shows "client_status True status out = status \<and> world_committed w' = world_committed w"
  using assms
  by (auto simp: http_tx_end_def go_bind_def on_db_def go_return_def world_committed_def client_status_def dest: tx_CommitD)

text \<open>C15: The HTTP transaction middleware is atomic: unless it ends with a status below 500, what the request's
  handler wrote is not committed; if it ends with one, the handler returned that status and exactly what it wrote
  through the transaction is committed. A panic of the handler goes on after the rollback. After a failed commit it ends
  with its abort, which a client does not see as a status if the handler has already written the response.\<close>

theorem http_request_atomic:
  assumes "handler_local next" and "TransactionMiddleware next w = (r, w')"
  shows "if \<exists>s. r = Ret (Status s) \<and> s < 500
         then \<exists>s i t w1 w2. r = Ret (Status s) \<and> tx_view t (db w1) = Some (world_committed w)
                \<and> next i w1 = (Ret s, w2) \<and> tx_view t (db w2) = Some (world_committed w')
         else world_committed w' = world_committed w"
proof -
  obtain r1 w1 where s: "tx_start w = (r1, w1)" by fastforce
  from s show ?thesis
  proof (cases rule: tx_start_cases)
    case (failed e)
    with s assms(2) show ?thesis by (auto simp: TransactionMiddleware_def go_bind_def go_return_def)
  next
    case (started i t)
    obtain r2 w2 where n: "next i w1 = (r2, w2)" by fastforce
    have c2: "world_committed w2 = world_committed w" using handler_localD [OF assms(1) n] started(4) by simp
    show ?thesis
    proof (cases r2)
      case (Panic p)
      with s n started c2 assms(2) show ?thesis
        by (auto simp: TransactionMiddleware_def go_bind_def on_panic_rollback_def world_committed_def tx_Rollback_committed)
    next
      case (Ret status)
      obtain r3 w3 where e: "http_tx_end t status w2 = (r3, w3)" by fastforce
      have "r = r3 \<and> w' = w3"
        using s n started Ret e assms(2) http_tx_end_cases(3) [OF e]
        by (auto simp: TransactionMiddleware_def go_bind_def on_panic_rollback_def)
      then have r: "r = r3" "w' = w3" by simp_all
      show ?thesis
      proof (cases "\<exists>s. r = Ret (Status s) \<and> s < 500")
        case True
        then obtain s where s: "r = Ret (Status s)" "s < 500" by blast
        then have "status = s \<and> tx_view t (db w2) = Some (world_committed w')" using http_tx_end_cases(1) [OF e] r by simp
        with True s started(5) n Ret show ?thesis by auto
      next
        case False
        with http_tx_end_cases(2) [OF e] r c2 show ?thesis by auto
      qed
    qed
  qed
qed

text \<open>C34: Requests that overlap share a transaction: the connection of a request is registered in the root under
  one key, so a request that resolves its connection after a second one has started gets the transaction of the
  second; what it writes shows in that transaction and not in its own, and is committed or lost with the other
  request.\<close>

theorem overlapping_requests_share_transaction:
  assumes "tx_start w = (Ret (Inl (i1, t1)), w1)" and "tx_start w1 = (Ret (Inl (i2, t2)), w2)"
    and "Get (Suc (Suc n)) (Scope i1) connKey (ctr w2) = (r, c)"
    and "faults (db w2) = []" and "st (world_committed w) = (Inl v, d)"
  shows "t1 \<noteq> t2 \<and> r = Got (Some (Conn t2))
    \<and> tx_view t2 (snd (tx_Exec t2 st (db w2))) = Some d
    \<and> tx_view t1 (snd (tx_Exec t2 st (db w2))) = Some (world_committed w)"
proof -
  from assms(1) have a: "i1 = di_next_scope (ctr w)" "t1 = next_tx (db w)" "world_committed w1 = world_committed w"
    "next_tx (db w1) = Suc t1" "tx_view t1 (db w1) = Some (world_committed w)" "txs (db w1) = (txs (db w))(t1 \<mapsto> Active [])"
    "ctr w1 = AddScoped connKey (Returns (Some (Conn t1))) (snd (Scoped (ctr w)))"
    by (auto elim: tx_start_cases)
  from assms(2) have b: "t2 = next_tx (db w1)" "world_committed w2 = world_committed w1"
    "txs (db w2) = (txs (db w1))(t2 \<mapsto> Active [])"
    "ctr w2 = AddScoped connKey (Returns (Some (Conn t2))) (snd (Scoped (ctr w1)))"
    by (auto elim: tx_start_cases)
  have "di_entries (ctr w2) connKey = Some \<lparr>e_factory = Returns (Some (Conn t2)), e_isScoped = True\<rparr>"
    using b(4) by (simp add: AddScoped_def)
  moreover have "di_scopes (ctr w2) i1 = Some \<lparr>sc_values = Map.empty, sc_locked = False\<rparr>"
    using a(1,7) b(4) by (simp add: AddScoped_def Scoped_def)
  ultimately have "r = Got (Some (Conn t2))"
    using assms(3) by (simp add: lookupEntry_def set_scope_def scope_done_def)
  moreover have "t1 \<noteq> t2" using a(4) b(1) by simp
  ultimately show ?thesis
    using a b assms(4,5) by (simp add: tx_Exec_def tx_view_def driver_call_def world_committed_def replay_def)
qed

section \<open>Witnesses\<close>

text \<open>A repository that uses a pool, and two scoped services of which the first uses the second.\<close>

definition sample_container :: "di_value container" where
  "sample_container =
     snd (Scoped
       (AddScoped ''uow'' (Resolves connKey (\<lambda>_. Returns (Some (Service ''uow''))))
       (AddScoped connKey (Returns (Some (Conn 0)))
       (AddSingleton ''repo'' (Resolves ''pool'' (\<lambda>_. Returns (Some (Service ''repo''))))
       (AddSingleton ''pool'' (Returns (Some (Service ''pool''))) di_New)))))"

lemmas sample_container_simps = sample_container_def Scoped_def AddScoped_def AddSingleton_def di_New_def
  lookupEntry_def

theorem singleton_has_one_value_witness:
  "Get (Suc (Suc 0)) (Scope 0) ''repo''
     (AddSingleton ''repo'' (Panics ''late'') (snd (Get 5 Root ''repo'' sample_container)))
   = (Got (Some (Service ''repo'')), AddSingleton ''repo'' (Panics ''late'') (snd (Get 5 Root ''repo'' sample_container)))"
proof (rule singleton_has_one_value)
  show "lookupEntry ''repo'' sample_container
      = Some \<lparr>e_factory = Resolves ''pool'' (\<lambda>_. Returns (Some (Service ''repo''))), e_isScoped = False\<rparr>"
    by (simp add: sample_container_simps)
  show "Get 5 Root ''repo'' sample_container
      = (Got (Some (Service ''repo'')), snd (Get 5 Root ''repo'' sample_container))"
    by (simp add: sample_container_simps numeral_eq_Suc once_done_def)
  show "di_step\<^sup>*\<^sup>* (snd (Get 5 Root ''repo'' sample_container))
      (AddSingleton ''repo'' (Panics ''late'') (snd (Get 5 Root ''repo'' sample_container)))"
    by (rule r_into_rtranclp) (rule step_AddSingleton)
  show "lookupEntry ''repo'' (AddSingleton ''repo'' (Panics ''late'') (snd (Get 5 Root ''repo'' sample_container)))
      = Some \<lparr>e_factory = Panics ''late'', e_isScoped = False\<rparr>"
    by (simp add: lookupEntry_def AddSingleton_def)
qed simp_all

theorem scoped_dependency_deadlocks_witness:
  "fst (Get (Suc (Suc (Suc 0))) (Scope 0) ''uow'' sample_container) = Deadlock"
  by (rule scoped_dependency_deadlocks [where b = connKey and k = "\<lambda>_. Returns (Some (Service ''uow''))"
        and ea = "\<lparr>e_factory = Resolves connKey (\<lambda>_. Returns (Some (Service ''uow''))), e_isScoped = True\<rparr>"
        and eb = "\<lparr>e_factory = Returns (Some (Conn 0)), e_isScoped = True\<rparr>"
        and s = "\<lparr>sc_values = Map.empty, sc_locked = False\<rparr>"])
    (simp_all add: sample_container_simps)

theorem acyclic_container_resolves_witness:
  "\<exists>n v c'. \<forall>m \<ge> n. Get m Root ''uow'' sample_container = (Got v, c')"
proof (rule acyclic_container_resolves)
  show "ranked (\<lambda>key. if key = ''repo'' \<or> key = ''uow'' then 1 else 0) sample_container"
    by (auto simp: ranked_def sample_container_simps split: if_splits)
qed (auto simp: sample_container_simps running_def)

definition sample_req_world :: "int list req_world" where
  "sample_req_world =
     \<lparr>db = \<lparr>committed = [7], txs = Map.empty, next_tx = 0, faults = []\<rparr>, ctr = di_New\<rparr>"

text \<open>A handler that writes through the connection of its scope and answers 200.\<close>

definition sample_next :: "int \<Rightarrow> nat \<Rightarrow> (int list req_world, int) go" where
  "sample_next status i w =
     (case Get 5 (Scope i) connKey (ctr w) of
        (Got (Some (Conn t)), c) \<Rightarrow>
          go_bind (on_db (tx_Exec t (\<lambda>d. (Inl (), d @ [1])))) (\<lambda>_. go_return status) (w\<lparr>ctr := c\<rparr>)
      | (_, c) \<Rightarrow> (Ret 500, w\<lparr>ctr := c\<rparr>))"

lemma sample_next_local: "handler_local (sample_next status)"
  by (auto simp: handler_local_def sample_next_def go_bind_def on_db_def go_return_def world_committed_def
      split: prod.splits resolution.splits option.splits di_value.splits dest!: tx_Exec_committedD)

theorem http_request_atomic_witness:
  "world_committed (snd (TransactionMiddleware (sample_next 503) sample_req_world)) = [7]"
proof -
  obtain r w' where m: "TransactionMiddleware (sample_next 503) sample_req_world = (r, w')" by fastforce
  then have "fst (TransactionMiddleware (sample_next 503) sample_req_world) = r" by simp
  then have "r = Ret (Status 503)"
    by (simp add: TransactionMiddleware_def tx_start_def sample_req_world_def Scoped_def di_New_def go_bind_def on_db_def
        BeginTx_def driver_call_def AddScoped_def on_panic_rollback_def sample_next_def numeral_eq_Suc lookupEntry_def
        set_scope_def scope_done_def tx_Exec_def go_return_def http_tx_end_def tx_Rollback_def)
  with http_request_atomic [OF sample_next_local m] m show ?thesis by (simp add: world_committed_def sample_req_world_def)
qed

theorem overlapping_requests_share_transaction_witness:
  "\<exists>w1 w2. tx_start sample_req_world = (Ret (Inl (0, 0)), w1) \<and> tx_start w1 = (Ret (Inl (1, 1)), w2)
    \<and> fst (Get (Suc (Suc 0)) (Scope 0) connKey (ctr w2)) = Got (Some (Conn 1))
    \<and> tx_view 0 (snd (tx_Exec 1 (\<lambda>d. (Inl (), d @ [1])) (db w2))) = Some [7]"
proof -
  have a: "tx_start sample_req_world = (Ret (Inl (0, 0)), snd (tx_start sample_req_world))"
    by (simp add: tx_start_def sample_req_world_def Scoped_def di_New_def go_bind_def on_db_def BeginTx_def driver_call_def)
  have b: "tx_start (snd (tx_start sample_req_world)) = (Ret (Inl (1, 1)), snd (tx_start (snd (tx_start sample_req_world))))"
    and f: "faults (db (snd (tx_start (snd (tx_start sample_req_world))))) = []"
    by (simp_all add: tx_start_def sample_req_world_def Scoped_def di_New_def go_bind_def on_db_def BeginTx_def
        driver_call_def AddScoped_def)
  let ?w2 = "snd (tx_start (snd (tx_start sample_req_world)))"
  obtain r c where g: "Get (Suc (Suc 0)) (Scope 0) connKey (ctr ?w2) = (r, c)" by fastforce
  note shared = overlapping_requests_share_transaction
    [where st = "\<lambda>d. (Inl (), d @ [1])" and v = "()" and d = "[7, 1]", OF a b g f]
  have c: "world_committed sample_req_world = [7]" by (simp add: world_committed_def sample_req_world_def)
  have "fst (Get (Suc (Suc 0)) (Scope 0) connKey (ctr ?w2)) = Got (Some (Conn 1))"
    and "tx_view 0 (snd (tx_Exec 1 (\<lambda>d. (Inl (), d @ [1])) (db ?w2))) = Some [7]"
    using shared c g by (simp_all del: Get.simps)
  with a b show ?thesis by blast
qed

end
