(* ===== verification/Wolf_Cache.thy ===== *)
theory Wolf_Cache
  imports Wolf_Errors
begin

text \<open>
  Caches (\<^verbatim>\<open>src/infra/cache\<close>): the client interface as a record of its methods on a world \<open>'w\<close>, the no-op
  client, the Redis client, the clients that coalesce reads or keep a local copy, the factory, and the adapter that stores
  values as JSON. The Redis library and the LRU are records of the calls the code makes; what is assumed
  of them is \<open>rdb_ok\<close> and \<open>lru_ok\<close>. One goroutine at a time: the coalescing of concurrent reads is one
  read. Contexts are left out.
\<close>

section \<open>Clients\<close>

definition ErrCacheMiss :: goerr where
  "ErrCacheMiss = ErrorsNew ''cache: miss''"

record 'w client =
  c_Get :: "string \<Rightarrow> ('w, string + goerr) go"
  c_Set :: "string \<Rightarrow> string \<Rightarrow> int \<Rightarrow> ('w, goerr option) go"
  c_Delete :: "string list \<Rightarrow> ('w, goerr option) go"
  c_Ping :: "('w, goerr option) go"
  c_Close :: "('w, goerr option) go"

definition noopClient :: "'w client" where
  "noopClient =
     \<lparr>c_Get = (\<lambda>_. go_return (Inr ErrCacheMiss)), c_Set = (\<lambda>_ _ _. go_return None), c_Delete = (\<lambda>_. go_return None),
      c_Ping = go_return None, c_Close = go_return None\<rparr>"

text \<open>The commands of the Redis library. \<^verbatim>\<open>goredis.Nil\<close> is \<open>None\<close>.\<close>

record 'w rdb =
  rdb_Get :: "string \<Rightarrow> ('w, string option + goerr) go"
  rdb_Set :: "string \<Rightarrow> string \<Rightarrow> int \<Rightarrow> ('w, goerr option) go"
  rdb_Del :: "string list \<Rightarrow> ('w, goerr option) go"
  rdb_Ping :: "('w, goerr option) go"
  rdb_Close :: "('w, goerr option) go"

definition wrap_err :: "string \<Rightarrow> ('w, goerr option) go \<Rightarrow> ('w, goerr option) go" where
  "wrap_err prefix m = go_bind m (\<lambda>err. go_return (map_option (errorf_w prefix) err))"

definition redis_Get :: "'w rdb \<Rightarrow> string \<Rightarrow> ('w, string + goerr) go" where
  "redis_Get rdb key =
     go_bind (rdb_Get rdb key) (\<lambda>r.
       case r of
         Inr err \<Rightarrow> go_return (Inr (errorf_w (''cache: redis get '' @ quote key) err))
       | Inl None \<Rightarrow> go_return (Inr ErrCacheMiss)
       | Inl (Some val) \<Rightarrow> go_return (Inl val))"

definition redis_Delete :: "'w rdb \<Rightarrow> string list \<Rightarrow> ('w, goerr option) go" where
  "redis_Delete rdb keys =
     (if keys = [] then go_return None else wrap_err ''cache: redis delete'' (rdb_Del rdb keys))"

definition redisClient :: "'w rdb \<Rightarrow> 'w client" where
  "redisClient rdb =
     \<lparr>c_Get = redis_Get rdb,
      c_Set = (\<lambda>key value ttl. wrap_err (''cache: redis set '' @ quote key) (rdb_Set rdb key value ttl)),
      c_Delete = redis_Delete rdb,
      c_Ping = wrap_err ''cache: redis ping'' (rdb_Ping rdb),
      c_Close = wrap_err ''cache: redis close'' (rdb_Close rdb)\<rparr>"

definition NewRedisClient :: "'w rdb \<Rightarrow> ('w, 'w client + goerr) go" where
  "NewRedisClient rdb =
     go_bind (rdb_Ping rdb) (\<lambda>ping.
       case ping of
         None \<Rightarrow> go_return (Inl (redisClient rdb))
       | Some err \<Rightarrow>
           go_bind (rdb_Close rdb) (\<lambda>cl.
             case cl of
               Some closeErr \<Rightarrow>
                 go_return (Inr (Errorf [Lit ''cache: redis ping failed ('', Verb_w err,
                   Lit (''); also failed to close client: '' @ err_text closeErr)]))
             | None \<Rightarrow> go_return (Inr (errorf_w ''cache: redis ping'' err))))"

text \<open>Without concurrent callers the group runs the function; its result is never a nil interface when the
  error is nil.\<close>

definition SingleflightCache :: "'w client \<Rightarrow> 'w client" where
  "SingleflightCache inner =
     \<lparr>c_Get = (\<lambda>key. go_bind (c_Get inner key) (\<lambda>r.
        case r of Inr err \<Rightarrow> go_return (Inr err) | Inl v \<Rightarrow> go_return (Inl v))),
      c_Set = c_Set inner, c_Delete = c_Delete inner, c_Ping = c_Ping inner, c_Close = c_Close inner\<rparr>"

record 'w lru =
  lru_Get :: "string \<Rightarrow> 'w \<Rightarrow> string option \<times> 'w"
  lru_Add :: "string \<Rightarrow> string \<Rightarrow> 'w \<Rightarrow> 'w"
  lru_Remove :: "string \<Rightarrow> 'w \<Rightarrow> 'w"
  lru_Purge :: "'w \<Rightarrow> 'w"

definition local_Get :: "'w client \<Rightarrow> 'w lru \<Rightarrow> string \<Rightarrow> ('w, string + goerr) go" where
  "local_Get inner store key w =
     (case lru_Get store key w of
        (Some data, w) \<Rightarrow> (Ret (Inl data), w)
      | (None, w) \<Rightarrow>
          go_bind (c_Get inner key) (\<lambda>r.
            case r of
              Inr err \<Rightarrow> go_return (Inr err)
            | Inl data \<Rightarrow> (\<lambda>w. (Ret (Inl data), lru_Add store key data w))) w)"

definition local_Set :: "'w client \<Rightarrow> 'w lru \<Rightarrow> string \<Rightarrow> string \<Rightarrow> int \<Rightarrow> ('w, goerr option) go" where
  "local_Set inner store key value ttl =
     go_bind (c_Set inner key value ttl) (\<lambda>err.
       case err of
         Some e \<Rightarrow> go_return (Some (errorf_w ''local cache: set'' e))
       | None \<Rightarrow> (\<lambda>w. (Ret None, lru_Add store key value w)))"

definition Invalidate :: "'w lru \<Rightarrow> string list \<Rightarrow> 'w \<Rightarrow> 'w" where
  "Invalidate store keys w = fold (lru_Remove store) keys w"

definition local_Delete :: "'w client \<Rightarrow> 'w lru \<Rightarrow> string list \<Rightarrow> ('w, goerr option) go" where
  "local_Delete inner store keys w = c_Delete inner keys (fold (lru_Remove store) keys w)"

definition LocalCache :: "'w client \<Rightarrow> 'w lru \<Rightarrow> 'w client" where
  "LocalCache inner store =
     \<lparr>c_Get = local_Get inner store, c_Set = local_Set inner store, c_Delete = local_Delete inner store,
      c_Ping = c_Ping inner, c_Close = (\<lambda>w. c_Close inner (lru_Purge store w))\<rparr>"

text \<open>\<^verbatim>\<open>NewClient\<close>; \<open>new_lru\<close> makes an LRU of a size and a time to live.\<close>

definition NewClient ::
  "'w rdb \<Rightarrow> (int \<Rightarrow> int \<Rightarrow> 'w lru) \<Rightarrow> string \<Rightarrow> bool \<times> int \<times> int \<Rightarrow> ('w, 'w client + goerr) go" where
  "NewClient rdb new_lru driver local =
     (let with_local = (\<lambda>client. case local of (enabled, size', ttl) \<Rightarrow>
            if enabled
            then LocalCache client (new_lru (if size' \<le> 0 then 10000 else size') (if ttl \<le> 0 then 10000000000 else ttl))
            else client)
      in if driver = ''redis''
         then go_bind (NewRedisClient rdb) (\<lambda>r.
                case r of
                  Inr err \<Rightarrow> go_return (Inr (errorf_w ''cache: factory'' err))
                | Inl rc \<Rightarrow> go_return (Inl (with_local (SingleflightCache rc))))
         else go_return (Inl (with_local noopClient)))"

section \<open>The JSON adapter\<close>

text \<open>\<open>enc\<close> and \<open>dec\<close> are \<^verbatim>\<open>json.Marshal\<close> and \<^verbatim>\<open>json.Unmarshal\<close> for the type.\<close>

definition json_Get ::
  "'w client \<Rightarrow> string \<Rightarrow> 'r \<Rightarrow> (string \<Rightarrow> 'r option) \<Rightarrow> string \<Rightarrow> ('w, ('r \<times> bool) + goerr) go" where
  "json_Get client prefix zero dec key =
     go_bind (c_Get client (prefix @ key)) (\<lambda>r.
       case r of
         Inr err \<Rightarrow> if errors_Is (Some err) ErrCacheMiss then go_return (Inl (zero, False)) else go_return (Inr err)
       | Inl data \<Rightarrow>
           (case dec data of
              None \<Rightarrow> go_bind (c_Delete client [prefix @ key]) (\<lambda>_. go_return (Inl (zero, False)))
            | Some result \<Rightarrow> go_return (Inl (result, True))))"

definition json_Set ::
  "'w client \<Rightarrow> string \<Rightarrow> ('r \<Rightarrow> string + goerr) \<Rightarrow> string \<Rightarrow> 'r \<Rightarrow> int \<Rightarrow> ('w, goerr option) go" where
  "json_Set client prefix enc key value ttl =
     (case enc value of
        Inr err \<Rightarrow> go_return (Some (errorf_w (''cache: marshal value for key '' @ quote (prefix @ key)) err))
      | Inl data \<Rightarrow> c_Set client (prefix @ key) data ttl)"

definition json_Delete :: "'w client \<Rightarrow> string \<Rightarrow> string list \<Rightarrow> ('w, goerr option) go" where
  "json_Delete client prefix keys = c_Delete client (map (\<lambda>k. prefix @ k) keys)"

section \<open>The contract of a client\<close>

text \<open>
  \<open>may w k\<close> are the values a read of \<open>k\<close> may return in \<open>w\<close>. Reading adds none. A write that succeeds leaves at
  most the new value, one that fails may or may not have taken effect. A deletion that succeeds leaves none.
  Nothing else is promised: a cache may forget at any time. How long it keeps a value is no part of the contract, because
  the clients differ in it: \<^verbatim>\<open>LocalCache.Set\<close> hands the time to live to the inner client and keeps its own copy for the
  time of its LRU cache, longer or shorter than asked.
\<close>

locale cache_client =
  fixes c :: "'w client" and may :: "'w \<Rightarrow> string \<Rightarrow> string set"
  assumes get_hit: "c_Get c k w = (Ret (Inl v), w') \<Longrightarrow> v \<in> may w k"
    and get_sub: "c_Get c k w = (r, w') \<Longrightarrow> may w' k' \<subseteq> may w k'"
    and set_ok: "c_Set c k v ttl w = (Ret None, w') \<Longrightarrow> may w' k \<subseteq> {v}"
    and set_sub: "c_Set c k v ttl w = (r2, w') \<Longrightarrow> may w' k' \<subseteq> may w k' \<union> (if k' = k then {v} else {})"
    and del_ok: "c_Delete c ks w = (Ret None, w') \<Longrightarrow> k \<in> set ks \<Longrightarrow> may w' k = {}"
    and del_sub: "c_Delete c ks w = (r2, w') \<Longrightarrow> may w' k' \<subseteq> may w k'"
begin

lemma json_Get_hit:
  assumes "json_Get c prefix zero dec key w = (Ret (Inl (x, True)), w')"
  shows "\<exists>data \<in> may w (prefix @ key). dec data = Some x"
  using assms
  by (auto simp: json_Get_def go_return_def split: sum.splits option.splits if_splits elim!: go_bind_cases dest!: get_hit)

lemma json_Delete_ok:
  "json_Delete c prefix keys w = (Ret None, w') \<Longrightarrow> key \<in> set keys \<Longrightarrow> may w' (prefix @ key) = {}"
  using del_ok [of "map (\<lambda>k. prefix @ k) keys" w w' "prefix @ key"] by (auto simp: json_Delete_def)

lemma json_Set_ok:
  "json_Set c prefix enc key x ttl w = (Ret None, w') \<Longrightarrow> \<exists>data. enc x = Inl data \<and> may w' (prefix @ key) \<subseteq> {data}"
  using set_ok by (auto simp: json_Set_def go_return_def split: sum.splits)

lemma deleted_key_misses:
  assumes "may w (prefix @ key) = {}" and "json_Get c prefix zero dec key w = (Ret (Inl (x, hit)), w')"
  shows "\<not> hit"
  using json_Get_hit [of prefix zero dec key w x w'] assms by (cases hit) auto

end

interpretation noop: cache_client noopClient "\<lambda>_ _. {}"
  by unfold_locales (auto simp: noopClient_def go_return_def)

text \<open>What the commands of Redis promise.\<close>

definition rdb_ok :: "'w rdb \<Rightarrow> ('w \<Rightarrow> string \<Rightarrow> string set) \<Rightarrow> bool" where
  "rdb_ok rdb may \<longleftrightarrow>
     (\<forall>k w r w'. rdb_Get rdb k w = (r, w') \<longrightarrow>
        (\<forall>v. r = Ret (Inl (Some v)) \<longrightarrow> v \<in> may w k) \<and> (\<forall>k'. may w' k' \<subseteq> may w k'))
     \<and> (\<forall>k v ttl w r w'. rdb_Set rdb k v ttl w = (r, w') \<longrightarrow>
        (r = Ret None \<longrightarrow> may w' k \<subseteq> {v}) \<and> (\<forall>k'. may w' k' \<subseteq> may w k' \<union> (if k' = k then {v} else {})))
     \<and> (\<forall>ks w r w'. rdb_Del rdb ks w = (r, w') \<longrightarrow>
        (r = Ret None \<longrightarrow> (\<forall>k \<in> set ks. may w' k = {})) \<and> (\<forall>k'. may w' k' \<subseteq> may w k'))"

lemma rdb_okD:
  assumes "rdb_ok rdb may"
  shows "rdb_Get rdb k w = (Ret (Inl (Some v)), w') \<Longrightarrow> v \<in> may w k"
    and "rdb_Get rdb k w = (rg, w') \<Longrightarrow> may w' k' \<subseteq> may w k'"
    and "rdb_Set rdb k v ttl w = (Ret None, w') \<Longrightarrow> may w' k \<subseteq> {v}"
    and "rdb_Set rdb k v ttl w = (r, w') \<Longrightarrow> may w' k' \<subseteq> may w k' \<union> (if k' = k then {v} else {})"
    and "rdb_Del rdb ks w = (Ret None, w') \<Longrightarrow> k \<in> set ks \<Longrightarrow> may w' k = {}"
    and "rdb_Del rdb ks w = (r, w') \<Longrightarrow> may w' k' \<subseteq> may w k'"
  using assms unfolding rdb_ok_def by metis+

lemma wrap_err_cases:
  "wrap_err prefix m w = (r, w') \<Longrightarrow> \<exists>r1. m w = (r1, w') \<and> (r = Ret None \<longleftrightarrow> r1 = Ret None)"
  by (auto simp: wrap_err_def go_return_def elim!: go_bind_cases)

lemma redis_client_ok:
  assumes "rdb_ok rdb may"
  shows "cache_client (redisClient rdb) may"
proof
  fix k w r w' k' v ttl ks and r2 :: "goerr option exec"
  have get: "\<exists>r1. rdb_Get rdb k w = (r1, w') \<and> (\<forall>v. r = Ret (Inl v) \<longrightarrow> r1 = Ret (Inl (Some v)))"
    if "c_Get (redisClient rdb) k w = (r, w')" for r :: "(string + goerr) exec"
    using that by (auto simp: redisClient_def redis_Get_def go_return_def elim!: go_bind_cases split: sum.splits option.splits)
  show "v \<in> may w k" if "c_Get (redisClient rdb) k w = (Ret (Inl v), w')"
    using get [OF that] rdb_okD(1) [OF assms] by blast
  show "may w' k' \<subseteq> may w k'" if "c_Get (redisClient rdb) k w = (r, w')"
    using get [OF that] rdb_okD(2) [OF assms] by blast
  have set: "\<exists>r1. rdb_Set rdb k v ttl w = (r1, w') \<and> (r2 = Ret None \<longleftrightarrow> r1 = Ret None)"
    if "c_Set (redisClient rdb) k v ttl w = (r2, w')" for r2
    using that wrap_err_cases by (fastforce simp: redisClient_def)
  show "may w' k \<subseteq> {v}" if "c_Set (redisClient rdb) k v ttl w = (Ret None, w')"
    using set [OF that] rdb_okD(3) [OF assms] by blast
  show "may w' k' \<subseteq> may w k' \<union> (if k' = k then {v} else {})" if "c_Set (redisClient rdb) k v ttl w = (r2, w')"
    using set [OF that] rdb_okD(4) [OF assms] by blast
  have del: "ks = [] \<and> w' = w \<or> (\<exists>r1. rdb_Del rdb ks w = (r1, w') \<and> (r2 = Ret None \<longleftrightarrow> r1 = Ret None))"
    if "c_Delete (redisClient rdb) ks w = (r2, w')" for r2
    using that wrap_err_cases [of _ "rdb_Del rdb ks" w r2 w']
    by (auto simp: redisClient_def redis_Delete_def go_return_def split: if_splits)
  show "may w' k = {}" if "c_Delete (redisClient rdb) ks w = (Ret None, w')" "k \<in> set ks"
    using del [OF that(1)] that(2) rdb_okD(5) [OF assms] by force
  show "may w' k' \<subseteq> may w k'" if "c_Delete (redisClient rdb) ks w = (r2, w')"
    using del [OF that] rdb_okD(6) [OF assms] by blast
qed

lemma singleflight_eq: "c_Get (SingleflightCache inner) k = c_Get inner k"
  by (auto simp: SingleflightCache_def fun_eq_iff go_bind_def go_return_def split: prod.splits exec.splits sum.splits)

lemma singleflight_ok: "cache_client inner may \<Longrightarrow> cache_client (SingleflightCache inner) may"
  unfolding cache_client_def singleflight_eq by (simp add: SingleflightCache_def)

text \<open>What the LRU promises, and that it and the client behind it do not share state: \<open>content\<close> are the values
  the LRU may return.\<close>

definition lru_ok ::
  "'w lru \<Rightarrow> 'w client \<Rightarrow> ('w \<Rightarrow> string \<Rightarrow> string set) \<Rightarrow> ('w \<Rightarrow> string \<Rightarrow> string set) \<Rightarrow> bool" where
  "lru_ok store inner may content \<longleftrightarrow>
     (\<forall>k w r w'. lru_Get store k w = (r, w') \<longrightarrow>
        (\<forall>v. r = Some v \<longrightarrow> v \<in> content w k) \<and> (\<forall>k'. content w' k' \<subseteq> content w k') \<and> may w' = may w)
     \<and> (\<forall>k v w k'. content (lru_Add store k v w) k' \<subseteq> (if k' = k then {v} else content w k') \<and> may (lru_Add store k v w) = may w)
     \<and> (\<forall>k w k'. content (lru_Remove store k w) k' \<subseteq> (if k' = k then {} else content w k') \<and> may (lru_Remove store k w) = may w)
     \<and> (\<forall>k w. content (snd (c_Get inner k w)) = content w)
     \<and> (\<forall>k v ttl w. content (snd (c_Set inner k v ttl w)) = content w)
     \<and> (\<forall>ks w. content (snd (c_Delete inner ks w)) = content w)"

lemma lru_okD:
  assumes "lru_ok store inner may content"
  shows "lru_Get store k w = (Some v, w') \<Longrightarrow> v \<in> content w k"
    and "lru_Get store k w = (r, w') \<Longrightarrow> content w' k' \<subseteq> content w k' \<and> may w' = may w"
    and "content (lru_Add store k v w) k' \<subseteq> (if k' = k then {v} else content w k')" and "may (lru_Add store k v w) = may w"
    and "content (lru_Remove store k w) k' \<subseteq> (if k' = k then {} else content w k')" and "may (lru_Remove store k w) = may w"
    and "c_Get inner k w = (rg, w') \<Longrightarrow> content w' = content w"
    and "c_Set inner k v ttl w = (rs, w') \<Longrightarrow> content w' = content w"
    and "c_Delete inner ks w = (rs, w') \<Longrightarrow> content w' = content w"
  using assms unfolding lru_ok_def by (metis snd_conv)+

lemma lru_removes:
  assumes "lru_ok store inner may content"
  shows "may (fold (lru_Remove store) ks w) = may w"
    and "content (fold (lru_Remove store) ks w) k \<subseteq> (if k \<in> set ks then {} else content w k)"
proof (induction ks arbitrary: w)
  case (Cons a ks)
  note r = lru_okD(5,6) [OF assms]
  { case 1 show ?case using Cons(1) r by simp }
  { case 2 show ?case using Cons(2) [of "lru_Remove store a w"] r(1) [of a w k] by (auto split: if_splits) }
qed simp_all

lemma local_Get_contract:
  assumes "cache_client inner may" and "lru_ok store inner may content" and g: "local_Get inner store k w = (r, w')"
  shows "(\<forall>v. r = Ret (Inl v) \<longrightarrow> v \<in> content w k \<union> may w k) \<and> content w' k' \<union> may w' k' \<subseteq> content w k' \<union> may w k'"
proof -
  note lru = lru_okD [OF assms(2)]
  obtain lo w1 where l: "lru_Get store k w = (lo, w1)" by fastforce
  have l1: "content w1 k'' \<subseteq> content w k''" "may w1 = may w" for k'' using lru(2) [OF l] by auto
  show ?thesis
  proof (cases lo)
    case (Some d)
    with g l l1 lru(1) show ?thesis by (auto simp: local_Get_def)
  next
    case None
    obtain r1 w2 where i: "c_Get inner k w1 = (r1, w2)" by fastforce
    have i1: "may w2 k' \<subseteq> may w1 k'" "content w2 = content w1"
      using cache_client.get_sub [OF assms(1) i] lru(7) [OF i] by auto
    show ?thesis
    proof (cases "\<exists>d. r1 = Ret (Inl d)")
      case True
      then obtain d where d: "r1 = Ret (Inl d)" by blast
      have "d \<in> may w k" using cache_client.get_hit [OF assms(1)] i d l1(2) by metis
      moreover have "r = Ret (Inl d)" "w' = lru_Add store k d w2"
        using g l None i d by (simp_all add: local_Get_def go_bind_def)
      ultimately show ?thesis using lru(3) [of k d w2 k'] lru(4) [of k d w2] i1 l1 by (auto split: if_splits)
    next
      case False
      then have "w' = w2" "\<nexists>v. r = Ret (Inl v)"
        using g l None i
        by (auto simp: local_Get_def go_bind_def go_return_def split: exec.splits sum.splits)
      with i1 l1(1) [of k'] l1(2) show ?thesis by auto
    qed
  qed
qed

lemma local_Set_contract:
  assumes "cache_client inner may" and "lru_ok store inner may content" and g: "local_Set inner store k v ttl w = (r2, w')"
  shows "(r2 = Ret None \<longrightarrow> content w' k \<union> may w' k \<subseteq> {v})
      \<and> content w' k' \<union> may w' k' \<subseteq> content w k' \<union> may w k' \<union> (if k' = k then {v} else {})"
proof -
  note lru = lru_okD [OF assms(2)]
  obtain r1 w1 where i: "c_Set inner k v ttl w = (r1, w1)" by fastforce
  note i1 = cache_client.set_sub [OF assms(1) i, of k'] lru(8) [OF i]
  show ?thesis
  proof (cases "r1 = Ret None")
    case True
    have "may w1 k \<subseteq> {v}" using cache_client.set_ok [OF assms(1)] i True by metis
    moreover have "w' = lru_Add store k v w1" using g i True by (simp add: local_Set_def go_bind_def)
    ultimately show ?thesis
      using i1 lru(3) [of k v w1 k] lru(3) [of k v w1 k'] lru(4) [of k v w1] by (auto split: if_splits)
  next
    case False
    then have "w' = w1" "r2 \<noteq> Ret None"
      using g i by (auto simp: local_Set_def go_bind_def go_return_def split: exec.splits option.splits)
    with i1 show ?thesis by auto
  qed
qed

lemma local_Delete_contract:
  assumes "cache_client inner may" and "lru_ok store inner may content" and g: "local_Delete inner store ks w = (r2, w')"
  shows "(r2 = Ret None \<longrightarrow> k \<in> set ks \<longrightarrow> content w' k \<union> may w' k = {})
      \<and> content w' k' \<union> may w' k' \<subseteq> content w k' \<union> may w k'"
proof -
  have d: "c_Delete inner ks (fold (lru_Remove store) ks w) = (r2, w')" using g by (simp add: local_Delete_def)
  note rem = lru_removes [OF assms(2)]
  have "may w' k = {}" if "r2 = Ret None" "k \<in> set ks" using cache_client.del_ok [OF assms(1) _ that(2)] d that(1) by metis
  moreover have "may w' k' \<subseteq> may w k'" using cache_client.del_sub [OF assms(1) d, of k'] rem(1) [of ks w] by simp
  ultimately show ?thesis using lru_okD(9) [OF assms(2) d] rem(2) [of ks w k] rem(2) [of ks w k'] by (auto split: if_splits)
qed

text \<open>C17: The local cache keeps the contract of the client behind it: what a read may return is what the local
  copy or the client behind it may return, so a write that succeeded is not followed by a read of an older value,
  and a deletion that succeeded is followed by a miss, in the local copy as well.\<close>

theorem local_cache_keeps_contract:
  assumes "cache_client inner may" and "lru_ok store inner may content"
  shows "cache_client (LocalCache inner store) (\<lambda>w k. content w k \<union> may w k)"
proof
  fix k w w' k' v ttl ks and r :: "(string + goerr) exec" and r2 :: "goerr option exec"
  have sel: "c_Get (LocalCache inner store) = local_Get inner store" "c_Set (LocalCache inner store) = local_Set inner store"
    "c_Delete (LocalCache inner store) = local_Delete inner store" by (simp_all add: LocalCache_def)
  show "v \<in> content w k \<union> may w k" if "c_Get (LocalCache inner store) k w = (Ret (Inl v), w')"
    using local_Get_contract [OF assms that [unfolded sel]] by blast
  show "content w' k' \<union> may w' k' \<subseteq> content w k' \<union> may w k'" if "c_Get (LocalCache inner store) k w = (r, w')"
    using local_Get_contract [OF assms that [unfolded sel], of k'] by (rule conjunct2)
  show "content w' k \<union> may w' k \<subseteq> {v}" if "c_Set (LocalCache inner store) k v ttl w = (Ret None, w')"
    using local_Set_contract [OF assms that [unfolded sel]] by simp
  show "content w' k' \<union> may w' k' \<subseteq> content w k' \<union> may w k' \<union> (if k' = k then {v} else {})"
    if "c_Set (LocalCache inner store) k v ttl w = (r2, w')"
    using local_Set_contract [OF assms that [unfolded sel], of k'] by (rule conjunct2)
  show "content w' k \<union> may w' k = {}" if "c_Delete (LocalCache inner store) ks w = (Ret None, w')" "k \<in> set ks"
    using local_Delete_contract [OF assms that(1) [unfolded sel], of k] that(2) by simp
  show "content w' k' \<union> may w' k' \<subseteq> content w k' \<union> may w k'" if "c_Delete (LocalCache inner store) ks w = (r2, w')"
    using local_Delete_contract [OF assms that [unfolded sel], of _ k'] by (rule conjunct2)
qed

section \<open>Witness\<close>

text \<open>A local map in front of a server that is a map.\<close>

definition sample_rdb :: "((string \<rightharpoonup> string) \<times> (string \<rightharpoonup> string)) rdb" where
  "sample_rdb =
     \<lparr>rdb_Get = (\<lambda>k w. (Ret (Inl (snd w k)), w)), rdb_Set = (\<lambda>k v ttl w. (Ret None, (fst w, (snd w)(k \<mapsto> v)))),
      rdb_Del = (\<lambda>ks w. (Ret None, (fst w, snd w |` (- set ks)))), rdb_Ping = go_return None, rdb_Close = go_return None\<rparr>"

definition sample_lru :: "((string \<rightharpoonup> string) \<times> (string \<rightharpoonup> string)) lru" where
  "sample_lru =
     \<lparr>lru_Get = (\<lambda>k w. (fst w k, w)), lru_Add = (\<lambda>k v w. ((fst w)(k \<mapsto> v), snd w)),
      lru_Remove = (\<lambda>k w. ((fst w)(k := None), snd w)), lru_Purge = (\<lambda>w. (Map.empty, snd w))\<rparr>"

definition sample_inner :: "((string \<rightharpoonup> string) \<times> (string \<rightharpoonup> string)) client" where
  "sample_inner = SingleflightCache (redisClient sample_rdb)"

lemma sample_inner_ok: "cache_client sample_inner (\<lambda>w k. set_option (snd w k))"
  unfolding sample_inner_def
  by (intro singleflight_ok redis_client_ok) (auto simp: rdb_ok_def sample_rdb_def restrict_map_def)

lemma sample_lru_ok: "lru_ok sample_lru sample_inner (\<lambda>w k. set_option (snd w k)) (\<lambda>w k. set_option (fst w k))"
  by (auto simp: lru_ok_def sample_lru_def sample_inner_def singleflight_eq SingleflightCache_def redisClient_def redis_Get_def
      redis_Delete_def wrap_err_def sample_rdb_def go_bind_def go_return_def fun_eq_iff split: option.splits)

theorem local_cache_keeps_contract_witness:
  "cache_client (LocalCache sample_inner sample_lru) (\<lambda>w k. set_option (fst w k) \<union> set_option (snd w k))"
  using local_cache_keeps_contract [OF sample_inner_ok sample_lru_ok] .

end
