(* ===== verification/Wolf_CQRS.thy ===== *)
theory Wolf_CQRS
  imports Wolf_Chain Wolf_Cache
begin

text \<open>
  Command and query handlers with their middlewares (\<^verbatim>\<open>src/cqrs\<close>), and the decorators for plain functions
  (\<^verbatim>\<open>src/infra/decorator\<close>). What the code reports to the tracing,
  metrics and logging libraries is a log in the world; durations are left out. A cache is a record of its
  operations. The context is of any type \<open>'x\<close>; \<open>spanned\<close> is what starting a span makes of it.
\<close>

section \<open>Handlers\<close>

datatype observation =
    SpanStart string string
  | SpanError string
  | SpanEnd
  | Logged string string "string list" "goerr option"
  | Observed string string
  | Counted string string
  | CacheHit string
  | CacheMiss string
  | Warned string string goerr

record cq_world =
  obs :: "observation list"

type_synonym ('x, 'c, 'r, 'm) cq_handler = "'x \<Rightarrow> 'c \<Rightarrow> ('m cq_world_scheme, 'r \<times> goerr option) go"

type_synonym ('x, 'c, 'r, 'm) cq_middleware = "('x, 'c, 'r, 'm) cq_handler \<Rightarrow> ('x, 'c, 'r, 'm) cq_handler"

definition observe :: "observation \<Rightarrow> ('m cq_world_scheme, unit) go" where
  "observe ob w = (Ret (), w\<lparr>obs := obs w @ [ob]\<rparr>)"

definition AsVoidCommand :: "('x \<Rightarrow> 'c \<Rightarrow> ('m cq_world_scheme, goerr option) go) \<Rightarrow> ('x, 'c, unit, 'm) cq_handler" where
  "AsVoidCommand fn ctx cmd = go_bind (fn ctx cmd) (\<lambda>err. go_return ((), err))"

text \<open>The loops go over the middlewares from the last to the first.\<close>

definition ChainCommand ::
  "('x, 'c, 'r, 'm) cq_handler \<Rightarrow> ('x, 'c, 'r, 'm) cq_middleware list \<Rightarrow> ('x, 'c, 'r, 'm) cq_handler" where
  "ChainCommand handler mws = fold (\<lambda>mw h. mw h) (rev mws) handler"

definition ChainQuery ::
  "('x, 'c, 'r, 'm) cq_handler \<Rightarrow> ('x, 'c, 'r, 'm) cq_middleware list \<Rightarrow> ('x, 'c, 'r, 'm) cq_handler" where
  "ChainQuery handler mws = fold (\<lambda>mw h. mw h) (rev mws) handler"

interpretation command_chain: chain_builder "\<lambda>mws h. ChainCommand h mws" "\<lambda>mw h. mw h"
  by unfold_locales (simp_all add: ChainCommand_def)

interpretation query_chain: chain_builder "\<lambda>mws h. ChainQuery h mws" "\<lambda>mw h. mw h"
  by unfold_locales (simp_all add: ChainQuery_def)

section \<open>Middlewares\<close>

text \<open>\<^verbatim>\<open>defer span.End()\<close>: also after a panic.\<close>

definition defer_observe :: "observation \<Rightarrow> ('m cq_world_scheme, 'a) go \<Rightarrow> ('m cq_world_scheme, 'a) go" where
  "defer_observe ob m w = (case m w of (r, w') \<Rightarrow> (r, w'\<lparr>obs := obs w' @ [ob]\<rparr>))"

definition with_tracing :: "string \<Rightarrow> ('x \<Rightarrow> string \<Rightarrow> 'x) \<Rightarrow> string \<Rightarrow> ('x, 'c, 'r, 'm) cq_middleware" where
  "with_tracing kind spanned name next ctx cmd =
     go_bind (observe (SpanStart kind (kind @ ''/'' @ name))) (\<lambda>_.
       defer_observe SpanEnd
         (go_bind (next (spanned ctx (kind @ ''/'' @ name)) cmd) (\<lambda>(result, err).
            case err of
              Some e \<Rightarrow> go_bind (observe (SpanError (err_text e))) (\<lambda>_. go_return (result, Some e))
            | None \<Rightarrow> go_return (result, None))))"

definition WithCommandTracing :: "('x \<Rightarrow> string \<Rightarrow> 'x) \<Rightarrow> string \<Rightarrow> ('x, 'c, 'r, 'm) cq_middleware" where
  "WithCommandTracing = with_tracing ''command''"

definition WithQueryTracing :: "('x \<Rightarrow> string \<Rightarrow> 'x) \<Rightarrow> string \<Rightarrow> ('x, 'c, 'r, 'm) cq_middleware" where
  "WithQueryTracing = with_tracing ''query''"

text \<open>The functions that take fields from the context; a nil function panics when it is called.\<close>

fun ctx_fields :: "('x \<Rightarrow> string list) option list \<Rightarrow> 'x \<Rightarrow> string list \<Rightarrow> ('m cq_world_scheme, string list) go" where
  "ctx_fields [] ctx acc = go_return acc"
| "ctx_fields (None # fns) ctx acc = go_panic ''invalid memory address or nil pointer dereference''"
| "ctx_fields (Some fn # fns) ctx acc = ctx_fields fns ctx (acc @ fn ctx)"

definition with_logging :: "string \<Rightarrow> string \<Rightarrow> ('x \<Rightarrow> string list) option list \<Rightarrow> ('x, 'c, 'r, 'm) cq_middleware" where
  "with_logging kind name fns next ctx cmd =
     go_bind (next ctx cmd) (\<lambda>(result, err).
       go_bind (ctx_fields fns ctx []) (\<lambda>fs.
         go_bind (observe (Logged (kind @ '' handled'') name fs err)) (\<lambda>_. go_return (result, err))))"

definition WithCommandLogging :: "string \<Rightarrow> ('x \<Rightarrow> string list) option list \<Rightarrow> ('x, 'c, 'r, 'm) cq_middleware" where
  "WithCommandLogging = with_logging ''command''"

definition WithQueryLogging :: "string \<Rightarrow> ('x \<Rightarrow> string list) option list \<Rightarrow> ('x, 'c, 'r, 'm) cq_middleware" where
  "WithQueryLogging = with_logging ''query''"

text \<open>\<open>zero\<close> is the zero value of the result type.\<close>

definition WithCommandValidation :: "'r \<Rightarrow> ('c \<Rightarrow> goerr option) \<Rightarrow> ('x, 'c, 'r, 'm) cq_middleware" where
  "WithCommandValidation zero validateFn next ctx cmd =
     (case validateFn cmd of Some err \<Rightarrow> go_return (zero, Some err) | None \<Rightarrow> next ctx cmd)"

definition WithQueryValidation :: "'r \<Rightarrow> ('c \<Rightarrow> goerr option) \<Rightarrow> ('x, 'c, 'r, 'm) cq_middleware" where
  "WithQueryValidation zero validateFn next ctx q =
     (case validateFn q of Some err \<Rightarrow> go_return (zero, Some err) | None \<Rightarrow> next ctx q)"

definition with_metrics :: "string \<Rightarrow> ('x, 'c, 'r, 'm) cq_middleware" where
  "with_metrics name next ctx cmd =
     go_bind (next ctx cmd) (\<lambda>(result, err).
       let status = (if err \<noteq> None then ''error'' else ''success'') in
       go_bind (observe (Observed name status)) (\<lambda>_.
         go_bind (observe (Counted name status)) (\<lambda>_. go_return (result, err))))"

definition WithCommandMetrics :: "string \<Rightarrow> ('x, 'c, 'r, 'm) cq_middleware" where
  "WithCommandMetrics = with_metrics"

definition WithQueryMetrics :: "string \<Rightarrow> ('x, 'c, 'r, 'm) cq_middleware" where
  "WithQueryMetrics = with_metrics"

record ('x, 'r, 'm) cache_getter =
  cg_Get :: "'x \<Rightarrow> string \<Rightarrow> ('m cq_world_scheme, ('r \<times> bool) + goerr) go"
  cg_Set :: "'x \<Rightarrow> string \<Rightarrow> 'r \<Rightarrow> int \<Rightarrow> ('m cq_world_scheme, goerr option) go"

type_synonym ('x, 'm) cache_invalidator = "'x \<Rightarrow> string list \<Rightarrow> ('m cq_world_scheme, goerr option) go"

definition WithCommandCacheInvalidation ::
  "('x, 'm) cache_invalidator \<Rightarrow> ('c \<Rightarrow> string) \<Rightarrow> ('x, 'c, 'r, 'm) cq_middleware" where
  "WithCommandCacheInvalidation cache_Delete keyFn next ctx cmd =
     go_bind (next ctx cmd) (\<lambda>(result, err).
       case err of
         Some e \<Rightarrow> go_return (result, Some e)
       | None \<Rightarrow>
           let key = keyFn cmd in
           go_bind (cache_Delete ctx [key]) (\<lambda>delErr.
             case delErr of
               Some e \<Rightarrow> go_bind (observe (Warned ''cache invalidation error'' key e)) (\<lambda>_. go_return (result, None))
             | None \<Rightarrow> go_return (result, None)))"

text \<open>What follows a miss or a failed lookup: the handler, and the result is stored unless it failed.\<close>

definition fill_cache ::
  "('x, 'r, 'm) cache_getter \<Rightarrow> string \<Rightarrow> int \<Rightarrow> ('x, 'c, 'r, 'm) cq_handler \<Rightarrow> ('x, 'c, 'r, 'm) cq_handler" where
  "fill_cache cache key ttl next ctx q =
     go_bind (next ctx q) (\<lambda>(result, err).
       case err of
         Some e \<Rightarrow> go_return (result, Some e)
       | None \<Rightarrow>
           go_bind (cg_Set cache ctx key result ttl) (\<lambda>setErr.
             case setErr of
               Some e \<Rightarrow> go_bind (observe (Warned ''cache set error'' key e)) (\<lambda>_. go_return (result, None))
             | None \<Rightarrow> go_return (result, None)))"

definition WithQueryCaching ::
  "('x, 'r, 'm) cache_getter \<Rightarrow> ('c \<Rightarrow> string) \<Rightarrow> int \<Rightarrow> ('x, 'c, 'r, 'm) cq_middleware" where
  "WithQueryCaching cache keyFn ttl next ctx q =
     (let key = keyFn q in
      go_bind (cg_Get cache ctx key) (\<lambda>r.
        case r of
          Inr e \<Rightarrow> go_bind (observe (Warned ''cache get error'' key e)) (\<lambda>_. fill_cache cache key ttl next ctx q)
        | Inl (cached, hit) \<Rightarrow>
            if hit then go_return (cached, None) else fill_cache cache key ttl next ctx q))"

section \<open>The standard chains\<close>

record ('x, 'c) chain_deps =
  cd_CtxFields :: "('x \<Rightarrow> string list) option"
  cd_Validate :: "'c \<Rightarrow> goerr option"
  cd_cache_metrics :: bool

definition StandardCommandChain ::
  "'r \<Rightarrow> ('x \<Rightarrow> string \<Rightarrow> 'x) \<Rightarrow> ('x, 'c, 'r, 'm) cq_handler \<Rightarrow> string \<Rightarrow> ('x, 'c) chain_deps \<Rightarrow> ('x, 'c, 'r, 'm) cq_handler" where
  "StandardCommandChain zero spanned handler name deps =
     ChainCommand handler
       [WithCommandTracing spanned name, WithCommandValidation zero (cd_Validate deps),
        WithCommandLogging name [cd_CtxFields deps], WithCommandMetrics name]"

definition StandardCommandChainWithInvalidation ::
  "'r \<Rightarrow> ('x \<Rightarrow> string \<Rightarrow> 'x) \<Rightarrow> ('x, 'c, 'r, 'm) cq_handler \<Rightarrow> string \<Rightarrow> ('x, 'm) cache_invalidator \<Rightarrow>
   ('c \<Rightarrow> string) \<Rightarrow> ('x, 'c) chain_deps \<Rightarrow> ('x, 'c, 'r, 'm) cq_handler" where
  "StandardCommandChainWithInvalidation zero spanned handler name cache keyFn deps =
     ChainCommand handler
       [WithCommandTracing spanned name, WithCommandCacheInvalidation cache keyFn,
        WithCommandValidation zero (cd_Validate deps),
        WithCommandLogging name [cd_CtxFields deps], WithCommandMetrics name]"

definition StandardQueryChain ::
  "'r \<Rightarrow> ('x \<Rightarrow> string \<Rightarrow> 'x) \<Rightarrow> ('x, 'c, 'r, 'm) cq_handler \<Rightarrow> string \<Rightarrow> ('x, 'c) chain_deps \<Rightarrow> ('x, 'c, 'r, 'm) cq_handler" where
  "StandardQueryChain zero spanned handler name deps =
     ChainQuery handler
       [WithQueryTracing spanned name, WithQueryValidation zero (cd_Validate deps),
        WithQueryLogging name [cd_CtxFields deps], WithQueryMetrics name]"

definition metricsCacheGetter :: "string \<Rightarrow> ('x, 'r, 'm) cache_getter \<Rightarrow> ('x, 'r, 'm) cache_getter" where
  "metricsCacheGetter name inner =
     \<lparr>cg_Get = (\<lambda>ctx key. go_bind (cg_Get inner ctx key) (\<lambda>r.
        case r of
          Inl (val, hit) \<Rightarrow> go_bind (observe (if hit then CacheHit name else CacheMiss name)) (\<lambda>_. go_return r)
        | Inr e \<Rightarrow> go_return r)),
      cg_Set = cg_Set inner\<rparr>"

definition StandardQueryChainWithCaching ::
  "'r \<Rightarrow> ('x \<Rightarrow> string \<Rightarrow> 'x) \<Rightarrow> ('x, 'c, 'r, 'm) cq_handler \<Rightarrow> string \<Rightarrow> ('x, 'r, 'm) cache_getter \<Rightarrow>
   ('c \<Rightarrow> string) \<Rightarrow> int \<Rightarrow> ('x, 'c) chain_deps \<Rightarrow> ('x, 'c, 'r, 'm) cq_handler" where
  "StandardQueryChainWithCaching zero spanned handler name cache keyFn ttl deps =
     (let c = (if cd_cache_metrics deps then metricsCacheGetter name cache else cache)
      in ChainQuery handler
           [WithQueryTracing spanned name, WithQueryCaching c keyFn ttl, WithQueryValidation zero (cd_Validate deps),
            WithQueryLogging name [cd_CtxFields deps], WithQueryMetrics name])"

section \<open>Decorators\<close>

definition decorator_Chain ::
  "('x, 'c, 'r, 'm) cq_handler \<Rightarrow> ('x, 'c, 'r, 'm) cq_middleware list \<Rightarrow> ('x, 'c, 'r, 'm) cq_handler" where
  "decorator_Chain fn mws = fold (\<lambda>mw f. mw f) (rev mws) fn"

interpretation decorator_chain: chain_builder "\<lambda>mws f. decorator_Chain f mws" "\<lambda>mw f. mw f"
  by unfold_locales (simp_all add: decorator_Chain_def)

definition WithLogging :: "string \<Rightarrow> ('x, 'c, 'r, 'm) cq_middleware" where
  "WithLogging operation next ctx x =
     go_bind (next ctx x) (\<lambda>(result, err).
       go_bind (observe (Logged (if err \<noteq> None then ''operation failed'' else ''operation succeeded'') operation [] err)) (\<lambda>_.
         go_return (result, err)))"

definition WithMetrics :: "string \<Rightarrow> ('x, 'c, 'r, 'm) cq_middleware" where
  "WithMetrics = with_metrics"

text \<open>What \<^verbatim>\<open>WithCache\<close> does without a cached value.\<close>

abbreviation with_cache_miss ::
  "'m cq_world_scheme client \<Rightarrow> ('r \<Rightarrow> string + goerr) \<Rightarrow> string \<Rightarrow> int \<Rightarrow> ('x, 'c, 'r, 'm) cq_middleware" where
  "with_cache_miss client enc key ttl next ctx x \<equiv>
     go_bind (next ctx x) (\<lambda>(result, err).
       case err of
         Some e \<Rightarrow> go_return (result, Some e)
       | None \<Rightarrow>
           (case enc result of
              Inr e \<Rightarrow> go_bind (observe (Warned ''cache marshal error'' key e)) (\<lambda>_. go_return (result, None))
            | Inl raw \<Rightarrow>
                go_bind (c_Set client key raw ttl) (\<lambda>setErr.
                  case setErr of
                    Some e \<Rightarrow> go_bind (observe (Warned ''cache set error'' key e)) (\<lambda>_. go_return (result, None))
                  | None \<Rightarrow> go_return (result, None))))"

definition WithCache ::
  "'m cq_world_scheme client \<Rightarrow> ('r \<Rightarrow> string + goerr) \<Rightarrow> (string \<Rightarrow> 'r option) \<Rightarrow> ('c \<Rightarrow> string) \<Rightarrow> int \<Rightarrow>
   ('x, 'c, 'r, 'm) cq_middleware" where
  "WithCache client enc dec keyFn ttl next ctx x =
     (let key = keyFn x in
      go_bind (c_Get client key) (\<lambda>r.
        case r of
          Inl raw \<Rightarrow> (case dec raw of
             Some cached \<Rightarrow> go_return (cached, None)
           | None \<Rightarrow> with_cache_miss client enc key ttl next ctx x)
        | Inr e \<Rightarrow>
            if errors_Is (Some e) ErrCacheMiss then with_cache_miss client enc key ttl next ctx x
            else go_bind (observe (Warned ''cache get error'' key e)) (\<lambda>_. with_cache_miss client enc key ttl next ctx x)))"

section \<open>What the standard chains do\<close>

lemmas go_simps = go_bind_def go_return_def observe_def

lemma logged_and_counted:
  "with_logging kind name [Some f] (with_metrics name h) ctx cmd w =
     (case h ctx cmd w of
        (Panic p, w1) \<Rightarrow> (Panic p, w1)
      | (Ret (r, e), w1) \<Rightarrow>
          let status = (if e \<noteq> None then ''error'' else ''success'') in
          (Ret (r, e), w1\<lparr>obs := obs w1 @ [Observed name status, Counted name status, Logged (kind @ '' handled'') name (f ctx) e]\<rparr>))"
  by (auto simp: with_logging_def with_metrics_def go_simps Let_def split: prod.splits exec.splits)

text \<open>A command through the standard chain with invalidation: an invalid command reaches neither the handler
  nor the cache and is answered with the validation error; a valid one runs the handler exactly once and is
  answered with the handler's own result and error; the cached key is deleted exactly if the handler succeeded,
  and a failed deletion changes nothing in the answer. The span ends on every path, also after a panic.\<close>

lemma command_chain_behaviour:
  assumes "cd_CtxFields deps = Some f"
  shows "StandardCommandChainWithInvalidation zero spanned h name del keyFn deps ctx cmd w =
     (let ctx' = spanned ctx (''command/'' @ name); w0 = w\<lparr>obs := obs w @ [SpanStart ''command'' (''command/'' @ name)]\<rparr> in
      case cd_Validate deps cmd of
        Some e \<Rightarrow> (Ret (zero, Some e), w0\<lparr>obs := obs w0 @ [SpanError (err_text e), SpanEnd]\<rparr>)
      | None \<Rightarrow>
          (case h ctx' cmd w0 of
             (Panic p, w1) \<Rightarrow> (Panic p, w1\<lparr>obs := obs w1 @ [SpanEnd]\<rparr>)
           | (Ret (r, Some e), w1) \<Rightarrow>
               (Ret (r, Some e), w1\<lparr>obs := obs w1 @ [Observed name ''error'', Counted name ''error'',
                  Logged ''command handled'' name (f ctx') (Some e), SpanError (err_text e), SpanEnd]\<rparr>)
           | (Ret (r, None), w1) \<Rightarrow>
               (case del ctx' [keyFn cmd] (w1\<lparr>obs := obs w1 @ [Observed name ''success'', Counted name ''success'',
                  Logged ''command handled'' name (f ctx') None]\<rparr>) of
                  (Panic p, w2) \<Rightarrow> (Panic p, w2\<lparr>obs := obs w2 @ [SpanEnd]\<rparr>)
                | (Ret None, w2) \<Rightarrow> (Ret (r, None), w2\<lparr>obs := obs w2 @ [SpanEnd]\<rparr>)
                | (Ret (Some e), w2) \<Rightarrow>
                    (Ret (r, None), w2\<lparr>obs := obs w2 @ [Warned ''cache invalidation error'' (keyFn cmd) e, SpanEnd]\<rparr>))))"
proof -
  have "StandardCommandChainWithInvalidation zero spanned h name del keyFn deps =
      with_tracing ''command'' spanned name (WithCommandCacheInvalidation del keyFn
        (WithCommandValidation zero (cd_Validate deps) (with_logging ''command'' name [Some f] (with_metrics name h))))"
    by (simp add: StandardCommandChainWithInvalidation_def command_chain.build_Cons command_chain.build_Nil
        WithCommandTracing_def WithCommandLogging_def WithCommandMetrics_def assms)
  then show ?thesis
    by (auto simp: with_tracing_def WithCommandCacheInvalidation_def WithCommandValidation_def defer_observe_def
        logged_and_counted go_simps Let_def split: option.splits prod.splits exec.splits)
qed

section \<open>A query after a command\<close>

definition json_adapter ::
  "'m cq_world_scheme client \<Rightarrow> string \<Rightarrow> 'r \<Rightarrow> ('r \<Rightarrow> string + goerr) \<Rightarrow> (string \<Rightarrow> 'r option) \<Rightarrow> ('x, 'r, 'm) cache_getter" where
  "json_adapter c prefix zero enc dec =
     \<lparr>cg_Get = (\<lambda>ctx. json_Get c prefix zero dec), cg_Set = (\<lambda>ctx. json_Set c prefix enc)\<rparr>"

text \<open>
  Reporting does not touch the cache. \<open>data\<close> is what the handlers work on, say a database: neither the cache nor the
  reporting changes it.
\<close>

definition obs_frame :: "('m cq_world_scheme \<Rightarrow> string \<Rightarrow> string set) \<Rightarrow> bool" where
  "obs_frame may \<longleftrightarrow> (\<forall>w xs. may (w\<lparr>obs := xs\<rparr>) = may w)"

definition data_frame :: "'m cq_world_scheme client \<Rightarrow> ('m cq_world_scheme \<Rightarrow> 'd) \<Rightarrow> bool" where
  "data_frame c data \<longleftrightarrow>
     (\<forall>w xs. data (w\<lparr>obs := xs\<rparr>) = data w) \<and> (\<forall>k w. data (snd (c_Get c k w)) = data w)
     \<and> (\<forall>k v ttl w. data (snd (c_Set c k v ttl w)) = data w) \<and> (\<forall>ks w. data (snd (c_Delete c ks w)) = data w)"

lemma data_frameD:
  assumes "data_frame c data"
  shows "data (w\<lparr>obs := xs\<rparr>) = data w" and "c_Get c k w = (rg, w') \<Longrightarrow> data w' = data w"
    and "c_Delete c ks w = (r, w') \<Longrightarrow> data w' = data w"
  using assms unfolding data_frame_def by (metis snd_conv)+

lemma fill_cache_answer:
  "fill_cache cache key ttl h ctx q w = (Ret (res, err), w') \<Longrightarrow> \<exists>w1. h ctx q w = (Ret (res, err), w1)"
  by (auto simp: fill_cache_def go_simps split: prod.splits exec.splits option.splits)

lemma metered_get:
  "cg_Get (if b then metricsCacheGetter name g else g) ctx key w = (Ret r, w') \<Longrightarrow>
   \<exists>w1. cg_Get g ctx key w = (Ret r, w1) \<and> (w' = w1 \<or> (\<exists>xs. w' = w1\<lparr>obs := xs\<rparr>))"
  by (auto simp: metricsCacheGetter_def go_simps split: if_splits prod.splits exec.splits sum.splits)

lemma json_Get_data:
  assumes "data_frame c data" and "json_Get c prefix zero dec key w = (r, w')"
  shows "data w' = data w"
  using assms(2)
  by (auto simp: json_Get_def go_bind_def split: prod.splits exec.splits sum.splits option.splits if_splits
      dest!: data_frameD(2) [OF assms(1)] data_frameD(3) [OF assms(1)])

lemma cached_query_miss:
  assumes "\<And>x w1. cg_Get cache ctx (keyFn q) w \<noteq> (Ret (Inl (x, True)), w1)"
    and get: "\<And>r w1. cg_Get cache ctx (keyFn q) w = (Ret r, w1) \<Longrightarrow> data w1 = data w"
    and obs: "\<And>w xs. data (w\<lparr>obs := xs\<rparr>) = data w"
    and "WithQueryCaching cache keyFn ttl h ctx q w = (Ret (res, err), w')"
  shows "\<exists>u u'. h ctx q u = (Ret (res, err), u') \<and> data u = data w"
proof -
  from assms(4) obtain r w1 where g: "cg_Get cache ctx (keyFn q) w = (Ret r, w1)"
    by (auto simp: WithQueryCaching_def Let_def elim: go_bind_cases)
  have "\<exists>u. data u = data w \<and> fill_cache cache (keyFn q) ttl h ctx q u = (Ret (res, err), w')"
  proof (cases r)
    case (Inr e)
    with assms(4) g have "fill_cache cache (keyFn q) ttl h ctx q (w1\<lparr>obs := obs w1 @ [Warned ''cache get error'' (keyFn q) e]\<rparr>)
        = (Ret (res, err), w')"
      by (simp add: WithQueryCaching_def Let_def go_simps)
    then show ?thesis using get [OF g] obs by metis
  next
    case (Inl p)
    obtain x hit where "p = (x, hit)" by fastforce
    with Inl assms(1) g have "\<not> hit" by metis
    with assms(4) g Inl \<open>p = (x, hit)\<close> have "fill_cache cache (keyFn q) ttl h ctx q w1 = (Ret (res, err), w')"
      by (simp add: WithQueryCaching_def Let_def go_bind_def)
    then show ?thesis using get [OF g] by blast
  qed
  then show ?thesis by (blast dest: fill_cache_answer)
qed

lemma validated_answer:
  "cd_Validate deps q = None \<Longrightarrow>
   WithQueryValidation zero (cd_Validate deps) (WithQueryLogging name [Some f] (WithQueryMetrics name h)) ctx q u = (Ret (res, err), u')
   \<Longrightarrow> \<exists>u1. h ctx q u = (Ret (res, err), u1)"
  by (auto simp: WithQueryValidation_def WithQueryLogging_def WithQueryMetrics_def logged_and_counted Let_def
      split: prod.splits exec.splits)

lemma tracing_answer:
  "with_tracing kind spanned name h ctx q w = (Ret (res, err), w') \<Longrightarrow>
   \<exists>u. h (spanned ctx (kind @ ''/'' @ name)) q (w\<lparr>obs := obs w @ [SpanStart kind (kind @ ''/'' @ name)]\<rparr>) = (Ret (res, err), u)"
  by (auto simp: with_tracing_def go_simps defer_observe_def split: prod.splits exec.splits option.splits)

text \<open>A command that succeeds has run its handler, whose data it leaves; the key is gone, or the failure to delete it is the
  last thing that was logged.\<close>

lemma command_invalidates:
  assumes "cache_client c may" and "obs_frame may" and frame: "data_frame c data" and "cd_CtxFields deps = Some f"
    and "StandardCommandChainWithInvalidation zero spanned h name (\<lambda>_. json_Delete c prefix) keyFn deps ctx cmd w = (Ret (r, None), w1)"
  shows "\<exists>u v. h (spanned ctx (''command/'' @ name)) cmd u = (Ret (r, None), v) \<and> data u = data w \<and> data w1 = data v
     \<and> (may w1 (prefix @ keyFn cmd) = {} \<or> (\<exists>e xs. obs w1 = xs @ [Warned ''cache invalidation error'' (keyFn cmd) e, SpanEnd]))"
proof -
  let ?u = "w\<lparr>obs := obs w @ [SpanStart ''command'' (''command/'' @ name)]\<rparr>"
  from assms(5) obtain v xs del w2 ys where
      h: "h (spanned ctx (''command/'' @ name)) cmd ?u = (Ret (r, None), v)"
    and d: "json_Delete c prefix [keyFn cmd] (v\<lparr>obs := xs\<rparr>) = (Ret del, w2)"
    and w1: "w1 = w2\<lparr>obs := ys\<rparr>"
    and ys: "\<And>e. del = Some e \<Longrightarrow> ys = obs w2 @ [Warned ''cache invalidation error'' (keyFn cmd) e, SpanEnd]"
    unfolding command_chain_behaviour [OF assms(4)]
    by (auto simp: Let_def split: option.splits prod.splits exec.splits)
  have "data w2 = data (v\<lparr>obs := xs\<rparr>)"
    using d frame unfolding json_Delete_def by (rule data_frameD(3) [rotated])
  then have "data ?u = data w" "data w1 = data v" using w1 by (simp_all add: data_frameD(1) [OF frame])
  moreover have "may w1 (prefix @ keyFn cmd) = {} \<or> (\<exists>e xs. obs w1 = xs @ [Warned ''cache invalidation error'' (keyFn cmd) e, SpanEnd])"
  proof (cases del)
    case None
    then have "may w2 (prefix @ keyFn cmd) = {}"
      using cache_client.json_Delete_ok [OF assms(1), of prefix "[keyFn cmd]"] d by auto
    then show ?thesis using assms(2) w1 by (simp add: obs_frame_def)
  next
    case (Some e)
    then show ?thesis using ys w1 by auto
  qed
  ultimately show ?thesis using h by blast
qed

text \<open>C16: Read your writes. After a command with cache invalidation has succeeded, the next query for the same key through
  the caching chain is answered by its handler, run on the data that the handler of the command left, and not from the
  cache; unless the cache could not delete the key, which is then the last thing the command logged. This holds for every
  cache that keeps the contract of a client, with or without hit counters, and whatever the cache held before.\<close>

theorem cqrs_read_your_writes:
  assumes "cache_client c may" and "obs_frame may" and frame: "data_frame c data"
    and "cd_CtxFields deps1 = Some f1" and "cd_CtxFields deps2 = Some f2"
    and "StandardCommandChainWithInvalidation zero1 spanned1 h1 name1 (\<lambda>_. json_Delete c prefix) key1 deps1 ctx1 cmd w
           = (Ret (r, None), w1)"
    and "key2 q = key1 cmd" and "cd_Validate deps2 q = None"
    and "StandardQueryChainWithCaching zero2 spanned2 h2 name2 (json_adapter c prefix zero2 enc dec) key2 ttl deps2 ctx2 q w1
           = (Ret (res, err), w2)"
  shows "(\<exists>u1 v1 u2 v2. h1 (spanned1 ctx1 (''command/'' @ name1)) cmd u1 = (Ret (r, None), v1) \<and> data u1 = data w
        \<and> h2 (spanned2 ctx2 (''query/'' @ name2)) q u2 = (Ret (res, err), v2) \<and> data u2 = data v1)
     \<or> (\<exists>e xs. obs w1 = xs @ [Warned ''cache invalidation error'' (key1 cmd) e, SpanEnd])"
proof -
  let ?g = "json_adapter c prefix zero2 enc dec"
  let ?cache = "if cd_cache_metrics deps2 then metricsCacheGetter name2 ?g else ?g"
  let ?rest = "WithQueryValidation zero2 (cd_Validate deps2) (WithQueryLogging name2 [Some f2] (WithQueryMetrics name2 h2))"
  let ?ctx = "spanned2 ctx2 (''query/'' @ name2)" and ?w1 = "w1\<lparr>obs := obs w1 @ [SpanStart ''query'' (''query/'' @ name2)]\<rparr>"
  obtain u1 v1 where h1: "h1 (spanned1 ctx1 (''command/'' @ name1)) cmd u1 = (Ret (r, None), v1)" "data u1 = data w" "data w1 = data v1"
    and deleted: "may w1 (prefix @ key1 cmd) = {} \<or> (\<exists>e xs. obs w1 = xs @ [Warned ''cache invalidation error'' (key1 cmd) e, SpanEnd])"
    using command_invalidates [OF assms(1-4) assms(6)] by blast
  show ?thesis
  proof (cases "may w1 (prefix @ key1 cmd) = {}")
    case True
    have "with_tracing ''query'' spanned2 name2 (WithQueryCaching ?cache key2 ttl ?rest) ctx2 q w1 = (Ret (res, err), w2)"
      using assms(9)
      by (simp add: StandardQueryChainWithCaching_def Let_def query_chain.build_Cons query_chain.build_Nil WithQueryTracing_def assms(5))
    from tracing_answer [OF this] obtain u where q: "WithQueryCaching ?cache key2 ttl ?rest ?ctx q ?w1 = (Ret (res, err), u)" by auto
    have "may ?w1 (prefix @ key2 q) = {}" using True assms(2,7) by (simp add: obs_frame_def)
    then have miss: "json_Get c prefix zero2 dec (key2 q) ?w1 \<noteq> (Ret (Inl (x, True)), w')" for x w'
      using cache_client.deleted_key_misses [OF assms(1), of ?w1 prefix "key2 q" zero2 dec x True w'] by auto
    have got: "\<exists>v. json_Get c prefix zero2 dec (key2 q) ?w1 = (Ret x, v) \<and> (w' = v \<or> (\<exists>xs. w' = v\<lparr>obs := xs\<rparr>))"
      if "cg_Get ?cache ?ctx (key2 q) ?w1 = (Ret x, w')" for x w'
      using metered_get [OF that] by (auto simp: json_adapter_def)
    have "cg_Get ?cache ?ctx (key2 q) ?w1 \<noteq> (Ret (Inl (x, True)), w')" for x w' using got miss by blast
    moreover have "data w' = data ?w1" if "cg_Get ?cache ?ctx (key2 q) ?w1 = (Ret x, w')" for x w'
      using got [OF that] json_Get_data [OF frame] data_frameD(1) [OF frame] by metis
    ultimately obtain v v' where v: "?rest ?ctx q v = (Ret (res, err), v')" "data v = data ?w1"
      using cached_query_miss [OF _ _ data_frameD(1) [OF frame] q] by blast
    then have "data v = data v1" using h1(3) by (simp add: data_frameD(1) [OF frame])
    then show ?thesis using validated_answer [OF assms(8) v(1)] h1(1,2) by blast
  qed (use deleted in blast)
qed

section \<open>Witness\<close>

text \<open>A world with a Redis server and one counter that the command increments and the query reads; the server
  holds an outdated answer.\<close>

record sample_cq = cq_world +
  server :: "string \<rightharpoonup> string"
  counter :: nat

definition counter_rdb :: "sample_cq rdb" where
  "counter_rdb =
     \<lparr>rdb_Get = (\<lambda>k w. (Ret (Inl (server w k)), w)), rdb_Set = (\<lambda>k v ttl w. (Ret None, w\<lparr>server := (server w)(k \<mapsto> v)\<rparr>)),
      rdb_Del = (\<lambda>ks w. (Ret None, w\<lparr>server := server w |` (- set ks)\<rparr>)), rdb_Ping = go_return None, rdb_Close = go_return None\<rparr>"

definition counter_deps :: "(unit, unit) chain_deps" where
  "counter_deps = \<lparr>cd_CtxFields = Some (\<lambda>_. []), cd_Validate = (\<lambda>_. None), cd_cache_metrics = True\<rparr>"

definition counter_command :: "sample_cq \<Rightarrow> (unit \<times> goerr option) exec \<times> sample_cq" where
  "counter_command =
     StandardCommandChainWithInvalidation () (\<lambda>x _. x) (\<lambda>_ _ w. (Ret ((), None), w\<lparr>counter := counter w + 1\<rparr>))
       ''add'' (\<lambda>_. json_Delete (redisClient counter_rdb) ''c:'') (\<lambda>_. ''n'') counter_deps () ()"

definition counter_query :: "sample_cq \<Rightarrow> (string \<times> goerr option) exec \<times> sample_cq" where
  "counter_query =
     StandardQueryChainWithCaching [] (\<lambda>x _. x) (\<lambda>_ _ w. (Ret (nat_digits (counter w), None), w))
       ''read'' (json_adapter (redisClient counter_rdb) ''c:'' [] Inl Some) (\<lambda>_. ''n'') 60 counter_deps () ()"

definition counter_world :: sample_cq where
  "counter_world = \<lparr>obs = [], server = [''c:n'' \<mapsto> ''stale''], counter = 4\<rparr>"

lemma counter_rdb_ok: "rdb_ok counter_rdb (\<lambda>w k. set_option (server w k))"
  by (auto simp: rdb_ok_def counter_rdb_def restrict_map_def)

lemma counter_frame: "data_frame (redisClient counter_rdb) counter"
  by (auto simp: data_frame_def redisClient_def redis_Get_def redis_Delete_def wrap_err_def counter_rdb_def go_bind_def
      split: option.split)

lemma counter_command_ok: "\<exists>w1. counter_command counter_world = (Ret ((), None), w1) \<and> last (butlast (obs w1)) = Logged ''command handled'' ''add'' [] None"
  unfolding counter_command_def
  by (subst command_chain_behaviour [where f = "\<lambda>_. []"])
    (simp_all add: counter_deps_def counter_world_def Let_def json_Delete_def redisClient_def redis_Delete_def wrap_err_def
      counter_rdb_def go_bind_def go_return_def)

lemma counter_query_ok: "\<exists>res w2. counter_query w = (Ret (res, None), w2)"
  by (auto simp: counter_query_def StandardQueryChainWithCaching_def ChainQuery_def WithQueryTracing_def with_tracing_def
      WithQueryCaching_def metricsCacheGetter_def json_adapter_def json_Get_def json_Set_def redisClient_def redis_Get_def
      counter_rdb_def counter_deps_def WithQueryValidation_def WithQueryLogging_def WithQueryMetrics_def logged_and_counted
      fill_cache_def go_simps defer_observe_def errors_Is_def ErrCacheMiss_def wrap_err_def Let_def
      split: option.splits prod.splits)

theorem cqrs_read_your_writes_witness:
  "\<exists>w1 w2. counter_command counter_world = (Ret ((), None), w1) \<and> counter_query w1 = (Ret (''5'', None), w2)"
proof -
  obtain w1 where c: "counter_command counter_world = (Ret ((), None), w1)"
      and l: "last (butlast (obs w1)) = Logged ''command handled'' ''add'' [] None"
    using counter_command_ok by blast
  obtain res w2 where q: "counter_query w1 = (Ret (res, None), w2)" using counter_query_ok by blast
  have f: "obs_frame (\<lambda>w k. set_option (server w k))" by (simp add: obs_frame_def)
  have d: "cd_CtxFields counter_deps = Some (\<lambda>_. [])" "cd_Validate counter_deps () = None" by (simp_all add: counter_deps_def)
  note answer = cqrs_read_your_writes [OF redis_client_ok [OF counter_rdb_ok] f counter_frame d(1) d(1)
      c [unfolded counter_command_def] _ d(2) q [unfolded counter_query_def]]
  have "res = nat_digits (counter counter_world + 1)" using answer l by (auto simp: butlast_append)
  moreover have "nat_digits (4 + 1) = ''5''" by code_simp
  ultimately have "res = ''5''" by (simp add: counter_world_def)
  with c q show ?thesis by blast
qed

end
