(* ===== verification/Wolf_Shutdown.thy ===== *)
theory Wolf_Shutdown
  imports Wolf_Errors "HOL-Library.Multiset"
begin

text \<open>
  Ordered shutdown: \<^verbatim>\<open>ShutdownGroup\<close> (\<^verbatim>\<open>src/infra/concurrency/shutdown.go\<close>) and what the application registers in
  it (\<^verbatim>\<open>src/infra/bootstrap/lifecycle.go\<close>). The closers of one priority run in goroutines of their own: each runs
  as a whole, in an order that the scheduler picks, the argument \<open>sched\<close>. A closer that panics ends the process.
\<close>

section \<open>The group\<close>

record 'w shutdown_entry =
  se_priority :: int
  se_name :: string
  se_closer :: "('w, goerr option) go"

definition sg_Add ::
  "int \<Rightarrow> string \<Rightarrow> ('w, goerr option) go \<Rightarrow> 'w shutdown_entry list \<Rightarrow> 'w shutdown_entry list" where
  "sg_Add priority name closer entries = entries @ [\<lparr>se_priority = priority, se_name = name, se_closer = closer\<rparr>]"

text \<open>One batch: \<open>is\<close> is the order in which its goroutines run, \<open>batchErrs\<close> has a place for each of them.\<close>

fun run_batch ::
  "'w shutdown_entry list \<Rightarrow> nat list \<Rightarrow> goerr option list \<Rightarrow> ('w, goerr option list) go" where
  "run_batch batch [] batchErrs = go_return batchErrs"
| "run_batch batch (i # is) batchErrs =
     go_bind (se_closer (batch ! i)) (\<lambda>err. run_batch batch is (batchErrs[i := err]))"

text \<open>The loop over the sorted entries: the longest run of entries with the priority of the first is a batch.
  \<open>sched n\<close> is the order for a batch of \<open>n\<close> entries.\<close>

function batches_loop ::
  "(nat \<Rightarrow> nat list) \<Rightarrow> 'w shutdown_entry list \<Rightarrow> goerr option list \<Rightarrow> ('w, goerr option) go" where
  "batches_loop sched [] allErrs = go_return (errors_Join allErrs)"
| "batches_loop sched (e # es) allErrs =
     (let batch = e # takeWhile (\<lambda>x. se_priority x = se_priority e) es;
          rest = dropWhile (\<lambda>x. se_priority x = se_priority e) es
      in go_bind (run_batch batch (sched (length batch)) (replicate (length batch) None)) (\<lambda>batchErrs.
           batches_loop sched rest (allErrs @ batchErrs)))"
  by pat_completeness auto
termination
  by (relation "measure (\<lambda>(_, es, _). length es)") (auto simp: length_dropWhile_le le_imp_less_Suc)

definition sg_Shutdown :: "(nat \<Rightarrow> nat list) \<Rightarrow> 'w shutdown_entry list \<Rightarrow> ('w, goerr option) go" where
  "sg_Shutdown sched entries = batches_loop sched (sort_key se_priority entries) []"

section \<open>The application\<close>

record 'w app =
  app_modules :: "(string \<times> ('w, goerr option) go) list"
  app_eventBus_Close :: "('w, goerr option) go"
  app_stream_Close :: "('w, goerr option) go"
  app_cache_Close :: "('w, goerr option) go"
  app_writeDB_Close :: "('w, goerr option) go"
  app_readDB_Close :: "('w, goerr option) go"
  app_tracer_Shutdown :: "('w, goerr option) go option"

abbreviation closing :: "string \<Rightarrow> ('w, goerr option) go \<Rightarrow> ('w, goerr option) go" where
  "closing prefix m \<equiv> go_bind m (\<lambda>err. go_return (map_option (errorf_w prefix) err))"

definition shutdown_entries :: "'w app \<Rightarrow> 'w shutdown_entry list" where
  "shutdown_entries a =
     (let sg = fold (\<lambda>(name, onStop). sg_Add 1 (''module-'' @ name)
                 (closing (''bootstrap: module '' @ quote name @ '' OnStop'') onStop)) (rev (app_modules a)) [];
          sg = sg_Add 2 ''event-bus'' (closing ''bootstrap: close event bus'' (app_eventBus_Close a)) sg;
          sg = sg_Add 2 ''messaging-stream'' (closing ''bootstrap: close messaging stream'' (app_stream_Close a)) sg;
          sg = sg_Add 3 ''cache-client'' (closing ''bootstrap: close cache client'' (app_cache_Close a)) sg;
          sg = sg_Add 4 ''write-db'' (closing ''bootstrap: close write db pool'' (app_writeDB_Close a)) sg;
          sg = sg_Add 4 ''read-db'' (closing ''bootstrap: close read db pool'' (app_readDB_Close a)) sg
      in case app_tracer_Shutdown a of
           Some m \<Rightarrow> sg_Add 5 ''tracer-provider'' (closing ''bootstrap: shutdown tracer provider'' m) sg
         | None \<Rightarrow> sg)"

definition app_Shutdown :: "(nat \<Rightarrow> nat list) \<Rightarrow> 'w app \<Rightarrow> ('w, goerr option) go" where
  "app_Shutdown sched a = sg_Shutdown sched (shutdown_entries a)"

section \<open>Everything is closed once, in order of priority\<close>

text \<open>Running closers one after the other: the final world and the errors.\<close>

fun close_all :: "'w shutdown_entry list \<Rightarrow> 'w \<Rightarrow> goerr option list \<times> 'w" where
  "close_all [] w = ([], w)"
| "close_all (e # es) w =
     (case se_closer e w of
        (Ret err, w1) \<Rightarrow> (case close_all es w1 of (errs, w2) \<Rightarrow> (err # errs, w2))
      | (Panic p, w1) \<Rightarrow> ([], w1))"

definition no_panic :: "'w shutdown_entry list \<Rightarrow> bool" where
  "no_panic es \<longleftrightarrow> (\<forall>e \<in> set es. \<forall>w. \<exists>err w'. se_closer e w = (Ret err, w'))"

definition valid_sched :: "(nat \<Rightarrow> nat list) \<Rightarrow> bool" where
  "valid_sched sched \<longleftrightarrow> (\<forall>n. mset (sched n) = mset [0..<n])"

lemma close_all_length: "no_panic es \<Longrightarrow> length (fst (close_all es w)) = length es"
proof (induction es arbitrary: w)
  case (Cons e es)
  then obtain err w1 where "se_closer e w = (Ret err, w1)" by (fastforce simp: no_panic_def)
  with Cons show ?case by (auto simp: no_panic_def split: prod.splits) (metis fst_conv)
qed simp

lemma close_all_append:
  "no_panic es \<Longrightarrow> close_all (es @ fs) w =
     (fst (close_all es w) @ fst (close_all fs (snd (close_all es w))), snd (close_all fs (snd (close_all es w))))"
proof (induction es arbitrary: w)
  case (Cons e es)
  then obtain err w1 where e: "se_closer e w = (Ret err, w1)" by (fastforce simp: no_panic_def)
  have "no_panic es" using Cons.prems by (simp add: no_panic_def)
  with e Cons.IH show ?case by (simp split: prod.splits)
qed (simp split: prod.splits)

lemma run_batch_close_all:
  assumes "no_panic batch" and "set is \<subseteq> {..<length batch}" and "distinct is" and "length errs = length batch"
  shows "\<exists>errs'. run_batch batch is errs w = (Ret errs', snd (close_all (map ((!) batch) is) w))
      \<and> length errs' = length batch
      \<and> (\<forall>j < length batch. j \<notin> set is \<longrightarrow> errs' ! j = errs ! j)
      \<and> map ((!) errs') is = fst (close_all (map ((!) batch) is) w)"
  using assms(2-)
proof (induction "is" arbitrary: w errs)
  case (Cons i js)
  then obtain err w1 where e: "se_closer (batch ! i) w = (Ret err, w1)"
    using assms(1) by (force simp: no_panic_def)
  have "length (errs[i := err]) = length batch" "set js \<subseteq> {..<length batch}" "distinct js" using Cons.prems by auto
  with Cons.IH [of "errs[i := err]" w1] obtain errs' where r: "run_batch batch js (errs[i := err]) w1
        = (Ret errs', snd (close_all (map ((!) batch) js) w1))" "length errs' = length batch"
      "\<forall>j < length batch. j \<notin> set js \<longrightarrow> errs' ! j = errs[i := err] ! j"
      "map ((!) errs') js = fst (close_all (map ((!) batch) js) w1)"
    by blast
  have "errs' ! i = err" using r(3) Cons.prems by simp
  with e r Cons.prems show ?case by (auto simp: go_bind_def nth_list_update split: prod.splits)
qed (simp add: go_return_def)

lemma mset_map_nth:
  assumes "mset is = mset [0..<length xs]"
  shows "mset (map ((!) xs) is) = mset xs"
proof -
  have "mset (map ((!) xs) is) = mset (map ((!) xs) [0..<length xs])" unfolding mset_map assms ..
  then show ?thesis unfolding map_nth .
qed

lemma batch_runs:
  assumes "no_panic batch" and "mset is = mset [0..<length batch]"
  shows "\<exists>es errs. run_batch batch is (replicate (length batch) None) w = (Ret errs, snd (close_all es w))
      \<and> mset es = mset batch \<and> mset errs = mset (fst (close_all es w))"
proof -
  have "set is = set [0..<length batch]" using mset_eq_setD [OF assms(2)] .
  then have sub: "set is \<subseteq> {..<length batch}" by (simp add: lessThan_atLeast0)
  have dist: "distinct is" using mset_eq_imp_distinct_iff [OF assms(2)] by simp
  from run_batch_close_all [OF assms(1) sub dist, of "replicate (length batch) None" w] obtain errs where
      r: "run_batch batch is (replicate (length batch) None) w = (Ret errs, snd (close_all (map ((!) batch) is) w))"
      "length errs = length batch" "map ((!) errs) is = fst (close_all (map ((!) batch) is) w)"
    unfolding length_replicate by blast
  have "mset errs = mset (map ((!) errs) is)"
    by (rule mset_map_nth [symmetric]) (simp only: r(2) assms(2))
  with r mset_map_nth [OF assms(2)] show ?thesis
    by (intro exI [of _ "map ((!) batch) is"] exI [of _ errs]) (simp del: mset_map)
qed

lemma no_panic_mset: "mset es = mset fs \<Longrightarrow> no_panic fs \<Longrightarrow> no_panic es"
  by (metis no_panic_def mset_eq_setD)

lemma sorted_same_priority: "\<forall>x \<in> set bs. se_priority x = p \<Longrightarrow> sorted (map se_priority bs)"
  by (induction bs) auto

lemma sorted_dropWhile_map: "sorted (map f xs) \<Longrightarrow> sorted (map f (dropWhile P xs))"
  by (induction xs) auto

lemma batches_loop_runs:
  "valid_sched sched \<Longrightarrow> no_panic es0 \<Longrightarrow> sorted (map se_priority es0) \<Longrightarrow>
    \<exists>es errs. batches_loop sched es0 acc w = (Ret (errors_Join (acc @ errs)), snd (close_all es w))
      \<and> mset es = mset es0 \<and> sorted (map se_priority es) \<and> mset errs = mset (fst (close_all es w))"
proof (induction sched es0 acc arbitrary: w rule: batches_loop.induct)
  case (1 sched acc)
  have "batches_loop sched [] acc w = (Ret (errors_Join (acc @ [])), snd (close_all [] w))" by (simp add: go_return_def)
  then show ?case by fastforce
next
  case (2 sched e es0 acc)
  let ?p = "\<lambda>x. se_priority x = se_priority e"
  let ?batch = "e # takeWhile ?p es0" and ?rest = "dropWhile ?p es0"
  have np: "no_panic ?batch" "no_panic ?rest" using "2.prems"(2) by (auto simp: no_panic_def dest: set_takeWhileD set_dropWhileD)
  have "mset (sched (length ?batch)) = mset [0..<length ?batch]" using "2.prems"(1) unfolding valid_sched_def by blast
  from batch_runs [OF np(1) this] obtain bs berrs where
      b: "run_batch ?batch (sched (length ?batch)) (replicate (length ?batch) None) w = (Ret berrs, snd (close_all bs w))"
      "mset bs = mset ?batch" "mset berrs = mset (fst (close_all bs w))" by blast
  have "sorted (map se_priority ?rest)" using "2.prems"(3) by (simp add: sorted_dropWhile_map)
  with "2.IH" [OF refl refl "2.prems"(1) np(2)] obtain rs rerrs where
      r: "batches_loop sched ?rest (acc @ berrs) (snd (close_all bs w))
        = (Ret (errors_Join ((acc @ berrs) @ rerrs)), snd (close_all rs (snd (close_all bs w))))"
      "mset rs = mset ?rest" "sorted (map se_priority rs)" "mset rerrs = mset (fst (close_all rs (snd (close_all bs w))))"
    by blast
  have same: "\<forall>x \<in> set bs. se_priority x = se_priority e" using mset_eq_setD [OF b(2)] by (auto dest: set_takeWhileD)
  have "\<forall>x \<in> set rs. se_priority e \<le> se_priority x"
    using mset_eq_setD [OF r(2)] "2.prems"(3) by (auto dest: set_dropWhileD)
  with same r(3) have "sorted (map se_priority (bs @ rs))"
    by (simp add: sorted_append sorted_same_priority [OF same])
  moreover have "mset (bs @ rs) = mset (e # es0)"
    using b(2) r(2) mset_append [of "takeWhile ?p es0" ?rest] by simp
  moreover have "close_all (bs @ rs) w
      = (fst (close_all bs w) @ fst (close_all rs (snd (close_all bs w))), snd (close_all rs (snd (close_all bs w))))"
    by (rule close_all_append) (rule no_panic_mset [OF b(2) np(1)])
  moreover have "batches_loop sched (e # es0) acc w
      = (Ret (errors_Join (acc @ (berrs @ rerrs))), snd (close_all rs (snd (close_all bs w))))"
    using b(1) r(1) by (simp add: Let_def go_bind_def del: run_batch.simps)
  ultimately show ?case using b(3) r(4) by (intro exI [of _ "bs @ rs"] exI [of _ "berrs @ rerrs"]) simp
qed

text \<open>C18: Shutdown releases everything: if no closer panics, every registered closer is called exactly once, those
  of a lower priority number before those of a higher one, also when closers before them failed, and the result
  joins the error of every closer that failed; this holds for every schedule of the goroutines.\<close>

theorem shutdown_closes_all_in_order:
  assumes "valid_sched sched" and "no_panic entries"
  shows "\<exists>es errs. sg_Shutdown sched entries w = (Ret (errors_Join errs), snd (close_all es w))
      \<and> mset es = mset entries \<and> sorted (map se_priority es) \<and> mset errs = mset (fst (close_all es w))"
  using batches_loop_runs [OF assms(1), of "sort_key se_priority entries" "[]" w] assms(2)
  by (simp add: sg_Shutdown_def no_panic_def)

text \<open>An application whose closers log their name; the event bus fails. The goroutines of a batch run from the
  last to the first.\<close>

definition closes :: "string \<Rightarrow> goerr option \<Rightarrow> (string list, goerr option) go" where
  "closes name err w = (Ret err, w @ [name])"

definition sample_app :: "string list app" where
  "sample_app =
     \<lparr>app_modules = [(''iam'', closes ''iam'' None), (''orders'', closes ''orders'' None)],
      app_eventBus_Close = closes ''bus'' (Some (ErrorsNew ''broker down'')), app_stream_Close = closes ''stream'' None,
      app_cache_Close = closes ''cache'' None, app_writeDB_Close = closes ''write'' None,
      app_readDB_Close = closes ''read'' None, app_tracer_Shutdown = None\<rparr>"

lemma sample_app_no_panic: "no_panic (shutdown_entries sample_app)"
  by (simp add: no_panic_def shutdown_entries_def sample_app_def sg_Add_def closes_def go_bind_def go_return_def Let_def)

lemma sample_app_log:
  "app_Shutdown (\<lambda>n. rev [0..<n]) sample_app [] =
     (Ret (Some (JoinError [errorf_w ''bootstrap: close event bus'' (ErrorsNew ''broker down'')])),
      [''iam'', ''orders'', ''stream'', ''bus'', ''cache'', ''read'', ''write''])"
  by (simp add: app_Shutdown_def sg_Shutdown_def shutdown_entries_def sample_app_def sg_Add_def closes_def
      go_bind_def go_return_def Let_def upt_rec errors_Join_def)

theorem shutdown_closes_all_in_order_witness:
  "\<exists>es errs. app_Shutdown (\<lambda>n. rev [0..<n]) sample_app [] = (Ret (errors_Join errs), snd (close_all es []))
     \<and> mset es = mset (shutdown_entries sample_app) \<and> sorted (map se_priority es) \<and> length es = 7"
proof -
  have "valid_sched (\<lambda>n. rev [0..<n])" by (simp add: valid_sched_def)
  from shutdown_closes_all_in_order [OF this sample_app_no_panic, of "[]"] obtain es errs where
    r: "sg_Shutdown (\<lambda>n. rev [0..<n]) (shutdown_entries sample_app) [] = (Ret (errors_Join errs), snd (close_all es []))"
      "mset es = mset (shutdown_entries sample_app)" "sorted (map se_priority es)" by blast
  have "length es = 7"
    using mset_eq_length [OF r(2)] by (simp add: shutdown_entries_def sample_app_def sg_Add_def Let_def)
  with r show ?thesis by (auto simp: app_Shutdown_def)
qed

end
