(* ===== verification/Wolf_JWT.thy ===== *)
theory Wolf_JWT
  imports Wolf_Cache Wolf_Config
begin

text \<open>
  Tokens (\<^verbatim>\<open>src/auth\<close>, \<^verbatim>\<open>src/infra/auth\<close>): the claims of a user, the token blacklists and the JWT service with its
  session checks. Times are nanoseconds since the epoch. The JWT library and the reading of files are parameters; the
  service's clock and the wall clock, which \<^verbatim>\<open>time.Until\<close> reads, are two fields of the world.
\<close>

section \<open>Claims\<close>

text \<open>\<^verbatim>\<open>time.Time{}\<close> is the start of year 1.\<close>

definition zero_time :: int where
  "zero_time = - 62135596800000000000"

text \<open>The two sets are nil in claims that \<^verbatim>\<open>NewUserClaims\<close> did not build; \<open>uc_initOnce\<close> is whether the \<^verbatim>\<open>sync.Once\<close> has run.\<close>

record user_claims =
  uc_UserID :: string
  uc_Email :: string
  uc_Roles :: "string list"
  uc_Permissions :: "string list"
  uc_SessionID :: string
  uc_IssuedAt :: int
  uc_ExpiresAt :: int
  uc_roleSet :: "string set option"
  uc_permSet :: "string set option"
  uc_initOnce :: bool

definition NewUserClaims ::
  "string \<Rightarrow> string \<Rightarrow> string list \<Rightarrow> string list \<Rightarrow> string \<Rightarrow> int \<Rightarrow> int \<Rightarrow> user_claims" where
  "NewUserClaims userID email roles permissions sessionID issuedAt expiresAt =
     \<lparr>uc_UserID = userID, uc_Email = email, uc_Roles = roles, uc_Permissions = permissions, uc_SessionID = sessionID,
      uc_IssuedAt = issuedAt, uc_ExpiresAt = expiresAt, uc_roleSet = Some (set roles),
      uc_permSet = Some (set permissions), uc_initOnce = False\<rparr>"

definition ensureSets :: "user_claims \<Rightarrow> user_claims" where
  "ensureSets c =
     (if uc_initOnce c then c
      else c\<lparr>uc_roleSet := Some (case uc_roleSet c of None \<Rightarrow> set (uc_Roles c) | Some s \<Rightarrow> s),
             uc_permSet := Some (case uc_permSet c of None \<Rightarrow> set (uc_Permissions c) | Some s \<Rightarrow> s),
             uc_initOnce := True\<rparr>)"

text \<open>Membership; a nil set has no members.\<close>

abbreviation set_Contains :: "string set option \<Rightarrow> string \<Rightarrow> bool" where
  "set_Contains s v \<equiv> (case s of None \<Rightarrow> False | Some S \<Rightarrow> v \<in> S)"

text \<open>Each check returns its answer and the claims, whose sets it may have built.\<close>

definition HasRole :: "user_claims \<Rightarrow> string \<Rightarrow> bool \<times> user_claims" where
  "HasRole c role = (let c' = ensureSets c in (set_Contains (uc_roleSet c') role, c'))"

definition HasPermission :: "user_claims \<Rightarrow> string \<Rightarrow> bool \<times> user_claims" where
  "HasPermission c perm = (let c' = ensureSets c in (set_Contains (uc_permSet c') perm, c'))"

definition HasAnyRole :: "user_claims \<Rightarrow> string list \<Rightarrow> bool \<times> user_claims" where
  "HasAnyRole c roles = (let c' = ensureSets c in (list_ex (set_Contains (uc_roleSet c')) roles, c'))"

definition HasAllPermissions :: "user_claims \<Rightarrow> string list \<Rightarrow> bool \<times> user_claims" where
  "HasAllPermissions c perms = (let c' = ensureSets c in (list_all (set_Contains (uc_permSet c')) perms, c'))"

abbreviation IsExpired :: "user_claims \<Rightarrow> int \<Rightarrow> bool" where
  "IsExpired c now \<equiv> now > uc_ExpiresAt c"

section \<open>Blacklists\<close>

record 'w token_blacklist =
  bl_IsBlacklisted :: "string \<Rightarrow> ('w, bool + goerr) go"
  bl_Blacklist :: "string \<Rightarrow> int \<Rightarrow> ('w, goerr option) go"

definition NoopBlacklist :: "'w token_blacklist" where
  "NoopBlacklist = \<lparr>bl_IsBlacklisted = (\<lambda>_. go_return (Inl False)), bl_Blacklist = (\<lambda>_ _. go_return None)\<rparr>"

text \<open>The clocks and the service's negative cache; the stores extend this record.\<close>

record jwt_world =
  jw_now :: int
  jw_wall :: int
  jw_active :: "string \<rightharpoonup> int"

abbreviation blacklistKey :: "string \<Rightarrow> string" where
  "blacklistKey jti \<equiv> ''bl:'' @ jti"

definition RedisBlacklist :: "'m jwt_world_scheme client \<Rightarrow> 'm jwt_world_scheme token_blacklist" where
  "RedisBlacklist c =
     \<lparr>bl_IsBlacklisted = (\<lambda>jti. go_bind (c_Get c (blacklistKey jti)) (\<lambda>r.
        case r of
          Inl _ \<Rightarrow> go_return (Inl True)
        | Inr err \<Rightarrow> if errors_Is (Some err) ErrCacheMiss then go_return (Inl False) else go_return (Inr err))),
      bl_Blacklist = (\<lambda>jti expiresAt w.
        let ttl = expiresAt - jw_wall w in
        if ttl \<le> 0 then (Ret None, w) else c_Set c (blacklistKey jti) ''1'' ttl w)\<rparr>"

text \<open>\<open>cb_Execute\<close> is the circuit breaker: it runs the check or fails without running it.\<close>

definition ResilientBlacklist ::
  "(('w, bool + goerr) go \<Rightarrow> ('w, bool + goerr) go) \<Rightarrow> 'w token_blacklist \<Rightarrow> 'w token_blacklist" where
  "ResilientBlacklist cb_Execute inner =
     \<lparr>bl_IsBlacklisted = (\<lambda>jti. go_bind (cb_Execute (bl_IsBlacklisted inner jti)) (\<lambda>r.
        case r of Inr err \<Rightarrow> go_return (Inl False) | Inl b \<Rightarrow> go_return (Inl b))),
      bl_Blacklist = bl_Blacklist inner\<rparr>"

section \<open>The service\<close>

record custom_claims =
  cc_Issuer :: string
  cc_Subject :: string
  cc_Audience :: "string list"
  cc_IssuedAt :: "int option"
  cc_ExpiresAt :: "int option"
  cc_NotBefore :: "int option"
  cc_ID :: string
  cc_Email :: string
  cc_Roles :: "string list"
  cc_Permissions :: "string list"
  cc_SessionID :: string
  cc_TokenType :: string

record token_params =
  tp_UserID :: string
  tp_Email :: string
  tp_Roles :: "string list"
  tp_Permissions :: "string list"
  tp_SessionID :: string

record refresh_claims =
  rc_UserID :: string
  rc_SessionID :: string
  rc_JTI :: string
  rc_ExpiresAt :: int

record token_pair =
  pair_AccessToken :: string
  pair_RefreshToken :: string
  pair_TokenType :: string
  pair_ExpiresIn :: int
  pair_ExpiresAt :: int

text \<open>
  The JWT library: its signing and parsing, and its reading of keys. A parse is given the options of the call and the
  time; it fails with an error, of which \<open>jf_expired\<close> and so on say whether \<^verbatim>\<open>errors.Is\<close> finds that sentinel in it, or
  returns the claims, when they have the expected type, and the token's \<^verbatim>\<open>Valid\<close>.
\<close>

record parse_options =
  po_ValidMethods :: "string list"
  po_Issuer :: string
  po_Audience :: string
  po_Leeway :: int
  po_Time :: int

record jwt_failure =
  jf_expired :: bool
  jf_malformed :: bool
  jf_signature :: bool
  jf_not_yet :: bool
  jf_text :: string

record 'k jwt_lib =
  lib_sign :: "string \<Rightarrow> 'k \<Rightarrow> custom_claims \<Rightarrow> string + goerr"
  lib_parse :: "'k \<Rightarrow> parse_options \<Rightarrow> string \<Rightarrow> (custom_claims option \<times> bool) + jwt_failure"
  lib_hmac_key :: "string \<Rightarrow> 'k"
  lib_RSAPrivateKeyFromPEM :: "string \<Rightarrow> 'k + goerr"
  lib_RSAPublicKeyFromPEM :: "string \<Rightarrow> 'k + goerr"

text \<open>The negative cache and the clocks are in the world.\<close>

record ('k, 'w) jwt_service =
  js_cfg :: jwt_config
  js_blacklist :: "'w token_blacklist"
  js_sessionChecker :: "(string \<Rightarrow> ('w, bool + goerr) go) option"
  js_signingKey :: 'k
  js_verifyKey :: 'k
  js_method :: string

text \<open>\<^verbatim>\<open>loadRSAPrivateKey\<close> and \<^verbatim>\<open>loadRSAPublicKey\<close>: the kind of the key and its parser are arguments.\<close>

definition loadRSAKey :: "(string \<Rightarrow> string + goerr) \<Rightarrow> string \<Rightarrow> (string \<Rightarrow> 'k + goerr) \<Rightarrow> string \<Rightarrow> 'k + goerr" where
  "loadRSAKey ReadFile kind parse_pem path =
     (case ReadFile path of
        Inr err \<Rightarrow> Inr (errorf_w (''read '' @ kind @ '' key file '' @ quote path) err)
      | Inl pem \<Rightarrow>
          (case parse_pem pem of
             Inr err \<Rightarrow> Inr (errorf_w (''parse RSA '' @ kind @ '' key'') err)
           | Inl key \<Rightarrow> Inl key))"

definition NewJWTService ::
  "'k jwt_lib \<Rightarrow> (string \<Rightarrow> string + goerr) \<Rightarrow> jwt_config \<Rightarrow> 'w token_blacklist \<Rightarrow> ('k, 'w) jwt_service + goerr" where
  "NewJWTService lib ReadFile cfg bl =
     (if length (jwt_Audience cfg) \<noteq> 1
      then Inr (errorf (''jwt: exactly one audience must be configured, got '' @ itoa (int (length (jwt_Audience cfg)))))
      else let svc = (\<lambda>sk vk. \<lparr>js_cfg = cfg, js_blacklist = bl, js_sessionChecker = None, js_signingKey = sk,
                                js_verifyKey = vk, js_method = SigningMethod cfg\<rparr>) in
        if SigningMethod cfg = ''HS256''
        then Inl (svc (lib_hmac_key lib (SecretKey cfg)) (lib_hmac_key lib (SecretKey cfg)))
        else if SigningMethod cfg = ''RS256''
        then (case loadRSAKey ReadFile ''private'' (lib_RSAPrivateKeyFromPEM lib) (PrivateKeyPath cfg) of
                Inr err \<Rightarrow> Inr (errorf_w ''jwt: load private key'' err)
              | Inl privateKey \<Rightarrow>
                  (case loadRSAKey ReadFile ''public'' (lib_RSAPublicKeyFromPEM lib) (PublicKeyPath cfg) of
                     Inr err \<Rightarrow> Inr (errorf_w ''jwt: load public key'' err)
                   | Inl publicKey \<Rightarrow> Inl (svc privateKey publicKey)))
        else Inr (errorf (''jwt: unsupported signing method '' @ quote (SigningMethod cfg))))"

definition SetSessionRevocationChecker ::
  "('k, 'w) jwt_service \<Rightarrow> (string \<Rightarrow> ('w, bool + goerr) go) option \<Rightarrow> ('k, 'w) jwt_service" where
  "SetSessionRevocationChecker s c = s\<lparr>js_sessionChecker := c\<rparr>"

text \<open>
  \<^verbatim>\<open>jwt.NewNumericDate\<close> keeps whole seconds. \<open>int64(d.Seconds())\<close> drops the fraction; the rounding of the float is not
  modelled (it is exact for a whole number of seconds). The identifiers come from the uuid package.
\<close>

abbreviation numeric_date :: "int \<Rightarrow> int" where
  "numeric_date t \<equiv> t div second * second"

definition GenerateTokenPair ::
  "'k jwt_lib \<Rightarrow> ('k, 'm jwt_world_scheme) jwt_service \<Rightarrow> string \<Rightarrow> string \<Rightarrow> token_params \<Rightarrow>
   ('m jwt_world_scheme, token_pair + goerr) go" where
  "GenerateTokenPair lib s accessJTI refreshJTI params w =
     (let now = jw_now w;
          accessExpiry = now + AccessTokenTTL (js_cfg s);
          refreshExpiry = now + RefreshTokenTTL (js_cfg s);
          sign = lib_sign lib (js_method s) (js_signingKey s);
          accessClaims =
            \<lparr>cc_Issuer = jwt_Issuer (js_cfg s), cc_Subject = tp_UserID params, cc_Audience = jwt_Audience (js_cfg s),
             cc_IssuedAt = Some (numeric_date now), cc_ExpiresAt = Some (numeric_date accessExpiry),
             cc_NotBefore = Some (numeric_date now), cc_ID = accessJTI, cc_Email = tp_Email params,
             cc_Roles = tp_Roles params, cc_Permissions = tp_Permissions params, cc_SessionID = tp_SessionID params,
             cc_TokenType = ''access''\<rparr>;
          refreshClaims =
            \<lparr>cc_Issuer = jwt_Issuer (js_cfg s), cc_Subject = tp_UserID params, cc_Audience = jwt_Audience (js_cfg s),
             cc_IssuedAt = Some (numeric_date now), cc_ExpiresAt = Some (numeric_date refreshExpiry),
             cc_NotBefore = Some (numeric_date now), cc_ID = refreshJTI, cc_Email = [], cc_Roles = [],
             cc_Permissions = [], cc_SessionID = tp_SessionID params, cc_TokenType = ''refresh''\<rparr> in
      case sign accessClaims of
        Inr err \<Rightarrow> (Ret (Inr (errorf_w ''jwt: sign access token'' err)), w)
      | Inl accessToken \<Rightarrow>
          (case sign refreshClaims of
             Inr err \<Rightarrow> (Ret (Inr (errorf_w ''jwt: sign refresh token'' err)), w)
           | Inl refreshToken \<Rightarrow>
               (Ret (Inl \<lparr>pair_AccessToken = accessToken, pair_RefreshToken = refreshToken, pair_TokenType = ''Bearer'',
                  pair_ExpiresIn = sgn (AccessTokenTTL (js_cfg s)) * (\<bar>AccessTokenTTL (js_cfg s)\<bar> div second),
                  pair_ExpiresAt = accessExpiry\<rparr>), w)))"

definition mapJWTError :: "jwt_failure \<Rightarrow> goerr" where
  "mapJWTError f =
     (if jf_expired f then NewTokenExpired
      else if jf_malformed f then NewTokenInvalid ''malformed''
      else if jf_signature f then NewTokenInvalid ''invalid signature''
      else if jf_not_yet f then NewTokenInvalid ''token not yet valid''
      else NewTokenInvalid (jf_text f))"

definition jwt_parse ::
  "'k jwt_lib \<Rightarrow> ('k, 'm jwt_world_scheme) jwt_service \<Rightarrow> string \<Rightarrow> ('m jwt_world_scheme, custom_claims + goerr) go" where
  "jwt_parse lib s tokenString w =
     (case jwt_Audience (js_cfg s) of
        [] \<Rightarrow> (Panic ''runtime error: index out of range [0] with length 0'', w)
      | aud # _ \<Rightarrow>
          (case lib_parse lib (js_verifyKey s)
                  \<lparr>po_ValidMethods = [SigningMethod (js_cfg s)], po_Issuer = jwt_Issuer (js_cfg s), po_Audience = aud,
                   po_Leeway = 5 * second, po_Time = jw_now w\<rparr> tokenString of
             Inr f \<Rightarrow> (Ret (Inr (mapJWTError f)), w)
           | Inl (Some claims, True) \<Rightarrow> (Ret (Inl claims), w)
           | Inl _ \<Rightarrow> (Ret (Inr (NewTokenInvalid ''claims extraction failed'')), w)))"

abbreviation sessionKey :: "string \<Rightarrow> string" where
  "sessionKey sid \<equiv> ''session:'' @ sid"

definition checkSessionRevocation ::
  "('k, 'm jwt_world_scheme) jwt_service \<Rightarrow> custom_claims \<Rightarrow> ('m jwt_world_scheme, goerr option) go" where
  "checkSessionRevocation s claims =
     (let sid = cc_SessionID claims;
          ask = (\<lambda>IsSessionRevoked now. go_bind (IsSessionRevoked sid) (\<lambda>r.
            case r of
              Inr err \<Rightarrow> go_return (Some (errorf_w ''jwt: session revocation db check'' err))
            | Inl revoked \<Rightarrow>
                if \<not> revoked then (\<lambda>w. (Ret None, w\<lparr>jw_active := (jw_active w)(sid \<mapsto> now + 30 * second)\<rparr>))
                else (case cc_ExpiresAt claims of
                        Some e \<Rightarrow> go_bind (bl_Blacklist (js_blacklist s) (sessionKey sid) e)
                                    (\<lambda>_. go_return (Some NewTokenRevoked))
                      | None \<Rightarrow> go_return (Some NewTokenRevoked)))) in
      go_bind (bl_IsBlacklisted (js_blacklist s) (sessionKey sid)) (\<lambda>r.
        case r of
          Inr err \<Rightarrow> go_return (Some (errorf_w ''jwt: session blacklist check'' err))
        | Inl blacklisted \<Rightarrow>
            if blacklisted then go_return (Some NewTokenRevoked)
            else (case js_sessionChecker s of
                    None \<Rightarrow> go_return None
                  | Some isRevoked \<Rightarrow>
                      (\<lambda>w. case jw_active w sid of
                         Some expiry \<Rightarrow>
                           if jw_now w < expiry then (Ret None, w)
                           else ask isRevoked (jw_now w) (w\<lparr>jw_active := (jw_active w)(sid := None)\<rparr>)
                       | None \<Rightarrow> ask isRevoked (jw_now w) w))))"

definition ValidateAccessToken ::
  "'k jwt_lib \<Rightarrow> ('k, 'm jwt_world_scheme) jwt_service \<Rightarrow> string \<Rightarrow> ('m jwt_world_scheme, user_claims + goerr) go" where
  "ValidateAccessToken lib s tokenString =
     go_bind (jwt_parse lib s tokenString) (\<lambda>p.
       case p of
         Inr err \<Rightarrow> go_return (Inr err)
       | Inl claims \<Rightarrow>
           let ok = NewUserClaims (cc_Subject claims) (cc_Email claims) (cc_Roles claims) (cc_Permissions claims)
                      (cc_SessionID claims) (case cc_IssuedAt claims of Some t \<Rightarrow> t | None \<Rightarrow> zero_time)
                      (case cc_ExpiresAt claims of Some t \<Rightarrow> t | None \<Rightarrow> zero_time) in
           if cc_TokenType claims \<noteq> ''access'' then go_return (Inr (NewTokenInvalid ''wrong token type''))
           else go_bind (bl_IsBlacklisted (js_blacklist s) (cc_ID claims)) (\<lambda>r.
             case r of
               Inr err \<Rightarrow> go_return (Inr (errorf_w ''jwt: blacklist check'' err))
             | Inl blacklisted \<Rightarrow>
                 if blacklisted then go_return (Inr NewTokenRevoked)
                 else if cc_SessionID claims \<noteq> []
                 then go_bind (checkSessionRevocation s claims) (\<lambda>e.
                        case e of Some err \<Rightarrow> go_return (Inr err) | None \<Rightarrow> go_return (Inl ok))
                 else go_return (Inl ok)))"

definition ValidateRefreshToken ::
  "'k jwt_lib \<Rightarrow> ('k, 'm jwt_world_scheme) jwt_service \<Rightarrow> string \<Rightarrow> ('m jwt_world_scheme, refresh_claims + goerr) go" where
  "ValidateRefreshToken lib s tokenString =
     go_bind (jwt_parse lib s tokenString) (\<lambda>p.
       case p of
         Inr err \<Rightarrow> go_return (Inr err)
       | Inl claims \<Rightarrow>
           if cc_TokenType claims \<noteq> ''refresh'' then go_return (Inr (NewTokenInvalid ''wrong token type''))
           else go_return (Inl \<lparr>rc_UserID = cc_Subject claims, rc_SessionID = cc_SessionID claims, rc_JTI = cc_ID claims,
                  rc_ExpiresAt = (case cc_ExpiresAt claims of Some t \<Rightarrow> t | None \<Rightarrow> zero_time)\<rparr>))"

definition RevokeToken :: "('k, 'w) jwt_service \<Rightarrow> string \<Rightarrow> int \<Rightarrow> ('w, goerr option) go" where
  "RevokeToken s jti expiresAt = bl_Blacklist (js_blacklist s) jti expiresAt"

definition RevokeSession ::
  "('k, 'm jwt_world_scheme) jwt_service \<Rightarrow> string \<Rightarrow> int \<Rightarrow> ('m jwt_world_scheme, goerr option) go" where
  "RevokeSession s sid expiresAt w =
     bl_Blacklist (js_blacklist s) (sessionKey sid) expiresAt (w\<lparr>jw_active := (jw_active w)(sid := None)\<rparr>)"

section \<open>What is assumed of the library and of the store\<close>

text \<open>
  A token signed with one key of a pair parses with the other, to the claims that were signed, when the options admit
  it: the method, the issuer and the audience agree and the time is between \<^verbatim>\<open>nbf\<close> and \<^verbatim>\<open>exp\<close>, widened by the leeway on
  both sides. The claims travel as JSON, which keeps ASCII strings.
\<close>

definition ascii :: "string \<Rightarrow> bool" where
  "ascii s \<longleftrightarrow> list_all (\<lambda>ch. of_char ch < (128 :: nat)) s"

definition ascii_claims :: "custom_claims \<Rightarrow> bool" where
  "ascii_claims c \<longleftrightarrow>
     list_all ascii ([cc_Issuer c, cc_Subject c, cc_ID c, cc_Email c, cc_SessionID c, cc_TokenType c]
       @ cc_Audience c @ cc_Roles c @ cc_Permissions c)"

definition admits :: "parse_options \<Rightarrow> string \<Rightarrow> custom_claims \<Rightarrow> bool" where
  "admits po method c \<longleftrightarrow>
     method \<in> set (po_ValidMethods po) \<and> cc_Issuer c = po_Issuer po \<and> po_Audience po \<in> set (cc_Audience c)
     \<and> (case cc_NotBefore c of None \<Rightarrow> True | Some n \<Rightarrow> n - po_Leeway po \<le> po_Time po)
     \<and> (case cc_ExpiresAt c of None \<Rightarrow> True | Some e \<Rightarrow> po_Time po < e + po_Leeway po)"

definition lib_ok :: "'k jwt_lib \<Rightarrow> ('k, 'w) jwt_service \<Rightarrow> bool" where
  "lib_ok lib s \<longleftrightarrow>
     (\<forall>c tok po. lib_sign lib (js_method s) (js_signingKey s) c = Inl tok \<longrightarrow> ascii_claims c \<longrightarrow> admits po (js_method s) c
        \<longrightarrow> lib_parse lib (js_verifyKey s) po tok = Inl (Some c, True))"

text \<open>
  A reachable Redis: \<open>look w k\<close> is the value of the key and the time until which it lives. The client sends the time to
  live in milliseconds, and never less than one. Neither the clocks nor the service's cache are in the store.
\<close>

definition redis_ok :: "'m jwt_world_scheme client \<Rightarrow> ('m jwt_world_scheme \<Rightarrow> string \<Rightarrow> (string \<times> int) option) \<Rightarrow> bool" where
  "redis_ok c look \<longleftrightarrow>
     (\<forall>k w. c_Get c k w = (Ret (case look w k of
        Some (v, d) \<Rightarrow> if jw_wall w < d then Inl v else Inr ErrCacheMiss | None \<Rightarrow> Inr ErrCacheMiss), w))
     \<and> (\<forall>k v ttl w. ttl > 0 \<longrightarrow> (\<exists>w' d. c_Set c k v ttl w = (Ret None, w') \<and> look w' = (look w)(k \<mapsto> (v, d))
          \<and> jw_wall w + ttl - 1000000 < d \<and> d \<le> jw_wall w + max ttl 1000000
          \<and> jw_now w' = jw_now w \<and> jw_wall w' = jw_wall w \<and> jw_active w' = jw_active w))
     \<and> (\<forall>w n t a. look (w\<lparr>jw_now := n\<rparr>) = look w \<and> look (w\<lparr>jw_wall := t\<rparr>) = look w \<and> look (w\<lparr>jw_active := a\<rparr>) = look w)"

text \<open>The key is listed until the time \<open>d\<close> at least.\<close>

definition listed :: "('w \<Rightarrow> string \<Rightarrow> (string \<times> int) option) \<Rightarrow> string \<Rightarrow> int \<Rightarrow> 'w \<Rightarrow> bool" where
  "listed look k t w \<longleftrightarrow> (\<exists>v d. look w (blacklistKey k) = Some (v, d) \<and> t \<le> d)"

lemma redis_okD:
  assumes "redis_ok c look"
  shows redis_get: "c_Get c k w = (Ret (case look w k of
        Some (v, d) \<Rightarrow> if jw_wall w < d then Inl v else Inr ErrCacheMiss | None \<Rightarrow> Inr ErrCacheMiss), w)"
    and redis_look: "look (w\<lparr>jw_now := n\<rparr>) = look w" "look (w\<lparr>jw_wall := n\<rparr>) = look w" "look (w\<lparr>jw_active := a\<rparr>) = look w"
  using assms unfolding redis_ok_def by auto

lemma redis_set:
  assumes "redis_ok c look" and "ttl > 0"
  obtains w' d where "c_Set c k v ttl w = (Ret None, w')" "look w' = (look w)(k \<mapsto> (v, d))"
    "jw_wall w + ttl - 1000000 < d" "d \<le> jw_wall w + max ttl 1000000"
    "jw_now w' = jw_now w" "jw_wall w' = jw_wall w" "jw_active w' = jw_active w"
  using assms unfolding redis_ok_def by meson

lemma redis_checks:
  assumes "redis_ok c look"
  shows "bl_IsBlacklisted (RedisBlacklist c) k w =
    (Ret (Inl (case look w (blacklistKey k) of None \<Rightarrow> False | Some (v, d) \<Rightarrow> jw_wall w < d)), w)"
  using redis_get [OF assms, of "blacklistKey k" w]
  by (auto simp: RedisBlacklist_def go_bind_def errors_Is_def ErrCacheMiss_def split: option.splits)

lemma listed_is_blacklisted:
  assumes "redis_ok c look" and "listed look k t w" and "jw_wall w < t"
  shows "bl_IsBlacklisted (RedisBlacklist c) k w = (Ret (Inl True), w)"
  using assms by (auto simp: redis_checks listed_def)

lemma lib_okD:
  "lib_ok lib s \<Longrightarrow> lib_sign lib (js_method s) (js_signingKey s) c = Inl tok \<Longrightarrow> ascii_claims c \<Longrightarrow> admits po (js_method s) c \<Longrightarrow>
   lib_parse lib (js_verifyKey s) po tok = Inl (Some c, True)"
  by (simp add: lib_ok_def)

section \<open>Construction\<close>

lemma NewJWTService_okD:
  assumes "NewJWTService lib rf cfg bl = Inl s"
  shows "js_cfg s = cfg" "js_blacklist s = bl" "js_sessionChecker s = None" "js_method s = SigningMethod cfg"
    "\<exists>aud. jwt_Audience cfg = [aud]"
  using assms by (auto simp: NewJWTService_def Let_def length_Suc_conv split: if_splits sum.splits)

text \<open>The claims that \<open>GenerateTokenPair\<close> signs.\<close>

abbreviation access_claims_at :: "jwt_config \<Rightarrow> string \<Rightarrow> token_params \<Rightarrow> int \<Rightarrow> custom_claims" where
  "access_claims_at cfg jti p now \<equiv>
     \<lparr>cc_Issuer = jwt_Issuer cfg, cc_Subject = tp_UserID p, cc_Audience = jwt_Audience cfg,
      cc_IssuedAt = Some (numeric_date now), cc_ExpiresAt = Some (numeric_date (now + AccessTokenTTL cfg)),
      cc_NotBefore = Some (numeric_date now), cc_ID = jti, cc_Email = tp_Email p, cc_Roles = tp_Roles p,
      cc_Permissions = tp_Permissions p, cc_SessionID = tp_SessionID p, cc_TokenType = ''access''\<rparr>"

abbreviation refresh_claims_at :: "jwt_config \<Rightarrow> string \<Rightarrow> token_params \<Rightarrow> int \<Rightarrow> custom_claims" where
  "refresh_claims_at cfg jti p now \<equiv>
     \<lparr>cc_Issuer = jwt_Issuer cfg, cc_Subject = tp_UserID p, cc_Audience = jwt_Audience cfg,
      cc_IssuedAt = Some (numeric_date now), cc_ExpiresAt = Some (numeric_date (now + RefreshTokenTTL cfg)),
      cc_NotBefore = Some (numeric_date now), cc_ID = jti, cc_Email = [], cc_Roles = [],
      cc_Permissions = [], cc_SessionID = tp_SessionID p, cc_TokenType = ''refresh''\<rparr>"

lemma GenerateTokenPair_okD:
  assumes "GenerateTokenPair lib s a r p w = (Ret (Inl pair), w')"
  shows "lib_sign lib (js_method s) (js_signingKey s) (access_claims_at (js_cfg s) a p (jw_now w)) = Inl (pair_AccessToken pair)"
    "lib_sign lib (js_method s) (js_signingKey s) (refresh_claims_at (js_cfg s) r p (jw_now w)) = Inl (pair_RefreshToken pair)"
    "w' = w"
  using assms by (auto simp: GenerateTokenPair_def Let_def split: sum.splits)

lemma numeric_date_bounds: "numeric_date t \<le> t" "t < numeric_date t + second"
  using div_mult_mod_eq [of t second] pos_mod_bound [of second t] pos_mod_sign [of second t] by simp_all

text \<open>An issued token parses from its issue until the leeway after its expiry is over.\<close>

lemma issued_parses:
  assumes lib: "lib_ok lib s" and svc: "NewJWTService lib rf cfg bl = Inl s0" "js_cfg s = cfg" "js_method s = js_method s0"
    and sign: "lib_sign lib (js_method s) (js_signingKey s) c = Inl tok" and ascii: "ascii_claims c"
    and c: "cc_Issuer c = jwt_Issuer cfg" "cc_Audience c = jwt_Audience cfg"
    and life: "cc_NotBefore c = Some n" "cc_ExpiresAt c = Some e" "n \<le> jw_now w" "jw_now w < e + 5 * second"
  shows "jwt_parse lib s tok w = (Ret (Inl c), w)"
proof -
  obtain aud where aud: "jwt_Audience cfg = [aud]" using NewJWTService_okD(5) [OF svc(1)] by blast
  have m: "js_method s = SigningMethod cfg" using NewJWTService_okD(4) [OF svc(1)] svc(3) by simp
  define po where "po = \<lparr>po_ValidMethods = [SigningMethod cfg], po_Issuer = jwt_Issuer cfg, po_Audience = aud,
    po_Leeway = 5 * second, po_Time = jw_now w\<rparr>"
  have "admits po (js_method s) c" using c life aud m by (simp add: admits_def po_def)
  then have "lib_parse lib (js_verifyKey s) po tok = Inl (Some c, True)" by (rule lib_okD [OF lib sign ascii])
  then show ?thesis using aud svc(2) by (simp add: jwt_parse_def po_def)
qed

section \<open>Revocation\<close>

text \<open>
  A blacklist over a store that may be out of reach. \<open>look\<close> is the content of the store. \<open>up\<close> tells whether the list can be
  asked in a world: if it can, an answer is right and the list can be asked again; if it cannot, the answer may be an
  error or, for the list that fails open, \<open>False\<close>. A write that reports success has written its entry, unless the
  time is already over; one that fails may or may not have. Neither the clocks nor the service's cache are in the store.
\<close>

abbreviation same_store ::
  "('m jwt_world_scheme \<Rightarrow> string \<Rightarrow> (string \<times> int) option) \<Rightarrow> 'm jwt_world_scheme \<Rightarrow> 'm jwt_world_scheme \<Rightarrow> bool" where
  "same_store look w w' \<equiv> look w' = look w \<and> jw_wall w' = jw_wall w"

definition bl_ok ::
  "'m jwt_world_scheme token_blacklist \<Rightarrow> ('m jwt_world_scheme \<Rightarrow> string \<Rightarrow> (string \<times> int) option) \<Rightarrow>
   ('m jwt_world_scheme \<Rightarrow> bool) \<Rightarrow> bool" where
  "bl_ok bl look up \<longleftrightarrow>
     (\<forall>k w r w'. bl_IsBlacklisted bl k w = (r, w') \<longrightarrow> same_store look w w' \<and>
        (up w \<longrightarrow> up w' \<and> r = Ret (Inl (case look w (blacklistKey k) of None \<Rightarrow> False | Some (v, d) \<Rightarrow> jw_wall w < d))))
     \<and> (\<forall>k e w r w'. bl_Blacklist bl k e w = (r, w') \<longrightarrow> jw_wall w' = jw_wall w \<and>
          (look w' = look w \<and> (r = Ret None \<longrightarrow> e \<le> jw_wall w)
           \<or> jw_wall w < e \<and> (\<exists>v d. look w' = (look w)(blacklistKey k \<mapsto> (v, d)) \<and> e - 1000000 < d)))
     \<and> (\<forall>w n t a. look (w\<lparr>jw_now := n\<rparr>) = look w \<and> look (w\<lparr>jw_wall := t\<rparr>) = look w \<and> look (w\<lparr>jw_active := a\<rparr>) = look w)"

lemma bl_okD:
  assumes "bl_ok bl look up"
  shows bl_check: "bl_IsBlacklisted bl k w = (r, w') \<Longrightarrow> same_store look w w' \<and>
        (up w \<longrightarrow> up w' \<and> r = Ret (Inl (case look w (blacklistKey k) of None \<Rightarrow> False | Some (v, d) \<Rightarrow> jw_wall w < d)))"
    and bl_write: "bl_Blacklist bl k e w = (q, w') \<Longrightarrow> jw_wall w' = jw_wall w \<and>
          (look w' = look w \<and> (q = Ret None \<longrightarrow> e \<le> jw_wall w)
           \<or> jw_wall w < e \<and> (\<exists>v d. look w' = (look w)(blacklistKey k \<mapsto> (v, d)) \<and> e - 1000000 < d))"
    and bl_look: "look (w\<lparr>jw_now := n\<rparr>) = look w" "look (w\<lparr>jw_wall := n\<rparr>) = look w" "look (w\<lparr>jw_active := a\<rparr>) = look w"
  using assms unfolding bl_ok_def by auto

text \<open>What is assumed of the client of a Redis that may be out of reach, and of the circuit breaker.\<close>

definition store_ok ::
  "'m jwt_world_scheme client \<Rightarrow> ('m jwt_world_scheme \<Rightarrow> string \<Rightarrow> (string \<times> int) option) \<Rightarrow> ('m jwt_world_scheme \<Rightarrow> bool) \<Rightarrow> bool" where
  "store_ok c look up \<longleftrightarrow>
     (\<forall>k w r w'. c_Get c k w = (r, w') \<longrightarrow> same_store look w w' \<and> (up w \<longrightarrow> up w' \<and> r = Ret (case look w k of
        Some (v, d) \<Rightarrow> if jw_wall w < d then Inl v else Inr ErrCacheMiss | None \<Rightarrow> Inr ErrCacheMiss)))
     \<and> (\<forall>k v ttl w r w'. ttl > 0 \<longrightarrow> c_Set c k v ttl w = (r, w') \<longrightarrow> jw_wall w' = jw_wall w \<and>
          (look w' = look w \<and> r \<noteq> Ret None \<or> (\<exists>d. look w' = (look w)(k \<mapsto> (v, d)) \<and> jw_wall w + ttl - 1000000 < d)))
     \<and> (\<forall>w n t a. look (w\<lparr>jw_now := n\<rparr>) = look w \<and> look (w\<lparr>jw_wall := t\<rparr>) = look w \<and> look (w\<lparr>jw_active := a\<rparr>) = look w)"

definition breaker_ok ::
  "(('m jwt_world_scheme, bool + goerr) go \<Rightarrow> ('m jwt_world_scheme, bool + goerr) go) \<Rightarrow>
   ('m jwt_world_scheme \<Rightarrow> string \<Rightarrow> (string \<times> int) option) \<Rightarrow> ('m jwt_world_scheme \<Rightarrow> bool) \<Rightarrow> ('m jwt_world_scheme \<Rightarrow> bool) \<Rightarrow> bool" where
  "breaker_ok cb look up shut \<longleftrightarrow>
     (\<forall>m w r w'. cb m w = (r, w') \<longrightarrow>
        (if shut w then r = fst (m w) \<and> same_store look (snd (m w)) w' \<and> up w' = up (snd (m w)) \<and> (\<forall>b. r = Ret (Inl b) \<longrightarrow> shut w')
         else (\<exists>err. r = Ret (Inr err)) \<and> same_store look w w'))"

lemma redis_bl_ok:
  assumes "store_ok c look up"
  shows "bl_ok (RedisBlacklist c) look up"
proof -
  note laws = assms [unfolded store_ok_def]
  have "same_store look w w' \<and> (up w \<longrightarrow> up w' \<and>
      r = Ret (Inl (case look w (blacklistKey k) of None \<Rightarrow> False | Some (v, d) \<Rightarrow> jw_wall w < d)))"
    if run: "bl_IsBlacklisted (RedisBlacklist c) k w = (r, w')" for k w r w'
  proof -
    obtain x w1 where x: "c_Get c (blacklistKey k) w = (x, w1)" by fastforce
    have "w' = w1" using run x by (auto simp: RedisBlacklist_def go_bind_def split: exec.splits sum.splits if_splits)
    moreover have "same_store look w w1 \<and> (up w \<longrightarrow> up w1 \<and> x = Ret (case look w (blacklistKey k) of
        Some (v, d) \<Rightarrow> if jw_wall w < d then Inl v else Inr ErrCacheMiss | None \<Rightarrow> Inr ErrCacheMiss))"
      using laws x by blast
    ultimately show ?thesis
      using run x by (auto simp: RedisBlacklist_def go_bind_def errors_Is_def ErrCacheMiss_def split: option.splits if_splits sum.splits)
  qed
  moreover have "jw_wall w' = jw_wall w \<and> (look w' = look w \<and> (r = Ret None \<longrightarrow> e \<le> jw_wall w)
      \<or> jw_wall w < e \<and> (\<exists>v d. look w' = (look w)(blacklistKey k \<mapsto> (v, d)) \<and> e - 1000000 < d))"
    if run: "bl_Blacklist (RedisBlacklist c) k e w = (r, w')" for k e w r w'
  proof (cases "e - jw_wall w \<le> 0")
    case True
    then show ?thesis using run by (simp add: RedisBlacklist_def)
  next
    case False
    then have "c_Set c (blacklistKey k) ''1'' (e - jw_wall w) w = (r, w')" using run by (simp add: RedisBlacklist_def)
    moreover have "e - jw_wall w > 0" using False by simp
    ultimately have "jw_wall w' = jw_wall w \<and> (look w' = look w \<and> r \<noteq> Ret None \<or>
        (\<exists>d. look w' = (look w)(blacklistKey k \<mapsto> (''1'', d)) \<and> jw_wall w + (e - jw_wall w) - 1000000 < d))"
      using laws by blast
    then show ?thesis using False by auto
  qed
  ultimately show ?thesis using laws unfolding bl_ok_def by blast
qed

lemma resilient_bl_ok:
  assumes inner: "bl_ok bl look up" and cb: "breaker_ok cb look up shut"
  shows "bl_ok (ResilientBlacklist cb bl) look (\<lambda>w. shut w \<and> up w)"
proof -
  have "same_store look w w' \<and> (shut w \<and> up w \<longrightarrow> (shut w' \<and> up w') \<and>
      r = Ret (Inl (case look w (blacklistKey k) of None \<Rightarrow> False | Some (v, d) \<Rightarrow> jw_wall w < d)))"
    if run: "bl_IsBlacklisted (ResilientBlacklist cb bl) k w = (r, w')" for k w r w'
  proof -
    obtain x w1 where x: "cb (bl_IsBlacklisted bl k) w = (x, w1)" by fastforce
    obtain y w2 where y: "bl_IsBlacklisted bl k w = (y, w2)" by fastforce
    have "w' = w1" "\<And>b. x = Ret (Inl b) \<Longrightarrow> r = Ret (Inl b)"
      using run x by (auto simp: ResilientBlacklist_def go_bind_def split: exec.splits sum.splits)
    moreover have "if shut w then x = y \<and> same_store look w2 w1 \<and> up w1 = up w2 \<and> (\<forall>b. x = Ret (Inl b) \<longrightarrow> shut w1)
        else same_store look w w1"
      using cb x y unfolding breaker_ok_def by (metis fst_conv snd_conv)
    ultimately show ?thesis using bl_check [OF inner y] by (auto split: if_splits)
  qed
  moreover have "bl_Blacklist (ResilientBlacklist cb bl) = bl_Blacklist bl" by (simp add: ResilientBlacklist_def)
  ultimately show ?thesis using inner unfolding bl_ok_def by simp
qed

lemma reachable_store: "redis_ok c look \<Longrightarrow> store_ok c look (\<lambda>_. True)"
proof -
  assume ok: "redis_ok c look"
  have "jw_wall w' = jw_wall w \<and> (\<exists>d. look w' = (look w)(k \<mapsto> (v, d)) \<and> jw_wall w + ttl - 1000000 < d)"
    if "ttl > 0" "c_Set c k v ttl w = (r, w')" for k v ttl w r w'
    by (rule redis_set [OF ok that(1), of k v w]) (use that(2) in auto)
  then show ?thesis unfolding store_ok_def using redis_get [OF ok] redis_look [OF ok] by simp
qed

text \<open>
  When the list cannot be asked, the validation of a token of the session may ask the database instead and enter the
  session again, until the expiry of that token.
\<close>

definition backfilled :: "'k jwt_lib \<Rightarrow> ('k, 'm jwt_world_scheme) jwt_service \<Rightarrow> string \<Rightarrow> string \<Rightarrow> 'm jwt_world_scheme \<Rightarrow> int list" where
  "backfilled lib s k tok w =
     (case jwt_parse lib s tok w of
        (Ret (Inl cl), _) \<Rightarrow>
          (case cc_ExpiresAt cl of
             Some e \<Rightarrow> if sessionKey (cc_SessionID cl) = k \<and> jw_wall w < e then [e] else []
           | None \<Rightarrow> [])
      | _ \<Rightarrow> [])"

text \<open>
  A history of the service: any operations in any order while the clocks run and the list comes and goes. \<open>es\<close> are the
  expiries, not yet over, with which the key \<open>k\<close> was entered again on the way. The wall clock does not go back.
\<close>

inductive jwt_run ::
  "'k jwt_lib \<Rightarrow> ('k, 'm jwt_world_scheme) jwt_service \<Rightarrow> ('m jwt_world_scheme \<Rightarrow> bool) \<Rightarrow> string \<Rightarrow> 'm jwt_world_scheme \<Rightarrow>
   int list \<Rightarrow> 'm jwt_world_scheme \<Rightarrow> bool"
  for lib s up k w where
  Start: "jwt_run lib s up k w [] w"
| Tick: "jwt_run lib s up k w es w1 \<Longrightarrow> jw_wall w1 \<le> t \<Longrightarrow> jwt_run lib s up k w es (w1\<lparr>jw_now := n, jw_wall := t\<rparr>)"
| Issue: "jwt_run lib s up k w es w1 \<Longrightarrow> GenerateTokenPair lib s a b p w1 = (r, w2) \<Longrightarrow> jwt_run lib s up k w es w2"
| Access: "jwt_run lib s up k w es w1 \<Longrightarrow> ValidateAccessToken lib s tok w1 = (q, w2) \<Longrightarrow>
    jwt_run lib s up k w (es @ (if up w1 then [] else backfilled lib s k tok w1)) w2"
| Refresh: "jwt_run lib s up k w es w1 \<Longrightarrow> ValidateRefreshToken lib s tok w1 = (q', w2) \<Longrightarrow> jwt_run lib s up k w es w2"
| Revoke: "jwt_run lib s up k w es w1 \<Longrightarrow> RevokeToken s jti e w1 = (q'', w2) \<Longrightarrow>
    jwt_run lib s up k w (es @ (if jti = k \<and> jw_wall w1 < e then [e] else [])) w2"
| Logout: "jwt_run lib s up k w es w1 \<Longrightarrow> RevokeSession s sid e w1 = (q'', w2) \<Longrightarrow>
    jwt_run lib s up k w (es @ (if sessionKey sid = k \<and> jw_wall w1 < e then [e] else [])) w2"

text \<open>The checker reads a database; it touches neither Redis nor the clock.\<close>

definition checker_ok ::
  "(string \<Rightarrow> ('m jwt_world_scheme, bool + goerr) go) option \<Rightarrow> ('m jwt_world_scheme \<Rightarrow> string \<Rightarrow> (string \<times> int) option) \<Rightarrow> bool" where
  "checker_ok ck look \<longleftrightarrow>
     (\<forall>f sid w r w'. ck = Some f \<longrightarrow> f sid w = (r, w') \<longrightarrow> look w' = look w \<and> jw_wall w' = jw_wall w)"

text \<open>What every operation keeps: the wall clock, and the entry of \<open>k\<close> until the time \<open>t\<close>.\<close>

definition kept ::
  "('m jwt_world_scheme \<Rightarrow> string \<Rightarrow> (string \<times> int) option) \<Rightarrow> string \<Rightarrow> int \<Rightarrow> 'm jwt_world_scheme \<Rightarrow> 'm jwt_world_scheme \<Rightarrow> bool" where
  "kept look k t w w' \<longleftrightarrow> jw_wall w' = jw_wall w \<and> (jw_wall w < t \<longrightarrow> listed look k t w \<longrightarrow> listed look k t w')"

lemma kept_refl [simp, intro]: "kept look k t w w"
  by (simp add: kept_def)

lemma kept_trans: "kept look k t w w1 \<Longrightarrow> kept look k t w1 w2 \<Longrightarrow> kept look k t w w2"
  by (simp add: kept_def)

lemma kept_look: "look w' = look w \<Longrightarrow> jw_wall w' = jw_wall w \<Longrightarrow> kept look k t w w'"
  by (simp add: kept_def listed_def)

lemma kept_Blacklist:
  assumes "bl_ok bl look up" and "bl_Blacklist bl j e w = (r, w')"
    and "listed look k t w \<Longrightarrow> jw_wall w < t \<Longrightarrow> jw_wall w < e \<Longrightarrow> j = k \<Longrightarrow> t \<le> e - 1000000"
  shows "kept look k t w w'"
proof -
  note wr = bl_write [OF assms(1,2)]
  have "listed look k t w'" if "listed look k t w" "jw_wall w < t"
    using wr assms(3) [OF that] that(1) by (cases "j = k") (auto simp: listed_def)
  then show ?thesis using wr by (simp add: kept_def)
qed

lemma kept_check:
  assumes bl: "bl_ok (js_blacklist s) look up" and ck: "checker_ok (js_sessionChecker s) look"
    and run: "checkSessionRevocation s cl w = (r, w')"
    and again: "\<And>e. \<not> up w \<Longrightarrow> cc_ExpiresAt cl = Some e \<Longrightarrow> sessionKey (cc_SessionID cl) = k \<Longrightarrow> jw_wall w < e \<Longrightarrow> t \<le> e - 1000000"
  shows "kept look k t w w'"
proof -
  let ?key = "sessionKey (cc_SessionID cl)"
  obtain b w0 where b: "bl_IsBlacklisted (js_blacklist s) ?key w = (b, w0)" by fastforce
  note b0 = bl_check [OF bl b]
  have backfill: "kept look k t w w2"
    if "look w1 = look w0" "jw_wall w1 = jw_wall w0" "bl_Blacklist (js_blacklist s) ?key e w1 = (r', w2)" "b = Ret (Inl False)"
      "cc_ExpiresAt cl = Some e" for w1 w2 e r'
  proof (rule kept_trans)
    show "kept look k t w w1" using that b0 by (simp add: kept_look)
    show "kept look k t w1 w2"
      using again [of e] b0 that
      by (intro kept_Blacklist [OF bl that(3)]) (cases "up w", auto simp: listed_def split: option.splits)
  qed
  have look: "look w1 = look w0 \<and> jw_wall w1 = jw_wall w0" if "js_sessionChecker s = Some f" "f sid w0 = (r', w1)" for f sid w0 r' w1
    using ck that unfolding checker_ok_def by fastforce
  have w0: "kept look k t w w1" if "look w1 = look w0" "jw_wall w1 = jw_wall w0" for w1 using that b0 by (simp add: kept_look)
  show ?thesis
    using run b bl_look(3) [OF bl]
    by (auto simp: checkSessionRevocation_def Let_def go_bind_def split: if_splits option.splits prod.splits exec.splits sum.splits
        dest!: look intro: w0 backfill [simplified])
qed

lemma jwt_parse_state [simp]: "jwt_parse lib s tok w = (r, w') \<Longrightarrow> w' = w"
  by (auto simp: jwt_parse_def split: list.splits sum.splits option.splits prod.splits bool.splits)

lemma kept_Access:
  assumes bl: "bl_ok (js_blacklist s) look up" and ck: "checker_ok (js_sessionChecker s) look"
    and run: "ValidateAccessToken lib s tok w = (r, w')"
    and again: "\<And>e. \<not> up w \<Longrightarrow> e \<in> set (backfilled lib s k tok w) \<Longrightarrow> t \<le> e - 1000000"
  shows "kept look k t w w'"
proof -
  have check: "kept look k t w w2"
    if p: "jwt_parse lib s tok w = (Ret (Inl cl), w)" and b: "bl_IsBlacklisted (js_blacklist s) (cc_ID cl) w = (x, w1)"
      and c: "checkSessionRevocation s cl w1 = (y, w2)" for cl x w1 y w2
  proof (rule kept_trans)
    note b1 = bl_check [OF bl b]
    show "kept look k t w w1" using b1 by (simp add: kept_look)
    show "kept look k t w1 w2"
    proof (rule kept_check [OF bl ck c])
      fix e
      assume "\<not> up w1" "cc_ExpiresAt cl = Some e" "sessionKey (cc_SessionID cl) = k" "jw_wall w1 < e"
      then show "t \<le> e - 1000000" using b1 p by (intro again) (auto simp: backfilled_def)
    qed
  qed
  have first: "kept look k t w w1" if "bl_IsBlacklisted (js_blacklist s) j w = (x, w1)" for j x w1
    using bl_check [OF bl that] by (simp add: kept_look)
  show ?thesis
    using run
    by (auto simp: ValidateAccessToken_def Let_def go_bind_def split: if_splits option.splits prod.splits exec.splits sum.splits
        dest: jwt_parse_state intro: first check)
qed

lemma Refresh_state: "ValidateRefreshToken lib s tok w = (r, w') \<Longrightarrow> w' = w"
  by (auto simp: ValidateRefreshToken_def go_bind_def split: if_splits prod.splits exec.splits sum.splits dest!: jwt_parse_state)

lemma Issue_state: "GenerateTokenPair lib s a b p w = (r, w') \<Longrightarrow> w' = w"
  by (auto simp: GenerateTokenPair_def Let_def split: sum.splits)

lemma kept_Logout:
  assumes bl: "bl_ok (js_blacklist s) look up" and run: "RevokeSession s sid e w = (r, w')"
    and again: "sessionKey sid = k \<Longrightarrow> jw_wall w < e \<Longrightarrow> t \<le> e - 1000000"
  shows "kept look k t w w'"
proof (rule kept_trans)
  show "kept look k t w (w\<lparr>jw_active := (jw_active w)(sid := None)\<rparr>)" by (rule kept_look) (simp_all add: bl_look [OF bl])
  show "kept look k t (w\<lparr>jw_active := (jw_active w)(sid := None)\<rparr>) w'"
    by (rule kept_Blacklist [OF bl run [unfolded RevokeSession_def]]) (use again in simp)
qed

text \<open>Until \<open>t\<close>, no history takes the entry of \<open>k\<close> off the list, if all it is entered with again reaches \<open>t\<close>.\<close>

lemma run_keeps_listed:
  assumes bl: "bl_ok (js_blacklist s) look up" and ck: "checker_ok (js_sessionChecker s) look"
    and run: "jwt_run lib s up k w es w'" and listed: "listed look k t w"
  shows "(\<forall>e \<in> set es. t \<le> e - 1000000) \<longrightarrow> jw_wall w' < t \<longrightarrow> listed look k t w'"
  using run
proof induction
  case Start
  show ?case using listed by simp
next
  case (Tick es w1 t' n)
  then show ?case by (auto simp: listed_def bl_look [OF bl])
next
  case (Issue es w1 a b p r w2)
  then show ?case using Issue_state by blast
next
  case (Access es w1 tok q w2)
  have "kept look k t w1 w2" if "\<forall>e \<in> set (es @ (if up w1 then [] else backfilled lib s k tok w1)). t \<le> e - 1000000"
    by (rule kept_Access [OF bl ck Access.hyps(2)]) (use that in auto)
  then show ?case using Access.IH by (auto simp: kept_def)
next
  case (Refresh es w1 tok q' w2)
  then show ?case using Refresh_state by blast
next
  case (Revoke es w1 jti e q'' w2)
  have "kept look k t w1 w2" if "\<forall>x \<in> set (es @ (if jti = k \<and> jw_wall w1 < e then [e] else [])). t \<le> x - 1000000"
    by (rule kept_Blacklist [OF bl Revoke.hyps(2) [unfolded RevokeToken_def]]) (use that in auto)
  then show ?case using Revoke.IH by (auto simp: kept_def)
next
  case (Logout es w1 sid e q'' w2)
  have "kept look k t w1 w2" if "\<forall>x \<in> set (es @ (if sessionKey sid = k \<and> jw_wall w1 < e then [e] else [])). t \<le> x - 1000000"
    by (rule kept_Logout [OF bl Logout.hyps(2)]) (use that in auto)
  then show ?case using Logout.IH by (auto simp: kept_def)
qed

lemma check_listed:
  assumes "bl_IsBlacklisted (js_blacklist s) (sessionKey (cc_SessionID cl)) w = (Ret (Inl True), w')"
  shows "checkSessionRevocation s cl w = (Ret (Some NewTokenRevoked), w')"
  using assms by (simp add: checkSessionRevocation_def Let_def go_bind_def)

section \<open>Properties\<close>

lemma issued_claims_ascii:
  assumes "list_all ascii (jwt_Issuer cfg # jwt_Audience cfg @ [a, tp_UserID p, tp_Email p, tp_SessionID p] @ tp_Roles p @ tp_Permissions p)"
  shows "ascii_claims (access_claims_at cfg a p n)" "ascii_claims (refresh_claims_at cfg a p n)"
  using assms by (simp_all add: ascii_claims_def, simp_all add: ascii_def)

lemma issued_access:
  assumes svc: "NewJWTService lib rf cfg bl = Inl s" and lib: "lib_ok lib s"
    and pair: "GenerateTokenPair lib s a b p w0 = (Ret (Inl pair), w1)"
    and ascii: "list_all ascii (jwt_Issuer cfg # jwt_Audience cfg @ [a, tp_UserID p, tp_Email p, tp_SessionID p] @ tp_Roles p @ tp_Permissions p)"
    and time: "jw_now w0 \<le> jw_now w" "jw_now w < jw_now w0 + AccessTokenTTL cfg"
    and clear: "\<And>k. bl_IsBlacklisted bl k w = (Ret (Inl False), w)"
  shows "jwt_parse lib s (pair_AccessToken pair) w = (Ret (Inl (access_claims_at cfg a p (jw_now w0))), w)"
    and "ValidateAccessToken lib s (pair_AccessToken pair) w =
      (Ret (Inl (NewUserClaims (tp_UserID p) (tp_Email p) (tp_Roles p) (tp_Permissions p) (tp_SessionID p)
         (numeric_date (jw_now w0)) (numeric_date (jw_now w0 + AccessTokenTTL cfg)))), w)"
proof -
  note s = NewJWTService_okD [OF svc]
  note dates = numeric_date_bounds [of "jw_now w0"] numeric_date_bounds [of "jw_now w0 + AccessTokenTTL cfg"]
  show acc: "jwt_parse lib s (pair_AccessToken pair) w = (Ret (Inl (access_claims_at cfg a p (jw_now w0))), w)"
    using dates time by (intro issued_parses [OF lib svc s(1) refl GenerateTokenPair_okD(1) [OF pair, unfolded s(1)] issued_claims_ascii(1) [OF ascii],
      where n = "numeric_date (jw_now w0)" and e = "numeric_date (jw_now w0 + AccessTokenTTL cfg)"]) auto
  have "checkSessionRevocation s cl w = (Ret None, w)" for cl
    by (simp add: checkSessionRevocation_def Let_def go_bind_def s clear)
  then show "ValidateAccessToken lib s (pair_AccessToken pair) w =
      (Ret (Inl (NewUserClaims (tp_UserID p) (tp_Email p) (tp_Roles p) (tp_Permissions p) (tp_SessionID p)
         (numeric_date (jw_now w0)) (numeric_date (jw_now w0 + AccessTokenTTL cfg)))), w)"
    using acc by (simp add: ValidateAccessToken_def Let_def go_bind_def s clear)
qed

text \<open>C26: Between its issue and its expiry the access token of a pair validates to the user it was issued for and the refresh
  token to its session, when nothing is blacklisted; neither is accepted in the place of the other.\<close>

theorem issued_tokens_validate:
  assumes svc: "NewJWTService lib rf cfg bl = Inl s" and lib: "lib_ok lib s"
    and pair: "GenerateTokenPair lib s a b p w0 = (Ret (Inl pair), w1)"
    and ascii: "list_all ascii (jwt_Issuer cfg # jwt_Audience cfg @ [a, tp_UserID p, tp_Email p, tp_SessionID p] @ tp_Roles p @ tp_Permissions p)"
      "list_all ascii (jwt_Issuer cfg # jwt_Audience cfg @ [b, tp_UserID p, tp_Email p, tp_SessionID p] @ tp_Roles p @ tp_Permissions p)"
    and time: "jw_now w0 \<le> jw_now w" "jw_now w < jw_now w0 + AccessTokenTTL cfg" "jw_now w < jw_now w0 + RefreshTokenTTL cfg"
    and clear: "\<And>k. bl_IsBlacklisted bl k w = (Ret (Inl False), w)"
  shows "ValidateAccessToken lib s (pair_AccessToken pair) w =
      (Ret (Inl (NewUserClaims (tp_UserID p) (tp_Email p) (tp_Roles p) (tp_Permissions p) (tp_SessionID p)
         (numeric_date (jw_now w0)) (numeric_date (jw_now w0 + AccessTokenTTL cfg)))), w)
    \<and> ValidateRefreshToken lib s (pair_RefreshToken pair) w =
      (Ret (Inl \<lparr>rc_UserID = tp_UserID p, rc_SessionID = tp_SessionID p, rc_JTI = b,
         rc_ExpiresAt = numeric_date (jw_now w0 + RefreshTokenTTL cfg)\<rparr>), w)
    \<and> ValidateAccessToken lib s (pair_RefreshToken pair) w = (Ret (Inr (NewTokenInvalid ''wrong token type'')), w)
    \<and> ValidateRefreshToken lib s (pair_AccessToken pair) w = (Ret (Inr (NewTokenInvalid ''wrong token type'')), w)"
proof -
  note s = NewJWTService_okD [OF svc]
  note dates = numeric_date_bounds [of "jw_now w0"] numeric_date_bounds [of "jw_now w0 + RefreshTokenTTL cfg"]
  note acc = issued_access [OF svc lib pair ascii(1) time(1,2) clear]
  have ref: "jwt_parse lib s (pair_RefreshToken pair) w = (Ret (Inl (refresh_claims_at cfg b p (jw_now w0))), w)"
    using dates time by (intro issued_parses [OF lib svc s(1) refl GenerateTokenPair_okD(2) [OF pair, unfolded s(1)] issued_claims_ascii(2) [OF ascii(2)],
      where n = "numeric_date (jw_now w0)" and e = "numeric_date (jw_now w0 + RefreshTokenTTL cfg)"]) auto
  show ?thesis
    using acc ref by (simp add: ValidateAccessToken_def [of lib s "pair_RefreshToken pair"] ValidateRefreshToken_def Let_def go_bind_def)
qed

lemma revoked_session_listed:
  assumes bl: "bl_ok (js_blacklist s) look up" and ck: "checker_ok (js_sessionChecker s) look"
    and revoke: "RevokeSession s sid e w = (Ret None, w1)" "jw_wall w < e"
    and run: "jwt_run lib s up (sessionKey sid) w1 es w2" and time: "\<forall>x \<in> set (e # es). jw_wall w2 < x - 1000000"
  obtains t where "jw_wall w2 < t" and "listed look (sessionKey sid) t w2"
proof
  let ?t = "Min (set (e # es)) - 1000000"
  have t: "?t \<le> x - 1000000" if "x \<in> set (e # es)" for x using that by (intro diff_right_mono Min_le) simp_all
  have "Min (set (e # es)) \<in> set (e # es)" by (intro Min_in) simp_all
  then show "jw_wall w2 < ?t" using time by blast
  obtain v d where "look w1 (blacklistKey (sessionKey sid)) = Some (v, d)" "e - 1000000 < d"
    using bl_write [OF bl revoke(1) [unfolded RevokeSession_def]] revoke(2) by auto
  moreover have "?t \<le> e - 1000000" by (rule t) simp
  ultimately have "listed look (sessionKey sid) ?t w1" unfolding listed_def by (metis order.strict_implies_order order.trans)
  with run_keeps_listed [OF bl ck run] t \<open>jw_wall w2 < ?t\<close> show "listed look (sessionKey sid) ?t w2" by simp
qed

lemma listed_session_rejected:
  assumes bl: "bl_ok (js_blacklist s) look up" and up: "up w" and sid: "sid \<noteq> []"
    and listed: "listed look (sessionKey sid) t w" and time: "jw_wall w < t"
    and tok: "jwt_parse lib s tok w = (Ret (Inl cl), w)" "cc_TokenType cl = ''access''" "cc_SessionID cl = sid"
  shows "\<exists>w'. ValidateAccessToken lib s tok w = (Ret (Inr NewTokenRevoked), w')"
proof -
  obtain x w1 where x: "bl_IsBlacklisted (js_blacklist s) (cc_ID cl) w = (x, w1)" by fastforce
  then obtain b where b: "x = Ret (Inl b)" "same_store look w w1" "up w1" using bl_check [OF bl x] up by blast
  obtain y w2 where y: "bl_IsBlacklisted (js_blacklist s) (sessionKey (cc_SessionID cl)) w1 = (y, w2)" by fastforce
  have "y = Ret (Inl True)" using bl_check [OF bl y] b(2,3) listed time tok(3) by (auto simp: listed_def)
  then have "checkSessionRevocation s cl w1 = (Ret (Some NewTokenRevoked), w2)" using check_listed y by blast
  then show ?thesis using tok sid x b(1) by (cases b) (simp_all add: ValidateAccessToken_def Let_def go_bind_def)
qed

text \<open>The two lists the application wires when it has a Redis: the list itself, and the list behind a circuit breaker.\<close>

lemma wired_bl_ok:
  assumes "store_ok c look up" and "breaker_ok cb look up shut"
    and "bl = RedisBlacklist c \<and> reachable = up \<or> bl = ResilientBlacklist cb (RedisBlacklist c) \<and> reachable = (\<lambda>w. shut w \<and> up w)"
  shows "bl_ok bl look reachable"
  using assms(3) redis_bl_ok [OF assms(1)] resilient_bl_ok [OF _ assms(2)] by auto

text \<open>C22: After a session is revoked with success, whatever the service does next and however often the store is out of reach
  meanwhile, every access token of the session is rejected as revoked when the list can be asked, until the earliest of the
  expiries given to the revocation and to later revocations of the same session, up to the millisecond in which Redis
  counts. A validation while the list cannot be asked counts as a revocation until the expiry of its token. This holds for
  the list in Redis and for that list behind the circuit breaker, which the application uses.\<close>

theorem revoked_session_rejected:
  assumes store: "store_ok c look up" and cb: "breaker_ok cb look up shut"
    and bl: "js_blacklist s = RedisBlacklist c \<and> reachable = up
      \<or> js_blacklist s = ResilientBlacklist cb (RedisBlacklist c) \<and> reachable = (\<lambda>w. shut w \<and> up w)"
    and ck: "checker_ok (js_sessionChecker s) look"
    and revoke: "RevokeSession s sid e w = (Ret None, w1)" "jw_wall w < e" and sid: "sid \<noteq> []"
    and run: "jwt_run lib s reachable (sessionKey sid) w1 es w2" and time: "\<forall>x \<in> set (e # es). jw_wall w2 < x - 1000000"
    and up: "reachable w2"
    and tok: "jwt_parse lib s tok w2 = (Ret (Inl cl), w2)" "cc_TokenType cl = ''access''" "cc_SessionID cl = sid"
  shows "\<exists>w3. ValidateAccessToken lib s tok w2 = (Ret (Inr NewTokenRevoked), w3)"
proof -
  note ok = wired_bl_ok [OF store cb bl]
  obtain t where "jw_wall w2 < t" "listed look (sessionKey sid) t w2"
    by (rule revoked_session_listed [OF ok ck revoke run time])
  then show ?thesis using listed_session_rejected [OF ok up sid _ _ tok] by blast
qed

text \<open>A second revocation of a session with an earlier expiry replaces the first: from that time on the session is not listed.\<close>

lemma revocation_shortened:
  assumes redis: "redis_ok c look" and bl: "js_blacklist s = RedisBlacklist c"
    and "RevokeSession s sid e1 w = (r1, w1)" and second: "RevokeSession s sid e2 w1 = (r2, w2)"
    and t: "jw_wall w1 < e2" "e2 \<le> t" "jw_wall w1 + 1000000 \<le> t"
  shows "bl_IsBlacklisted (js_blacklist s) (sessionKey sid) (w2\<lparr>jw_wall := t\<rparr>) = (Ret (Inl False), w2\<lparr>jw_wall := t\<rparr>)"
proof -
  let ?w = "w1\<lparr>jw_active := (jw_active w1)(sid := None)\<rparr>"
  have "e2 - jw_wall ?w > 0" using t(1) by simp
  from redis_set [OF redis this, of "blacklistKey (sessionKey sid)" "''1''" ?w] obtain w' d
    where s: "c_Set c (blacklistKey (sessionKey sid)) ''1'' (e2 - jw_wall ?w) ?w = (Ret None, w')"
      "look w' = (look ?w)(blacklistKey (sessionKey sid) \<mapsto> (''1'', d))" "d \<le> jw_wall ?w + max (e2 - jw_wall ?w) 1000000" by metis
  have "w2 = w'" using second s(1) t(1) by (simp add: RevokeSession_def bl RedisBlacklist_def)
  moreover have "d \<le> t" using s(3) t by (auto simp: max_def split: if_splits)
  ultimately show ?thesis using s(2) by (simp add: bl redis_checks [OF redis] redis_look [OF redis])
qed

text \<open>C35: In the five seconds after its expiry an access token still validates, but revoking it does nothing and
  reports success: it is accepted afterwards.\<close>

theorem revocation_skipped_in_leeway:
  assumes svc: "NewJWTService lib rf cfg (RedisBlacklist c) = Inl s" and lib: "lib_ok lib s"
    and pair: "GenerateTokenPair lib s a b p w0 = (Ret (Inl pair), w1)"
    and ascii: "list_all ascii (jwt_Issuer cfg # jwt_Audience cfg @ [a, tp_UserID p, tp_Email p, tp_SessionID p] @ tp_Roles p @ tp_Permissions p)"
    and exp: "e = numeric_date (jw_now w0 + AccessTokenTTL cfg)"
    and time: "jw_now w0 \<le> jw_now w" "jw_wall w = jw_now w" "e \<le> jw_now w" "jw_now w < e + 5 * second"
    and redis: "redis_ok c look" and clear: "\<And>k. look w k = None"
  shows "RevokeToken s a e w = (Ret None, w) \<and>
    (\<exists>u. ValidateAccessToken lib s (pair_AccessToken pair) w = (Ret (Inl u), w) \<and> uc_UserID u = tp_UserID p)"
proof -
  note s = NewJWTService_okD [OF svc]
  have acc: "jwt_parse lib s (pair_AccessToken pair) w = (Ret (Inl (access_claims_at cfg a p (jw_now w0))), w)"
    using numeric_date_bounds(1) [of "jw_now w0"] time exp
    by (intro issued_parses [OF lib svc s(1) refl GenerateTokenPair_okD(1) [OF pair, unfolded s(1)] issued_claims_ascii(1) [OF ascii],
      where n = "numeric_date (jw_now w0)" and e = e]) auto
  have no: "bl_IsBlacklisted (RedisBlacklist c) k w = (Ret (Inl False), w)" for k
    using clear by (simp add: redis_checks [OF redis])
  have check: "checkSessionRevocation s cl w = (Ret None, w)" for cl
    by (simp add: checkSessionRevocation_def Let_def go_bind_def s no)
  have "RevokeToken s a e w = (Ret None, w)" using time by (simp add: RevokeToken_def s RedisBlacklist_def)
  moreover have "\<exists>u. ValidateAccessToken lib s (pair_AccessToken pair) w = (Ret (Inl u), w) \<and> uc_UserID u = tp_UserID p"
    using acc check by (simp add: ValidateAccessToken_def Let_def go_bind_def s no NewUserClaims_def)
  ultimately show ?thesis ..
qed

section \<open>Witnesses\<close>

text \<open>A configuration, a user, a library that signs the two tokens of one pair, and a store in the world.\<close>

definition jwt_sample_cfg :: jwt_config where
  "jwt_sample_cfg = \<lparr>SigningMethod = ''HS256'', SecretKey = ''k'', PrivateKeyPath = [], PublicKeyPath = [],
     AccessTokenTTL = 60 * second, RefreshTokenTTL = 3600 * second, jwt_Issuer = ''i'', jwt_Audience = [''a'']\<rparr>"

definition jwt_sample_user :: token_params where
  "jwt_sample_user = \<lparr>tp_UserID = ''u'', tp_Email = ''e'', tp_Roles = [''r''], tp_Permissions = [], tp_SessionID = ''s''\<rparr>"

definition jwt_sample_lib :: "unit jwt_lib" where
  "jwt_sample_lib =
     (let A = access_claims_at jwt_sample_cfg ''1'' jwt_sample_user 0; R = refresh_claims_at jwt_sample_cfg ''2'' jwt_sample_user 0;
          bad = \<lparr>jf_expired = False, jf_malformed = True, jf_signature = False, jf_not_yet = False, jf_text = []\<rparr> in
      \<lparr>lib_sign = (\<lambda>_ _ c. if c = A then Inl ''A'' else if c = R then Inl ''R'' else Inr (ErrorsNew ''unknown'')),
       lib_parse = (\<lambda>_ po tok. if tok = ''A'' \<and> admits po ''HS256'' A then Inl (Some A, True)
         else if tok = ''R'' \<and> admits po ''HS256'' R then Inl (Some R, True) else Inr bad),
       lib_hmac_key = (\<lambda>_. ()), lib_RSAPrivateKeyFromPEM = (\<lambda>_. Inl ()), lib_RSAPublicKeyFromPEM = (\<lambda>_. Inl ())\<rparr>)"

type_synonym jwt_store = "string \<Rightarrow> (string \<times> int) option"

definition jwt_sample_redis :: "jwt_store jwt_world_scheme client" where
  "jwt_sample_redis = noopClient
     \<lparr>c_Get := (\<lambda>k w. (Ret (case jwt_world.more w k of
        Some (v, d) \<Rightarrow> if jw_wall w < d then Inl v else Inr ErrCacheMiss | None \<Rightarrow> Inr ErrCacheMiss), w)),
      c_Set := (\<lambda>k v ttl w. (Ret None, jwt_world.more_update (\<lambda>m. m(k \<mapsto> (v, jw_wall w + ttl))) w))\<rparr>"

definition jwt_sample_at :: "int \<Rightarrow> jwt_store jwt_world_scheme" where
  "jwt_sample_at t = \<lparr>jw_now = t, jw_wall = t, jw_active = Map.empty, \<dots> = Map.empty\<rparr>"

definition jwt_sample_service :: "(unit, jwt_store jwt_world_scheme) jwt_service" where
  "jwt_sample_service = \<lparr>js_cfg = jwt_sample_cfg, js_blacklist = RedisBlacklist jwt_sample_redis, js_sessionChecker = None,
     js_signingKey = (), js_verifyKey = (), js_method = ''HS256''\<rparr>"

definition jwt_sample_pair :: token_pair where
  "jwt_sample_pair = \<lparr>pair_AccessToken = ''A'', pair_RefreshToken = ''R'', pair_TokenType = ''Bearer'', pair_ExpiresIn = 60,
     pair_ExpiresAt = 60 * second\<rparr>"

lemma jwt_sample_redis_ok: "redis_ok jwt_sample_redis jwt_world.more"
  by (auto simp: redis_ok_def jwt_sample_redis_def intro!: exI)

lemma jwt_sample_new: "NewJWTService jwt_sample_lib rf jwt_sample_cfg (RedisBlacklist jwt_sample_redis) = Inl jwt_sample_service"
  by (simp add: NewJWTService_def jwt_sample_cfg_def jwt_sample_service_def)

lemma jwt_sample_lib_ok: "lib_ok jwt_sample_lib jwt_sample_service"
  by (auto simp: lib_ok_def jwt_sample_lib_def jwt_sample_service_def Let_def split: if_splits)

lemma jwt_sample_issue:
  "GenerateTokenPair jwt_sample_lib jwt_sample_service ''1'' ''2'' jwt_sample_user (jwt_sample_at 0) = (Ret (Inl jwt_sample_pair), jwt_sample_at 0)"
  by (simp add: GenerateTokenPair_def jwt_sample_lib_def jwt_sample_service_def jwt_sample_at_def jwt_sample_cfg_def
      jwt_sample_user_def jwt_sample_pair_def Let_def)

theorem issued_tokens_validate_witness:
  "ValidateAccessToken jwt_sample_lib jwt_sample_service ''A'' (jwt_sample_at (59 * second)) =
     (Ret (Inl (NewUserClaims ''u'' ''e'' [''r''] [] ''s'' 0 (60 * second))), jwt_sample_at (59 * second))"
  using issued_tokens_validate [OF jwt_sample_new jwt_sample_lib_ok jwt_sample_issue, of "jwt_sample_at (59 * second)"]
  by (simp add: redis_checks [OF jwt_sample_redis_ok])
     (simp add: ascii_def jwt_sample_at_def jwt_sample_cfg_def jwt_sample_user_def jwt_sample_pair_def)

lemma jwt_sample_parse:
  assumes "0 \<le> t" "t < 65 * second" and "jw_now w = t"
  shows "jwt_parse jwt_sample_lib jwt_sample_service ''A'' w = (Ret (Inl (access_claims_at jwt_sample_cfg ''1'' jwt_sample_user 0)), w)"
  using assms by (simp add: jwt_parse_def jwt_sample_lib_def jwt_sample_service_def jwt_sample_cfg_def admits_def Let_def)

text \<open>The same service behind a circuit breaker that never opens.\<close>

definition jwt_sample_resilient :: "(unit, jwt_store jwt_world_scheme) jwt_service" where
  "jwt_sample_resilient = jwt_sample_service\<lparr>js_blacklist := ResilientBlacklist (\<lambda>m. m) (RedisBlacklist jwt_sample_redis)\<rparr>"

lemma jwt_sample_breaker: "breaker_ok (\<lambda>m. m) look (\<lambda>_. True) (\<lambda>_. True)"
  by (auto simp: breaker_ok_def)

lemma jwt_sample_resilient_parse: "jwt_parse lib jwt_sample_resilient tok w = jwt_parse lib jwt_sample_service tok w"
  by (simp add: jwt_parse_def jwt_sample_resilient_def split: list.split)

definition jwt_sample_revoked :: "jwt_store jwt_world_scheme" where
  "jwt_sample_revoked = snd (RevokeSession jwt_sample_resilient ''s'' (90 * second) (jwt_sample_at 0))"

lemma jwt_sample_revoke:
  "RevokeSession jwt_sample_resilient ''s'' (90 * second) (jwt_sample_at 0) = (Ret None, jwt_sample_revoked)"
  "jw_wall jwt_sample_revoked = 0"
  by (simp_all add: jwt_sample_revoked_def RevokeSession_def jwt_sample_resilient_def ResilientBlacklist_def RedisBlacklist_def
      jwt_sample_at_def jwt_sample_redis_def)

text \<open>The session is revoked once more, until the expiry of the token, and 59 seconds pass.\<close>

definition jwt_sample_later :: "jwt_store jwt_world_scheme" where
  "jwt_sample_later =
     (snd (RevokeSession jwt_sample_resilient ''s'' (60 * second) jwt_sample_revoked))\<lparr>jw_now := 59 * second, jw_wall := 59 * second\<rparr>"

lemma jwt_sample_history:
  "jwt_run jwt_sample_lib jwt_sample_resilient (\<lambda>_. True \<and> True) (sessionKey ''s'') jwt_sample_revoked [60 * second] jwt_sample_later"
proof -
  let ?w = "snd (RevokeSession jwt_sample_resilient ''s'' (60 * second) jwt_sample_revoked)"
  obtain q where q: "RevokeSession jwt_sample_resilient ''s'' (60 * second) jwt_sample_revoked = (q, ?w)" by (metis prod.collapse)
  have wall: "jw_wall ?w = 0"
    by (simp add: RevokeSession_def jwt_sample_resilient_def ResilientBlacklist_def RedisBlacklist_def jwt_sample_redis_def
        jwt_sample_revoke)
  have "jwt_run jwt_sample_lib jwt_sample_resilient (\<lambda>_. True \<and> True) (sessionKey ''s'') jwt_sample_revoked [60 * second] ?w"
    using jwt_run.Logout [OF jwt_run.Start q, of jwt_sample_lib "\<lambda>_. True \<and> True" "sessionKey ''s''"]
    by (simp add: jwt_sample_revoke(2))
  then show ?thesis unfolding jwt_sample_later_def by (rule jwt_run.Tick) (unfold wall, simp)
qed

lemma jwt_sample_later_clock: "jw_now jwt_sample_later = 59 * second" "jw_wall jwt_sample_later = 59 * second"
  by (simp_all add: jwt_sample_later_def)

lemma jwt_sample_later_parse: "jwt_parse jwt_sample_lib jwt_sample_resilient ''A'' jwt_sample_later =
    (Ret (Inl (access_claims_at jwt_sample_cfg ''1'' jwt_sample_user 0)), jwt_sample_later)"
  unfolding jwt_sample_resilient_parse by (rule jwt_sample_parse [OF _ _ jwt_sample_later_clock(1)]) simp_all

theorem revoked_session_rejected_witness:
  "jw_wall jwt_sample_later = 59 * second \<and>
     (\<exists>w. ValidateAccessToken jwt_sample_lib jwt_sample_resilient ''A'' jwt_sample_later = (Ret (Inr NewTokenRevoked), w))"
proof -
  have "\<exists>w. ValidateAccessToken jwt_sample_lib jwt_sample_resilient ''A'' jwt_sample_later = (Ret (Inr NewTokenRevoked), w)"
    by (rule revoked_session_rejected [OF reachable_store [OF jwt_sample_redis_ok] jwt_sample_breaker _ _ jwt_sample_revoke(1) _ _
          jwt_sample_history _ _ jwt_sample_later_parse])
       (simp_all add: jwt_sample_resilient_def jwt_sample_service_def checker_ok_def jwt_sample_at_def jwt_sample_user_def
          jwt_sample_later_clock)
  then show ?thesis using jwt_sample_later_clock by simp
qed

theorem revocation_skipped_in_leeway_witness:
  "RevokeToken jwt_sample_service ''1'' (60 * second) (jwt_sample_at (62 * second)) = (Ret None, jwt_sample_at (62 * second)) \<and>
   (\<exists>u. ValidateAccessToken jwt_sample_lib jwt_sample_service ''A'' (jwt_sample_at (62 * second)) = (Ret (Inl u), jwt_sample_at (62 * second))
      \<and> uc_UserID u = ''u'')"
  using revocation_skipped_in_leeway [OF jwt_sample_new jwt_sample_lib_ok jwt_sample_issue _ refl _ _ _ _ jwt_sample_redis_ok,
      of "jwt_sample_at (62 * second)"]
  by (simp add: ascii_def jwt_sample_at_def jwt_sample_cfg_def jwt_sample_user_def jwt_sample_pair_def)

end
