(* ===== verification/Wolf_Limits.thy ===== *)
theory Wolf_Limits
  imports Wolf_Errors
begin

text \<open>
  Rate limiting (\<^verbatim>\<open>src/infra/ratelimit\<close>): the three strategies and the factory. A strategy is run on a list of calls, each with
  its time and key. A call of the two window strategies holds the mutex from start to end, so a list of calls is every
  behaviour they have. The token bucket releases its locks before it asks the limiter; its calls are modelled one after
  the other only. The limiter of \<^verbatim>\<open>x/time/rate\<close> inside it is an argument.
\<close>

section \<open>Fixed window\<close>

record fixedWindowEntry =
  fe_count :: int
  fe_windowStart :: int

record FixedWindow =
  fw_entries :: "string \<rightharpoonup> fixedWindowEntry"
  fw_rate :: int
  fw_window :: int

definition NewFixedWindow :: "int \<Rightarrow> int \<Rightarrow> FixedWindow" where
  "NewFixedWindow rate window = \<lparr>fw_entries = Map.empty, fw_rate = rate, fw_window = window\<rparr>"

definition fw_Allow :: "int \<Rightarrow> string \<Rightarrow> FixedWindow \<Rightarrow> bool \<times> FixedWindow" where
  "fw_Allow now key fw =
     (case fw_entries fw key of
        None \<Rightarrow> (True, fw\<lparr>fw_entries := (fw_entries fw)(key \<mapsto> \<lparr>fe_count = 1, fe_windowStart = now\<rparr>)\<rparr>)
      | Some entry \<Rightarrow>
          if now > fe_windowStart entry + fw_window fw
          then (True, fw\<lparr>fw_entries := (fw_entries fw)(key \<mapsto> entry\<lparr>fe_windowStart := now, fe_count := 1\<rparr>)\<rparr>)
          else if fe_count entry \<ge> fw_rate fw then (False, fw)
          else (True, fw\<lparr>fw_entries := (fw_entries fw)(key \<mapsto> entry\<lparr>fe_count := fe_count entry + 1\<rparr>)\<rparr>))"

section \<open>Sliding window\<close>

record SlidingWindow =
  sw_timestamps :: "string \<rightharpoonup> int list"
  sw_rate :: int
  sw_window :: int

definition NewSlidingWindow :: "int \<Rightarrow> int \<Rightarrow> SlidingWindow" where
  "NewSlidingWindow rate window = \<lparr>sw_timestamps = Map.empty, sw_rate = rate, sw_window = window\<rparr>"

fun pruneTimestamps :: "int list \<Rightarrow> int \<Rightarrow> int list" where
  "pruneTimestamps [] cutoff = []"
| "pruneTimestamps (t # ts) cutoff = (if \<not> t > cutoff then pruneTimestamps ts cutoff else t # ts)"

definition sw_Allow :: "int \<Rightarrow> string \<Rightarrow> SlidingWindow \<Rightarrow> bool \<times> SlidingWindow" where
  "sw_Allow now key sw =
     (let cutoff = now - sw_window sw;
          existing = (case sw_timestamps sw key of None \<Rightarrow> [] | Some ts \<Rightarrow> ts);
          pruned = pruneTimestamps existing cutoff in
      if int (length pruned) \<ge> sw_rate sw then (False, sw\<lparr>sw_timestamps := (sw_timestamps sw)(key \<mapsto> pruned)\<rparr>)
      else (True, sw\<lparr>sw_timestamps := (sw_timestamps sw)(key \<mapsto> pruned @ [now])\<rparr>))"

section \<open>Token bucket\<close>

text \<open>
  \<open>'l\<close> is the state of a \<^verbatim>\<open>rate.Limiter\<close>, \<open>NewLimiter limit burst\<close> a fresh one and \<open>lim_Allow now\<close> its \<^verbatim>\<open>Allow\<close>. The entries
  hold a pointer to it, so what \<^verbatim>\<open>Allow\<close> changes is seen by the next call; \<open>tb_stop\<close> is whether the channel is closed.
\<close>

record 'l tokenBucketEntry =
  te_limiter :: 'l
  te_lastSeen :: int

record 'l TokenBucket =
  tb_entries :: "string \<rightharpoonup> 'l tokenBucketEntry"
  tb_limit :: int
  tb_burst :: int
  tb_stop :: bool

definition NewTokenBucket :: "int \<Rightarrow> int \<Rightarrow> 'l TokenBucket" where
  "NewTokenBucket rps burst = \<lparr>tb_entries = Map.empty, tb_limit = rps, tb_burst = burst, tb_stop = False\<rparr>"

definition getLimiter :: "(int \<Rightarrow> int \<Rightarrow> 'l) \<Rightarrow> int \<Rightarrow> string \<Rightarrow> 'l TokenBucket \<Rightarrow> 'l \<times> 'l TokenBucket" where
  "getLimiter NewLimiter now key tb =
     (case tb_entries tb key of
        Some entry \<Rightarrow> (te_limiter entry, tb\<lparr>tb_entries := (tb_entries tb)(key \<mapsto> entry\<lparr>te_lastSeen := now\<rparr>)\<rparr>)
      | None \<Rightarrow>
          let limiter = NewLimiter (tb_limit tb) (tb_burst tb) in
          (limiter, tb\<lparr>tb_entries := (tb_entries tb)(key \<mapsto> \<lparr>te_limiter = limiter, te_lastSeen = now\<rparr>)\<rparr>))"

definition tb_Allow ::
  "(int \<Rightarrow> int \<Rightarrow> 'l) \<Rightarrow> (int \<Rightarrow> 'l \<Rightarrow> bool \<times> 'l) \<Rightarrow> int \<Rightarrow> string \<Rightarrow> 'l TokenBucket \<Rightarrow> bool \<times> 'l TokenBucket" where
  "tb_Allow NewLimiter lim_Allow now key tb =
     (case getLimiter NewLimiter now key tb of (limiter, tb') \<Rightarrow>
        case lim_Allow now limiter of (ok, limiter') \<Rightarrow>
          (ok, tb'\<lparr>tb_entries := (tb_entries tb')(key \<mapsto> \<lparr>te_limiter = limiter', te_lastSeen = now\<rparr>)\<rparr>))"

text \<open>A tick of the cleanup loop. \<^verbatim>\<open>staleThreshold\<close> is ten minutes.\<close>

definition removeStale :: "int \<Rightarrow> 'l TokenBucket \<Rightarrow> 'l TokenBucket" where
  "removeStale now tb =
     (let cutoff = now - 600000000000 in
      tb\<lparr>tb_entries := (\<lambda>key. case tb_entries tb key of
         Some entry \<Rightarrow> if te_lastSeen entry < cutoff then None else Some entry | None \<Rightarrow> None)\<rparr>)"

text \<open>Closing a closed channel panics.\<close>

definition tb_Close :: "('l TokenBucket, unit) go" where
  "tb_Close tb = (if tb_stop tb then (Panic ''close of closed channel'', tb) else (Ret (), tb\<lparr>tb_stop := True\<rparr>))"

section \<open>Factory\<close>

record limit_config =
  lc_Algorithm :: string
  lc_Rate :: int
  lc_Burst :: int
  lc_Window :: int

datatype 'l strategy = TB "'l TokenBucket" | FW FixedWindow | SW SlidingWindow

definition limiter_New :: "limit_config \<Rightarrow> 'l strategy + goerr" where
  "limiter_New cfg =
     (if lc_Algorithm cfg = ''token_bucket'' then Inl (TB (NewTokenBucket (lc_Rate cfg) (lc_Burst cfg)))
      else if lc_Algorithm cfg = ''fixed_window'' then Inl (FW (NewFixedWindow (lc_Rate cfg) (lc_Window cfg)))
      else if lc_Algorithm cfg = ''sliding_window'' then Inl (SW (NewSlidingWindow (lc_Rate cfg) (lc_Window cfg)))
      else Inr (errorf (''ratelimit: unknown algorithm '' @ quote (lc_Algorithm cfg))))"

section \<open>Keys do not affect each other\<close>

text \<open>The answers to a list of calls, each a time and a key.\<close>

fun calls :: "(int \<Rightarrow> string \<Rightarrow> 's \<Rightarrow> bool \<times> 's) \<Rightarrow> (int \<times> string) list \<Rightarrow> 's \<Rightarrow> bool list" where
  "calls allow [] s = []"
| "calls allow ((now, key) # cs) s = (case allow now key s of (b, s') \<Rightarrow> b # calls allow cs s')"

text \<open>The same for one key, with the entry of the key as the state.\<close>

fun entry_calls :: "(int \<Rightarrow> 'e \<Rightarrow> bool \<times> 'e) \<Rightarrow> int list \<Rightarrow> 'e \<Rightarrow> bool list" where
  "entry_calls step [] e = []"
| "entry_calls step (now # ts) e = (case step now e of (b, e') \<Rightarrow> b # entry_calls step ts e')"

lemma length_calls [simp]: "length (calls allow cs s) = length cs"
  by (induction allow cs s rule: calls.induct) (auto split: prod.splits)

text \<open>The times of the calls of a key, those of them that were admitted, and how many of these are in the \<open>window\<close> up to \<open>t\<close>.\<close>

definition times_of :: "string \<Rightarrow> (int \<times> string) list \<Rightarrow> int list" where
  "times_of k cs = map fst (filter (\<lambda>(t, k'). k' = k) cs)"

definition admitted :: "string \<Rightarrow> (int \<times> string) list \<Rightarrow> bool list \<Rightarrow> int list" where
  "admitted k cs bs = map (\<lambda>((t, k'), b). t) (filter (\<lambda>((t, k'), b). b \<and> k' = k) (zip cs bs))"

fun entry_admitted :: "(int \<Rightarrow> 'e \<Rightarrow> bool \<times> 'e) \<Rightarrow> int list \<Rightarrow> 'e \<Rightarrow> int list" where
  "entry_admitted step [] e = []"
| "entry_admitted step (now # ts) e = (case step now e of (b, e') \<Rightarrow> (if b then [now] else []) @ entry_admitted step ts e')"

definition in_window :: "int \<Rightarrow> int \<Rightarrow> int list \<Rightarrow> int" where
  "in_window window t ts = int (length (filter (\<lambda>x. t - window < x \<and> x \<le> t) ts))"

lemma in_window_append [simp]: "in_window window t (xs @ ys) = in_window window t xs + in_window window t ys"
  by (simp add: in_window_def)

lemma in_window_le: "in_window window t xs \<le> int (length xs)"
  by (simp add: in_window_def)

lemma in_window_none: "\<forall>x \<in> set xs. x \<le> t - window \<or> t < x \<Longrightarrow> in_window window t xs = 0"
  by (auto simp: in_window_def filter_empty_conv)

lemma sorted_times: "sorted (map fst cs) \<Longrightarrow> sorted (times_of k cs)"
  unfolding times_of_def by (rule sorted_filter)

text \<open>
  The contract of a strategy: a call works on the entry of its key, in a way that depends on nothing but the
  configuration and the time, and leaves the configuration and every other entry alone.
\<close>

locale keyed_limiter =
  fixes allow :: "int \<Rightarrow> string \<Rightarrow> 's \<Rightarrow> bool \<times> 's" and conf :: "'s \<Rightarrow> 'c" and entry :: "'s \<Rightarrow> string \<Rightarrow> 'e"
    and step :: "'c \<Rightarrow> int \<Rightarrow> 'e \<Rightarrow> bool \<times> 'e"
  assumes own: "allow now k s = (b, s') \<Longrightarrow> step (conf s) now (entry s k) = (b, entry s' k)"
    and other: "allow now k s = (b, s') \<Longrightarrow> k' \<noteq> k \<Longrightarrow> entry s' k' = entry s k'"
    and conf: "allow now k s = (b, s') \<Longrightarrow> conf s' = conf s"
begin

lemma answers_of_key:
  "map snd (filter (\<lambda>((t, k'), b). k' = k) (zip cs (calls allow cs s)))
     = entry_calls (step (conf s)) (times_of k cs) (entry s k)"
  unfolding times_of_def
proof (induction cs arbitrary: s)
  case (Cons x cs)
  obtain now k0 where x: "x = (now, k0)" by fastforce
  obtain b s' where r: "allow now k0 s = (b, s')" by fastforce
  show ?case using Cons [of s'] own [OF r] other [OF r, of k] conf [OF r] r x by (cases "k0 = k") auto
qed simp

lemma admitted_of_key: "admitted k cs (calls allow cs s) = entry_admitted (step (conf s)) (times_of k cs) (entry s k)"
  unfolding times_of_def admitted_def
proof (induction cs arbitrary: s)
  case (Cons x cs)
  obtain now k0 where x: "x = (now, k0)" by fastforce
  obtain b s' where r: "allow now k0 s = (b, s')" by fastforce
  show ?case using Cons [of s'] own [OF r] other [OF r, of k] conf [OF r] r x by (cases "k0 = k") auto
qed simp

end

definition fw_step :: "int \<times> int \<Rightarrow> int \<Rightarrow> fixedWindowEntry option \<Rightarrow> bool \<times> fixedWindowEntry option" where
  "fw_step c now e = (case e of
     None \<Rightarrow> (True, Some \<lparr>fe_count = 1, fe_windowStart = now\<rparr>)
   | Some en \<Rightarrow> if now > fe_windowStart en + snd c then (True, Some \<lparr>fe_count = 1, fe_windowStart = now\<rparr>)
       else if fe_count en \<ge> fst c then (False, Some en) else (True, Some (en\<lparr>fe_count := fe_count en + 1\<rparr>)))"

interpretation fixed: keyed_limiter fw_Allow "\<lambda>s. (fw_rate s, fw_window s)" fw_entries fw_step
  by unfold_locales (auto simp: fw_Allow_def fw_step_def split: option.splits if_splits)

definition sw_step :: "int \<times> int \<Rightarrow> int \<Rightarrow> int list \<Rightarrow> bool \<times> int list" where
  "sw_step c now ts = (let pruned = pruneTimestamps ts (now - snd c) in
     if int (length pruned) \<ge> fst c then (False, pruned) else (True, pruned @ [now]))"

interpretation sliding: keyed_limiter sw_Allow "\<lambda>s. (sw_rate s, sw_window s)"
  "\<lambda>s k. case sw_timestamps s k of None \<Rightarrow> [] | Some ts \<Rightarrow> ts" sw_step
  by unfold_locales (auto simp: sw_Allow_def sw_step_def Let_def split: option.splits if_splits)

definition tb_step :: "(int \<Rightarrow> int \<Rightarrow> 'l) \<Rightarrow> (int \<Rightarrow> 'l \<Rightarrow> bool \<times> 'l) \<Rightarrow> int \<times> int \<Rightarrow> int \<Rightarrow> 'l option \<Rightarrow> bool \<times> 'l option" where
  "tb_step NewLimiter lim_Allow c now e =
     (case lim_Allow now (case e of None \<Rightarrow> NewLimiter (fst c) (snd c) | Some l \<Rightarrow> l) of (b, l') \<Rightarrow> (b, Some l'))"

interpretation bucket: keyed_limiter "tb_Allow NewLimiter lim_Allow" "\<lambda>s. (tb_limit s, tb_burst s)"
  "\<lambda>s k. map_option te_limiter (tb_entries s k)" "tb_step NewLimiter lim_Allow" for NewLimiter lim_Allow
  by unfold_locales (auto simp: tb_Allow_def getLimiter_def tb_step_def Let_def split: option.splits prod.splits)

section \<open>The sliding window is exact\<close>

text \<open>The reference: the log of all admitted calls is kept for ever, and a call is admitted if fewer than \<open>rate\<close> of them are recent.\<close>

definition log_step :: "int \<times> int \<Rightarrow> int \<Rightarrow> int list \<Rightarrow> bool \<times> int list" where
  "log_step c now H =
     (if int (length (filter (\<lambda>t. t > now - snd c) H)) < fst c then (True, H @ [now]) else (False, H))"

lemma prune_filter: "sorted ts \<Longrightarrow> pruneTimestamps ts c = filter (\<lambda>t. t > c) ts"
proof (induction ts c rule: pruneTimestamps.induct)
  case (2 t ts c)
  then show ?case by (cases "t > c") (auto simp: filter_id_conv intro!: sym [OF filter_True])
qed simp

text \<open>The window holds the recent part of the log.\<close>

definition window_of :: "int \<Rightarrow> int \<Rightarrow> int list \<Rightarrow> int list \<Rightarrow> bool" where
  "window_of prev window H ts \<longleftrightarrow> sorted H \<and> (\<forall>t \<in> set H. t \<le> prev) \<and>
     (\<exists>c \<le> prev - window. ts = filter (\<lambda>t. t > c) H)"

lemma window_of_step:
  assumes "window_of prev window H ts" and "prev \<le> now" and "0 < window"
    and "sw_step (rate, window) now ts = (b, ts')" and "log_step (rate, window) now H = (b', H')"
  shows "b' = b \<and> window_of now window H' ts'"
proof -
  obtain c where c: "c \<le> prev - window" "ts = filter (\<lambda>t. t > c) H" and H: "sorted H" "\<forall>t \<in> set H. t \<le> prev"
    using assms(1) by (auto simp: window_of_def)
  have p: "pruneTimestamps ts (now - window) = filter (\<lambda>t. t > now - window) H"
    using c assms(2) H by (subst prune_filter) (auto simp: sorted_filter [of id, simplified] intro!: filter_cong)
  have s: "sorted (H @ [now])" "\<forall>t \<in> set (H @ [now]). t \<le> now" using H assms(2) by (auto simp: sorted_append)
  have "window_of now window H (filter (\<lambda>t. t > now - window) H)"
    using s unfolding window_of_def by (intro conjI exI [of _ "now - window"]) (auto simp: sorted_append)
  moreover have "window_of now window (H @ [now]) (filter (\<lambda>t. t > now - window) H @ [now])"
    using s assms(3) unfolding window_of_def by (intro conjI exI [of _ "now - window"]) auto
  ultimately show ?thesis using assms(3-5) p by (auto simp: sw_step_def log_step_def Let_def split: if_splits)
qed

lemma window_log:
  assumes "window_of prev window H ts" and "sorted (prev # ns)" and "0 < window"
  shows "entry_calls (sw_step (rate, window)) ns ts = entry_calls (log_step (rate, window)) ns H
    \<and> entry_admitted (sw_step (rate, window)) ns ts = entry_admitted (log_step (rate, window)) ns H"
  using assms(1,2)
proof (induction ns arbitrary: prev H ts)
  case (Cons now ns)
  obtain b ts' where s: "sw_step (rate, window) now ts = (b, ts')" by fastforce
  obtain b' H' where l: "log_step (rate, window) now H = (b', H')" by fastforce
  have "b' = b \<and> window_of now window H' ts'"
    using window_of_step [OF Cons.prems(1) _ assms(3) s l] Cons.prems(2) by simp
  then show ?case using Cons.IH [of now H' ts'] Cons.prems(2) s l by simp
qed simp

lemma log_limit:
  assumes "sorted (prev # ns)" and "\<forall>x \<in> set H. x \<le> prev" and "\<forall>t. in_window window t H \<le> rate"
  shows "in_window window t (H @ entry_admitted (log_step (rate, window)) ns H) \<le> rate"
  using assms
proof (induction ns arbitrary: prev H)
  case (Cons now ns)
  show ?case
  proof (cases "int (length (filter (\<lambda>x. x > now - window) H)) < rate")
    case True
    have "in_window window t' (H @ [now]) \<le> rate" for t'
    proof (cases "t' < now")
      case False
      have "length (filter (\<lambda>x. t' - window < x \<and> x \<le> t') H) \<le> length (filter (\<lambda>x. x > now - window) H)"
        using False by (induction H) auto
      then show ?thesis using True by (auto simp: in_window_def)
    qed (use Cons.prems(3) in \<open>auto simp: in_window_def\<close>)
    moreover have "\<forall>x \<in> set (H @ [now]). x \<le> now" using Cons.prems by auto
    ultimately show ?thesis using Cons.IH [of now "H @ [now]"] Cons.prems(1) True by (simp add: log_step_def)
  next
    case False
    have "\<forall>x \<in> set H. x \<le> now" using Cons.prems by auto
    then show ?thesis using Cons.IH [of now H] Cons.prems False by (simp add: log_step_def)
  qed
qed simp

section \<open>The fixed window admits up to twice its rate\<close>

text \<open>
  Until \<open>now\<close> the key has admitted \<open>A\<close>: a part \<open>X\<close> that is older than the window before the current one, and at most \<open>m\<close> calls
  in each of these two.
\<close>

definition two_windows :: "int \<Rightarrow> int \<Rightarrow> int \<Rightarrow> fixedWindowEntry \<Rightarrow> int list \<Rightarrow> bool" where
  "two_windows m window now en A \<longleftrightarrow> fe_windowStart en \<le> now \<and> (\<forall>x \<in> set A. x \<le> now) \<and>
     (\<forall>t. in_window window t A \<le> 2 * m) \<and>
     (\<exists>X B C. A = X @ B @ C \<and> int (length B) \<le> m \<and> int (length C) = fe_count en \<and> fe_count en \<le> m \<and>
        (\<forall>x \<in> set X. x < fe_windowStart en - window) \<and> (\<forall>x \<in> set (X @ B). x \<le> fe_windowStart en))"

lemma two_windows_admit:
  assumes "\<forall>t. in_window window t A \<le> 2 * m" and "\<forall>x \<in> set A. x \<le> now" and "A @ [now] = X @ B @ C"
    and "int (length B) \<le> m" "int (length C) = fe_count en" "fe_count en \<le> m" "fe_windowStart en \<le> now"
    and "\<forall>x \<in> set X. x < fe_windowStart en - window" "\<forall>x \<in> set (X @ B). x \<le> fe_windowStart en"
  shows "two_windows m window now en (A @ [now])"
proof -
  have "in_window window t (A @ [now]) \<le> 2 * m" for t
  proof (cases "t < now")
    case True
    then show ?thesis using assms(1) by (simp add: in_window_none)
  next
    case False
    then have "in_window window t X = 0" using assms(7,8) by (intro in_window_none) force
    then show ?thesis
      using in_window_le [of window t B] in_window_le [of window t C] assms(4-6) unfolding assms(3) in_window_append by linarith
  qed
  note win = this
  have le: "\<forall>x \<in> set (A @ [now]). x \<le> now" using assms(2) by simp
  have "\<exists>X B C. A @ [now] = X @ B @ C \<and> int (length B) \<le> m \<and> int (length C) = fe_count en \<and> fe_count en \<le> m \<and>
      (\<forall>x \<in> set X. x < fe_windowStart en - window) \<and> (\<forall>x \<in> set (X @ B). x \<le> fe_windowStart en)"
    by (rule exI [of _ X], rule exI [of _ B], rule exI [of _ C]) (intro conjI assms(3-6,8,9))
  then show ?thesis unfolding two_windows_def using win le assms(7) by (intro conjI allI)
qed

lemma two_windowsE:
  assumes "two_windows m window now en A"
  obtains X B C where "A = X @ B @ C" "int (length B) \<le> m" "int (length C) = fe_count en" "fe_count en \<le> m"
    "\<forall>x \<in> set X. x < fe_windowStart en - window" "\<forall>x \<in> set (X @ B). x \<le> fe_windowStart en"
    "\<forall>t. in_window window t A \<le> 2 * m" "\<forall>x \<in> set A. x \<le> now" "fe_windowStart en \<le> now"
  using assms unfolding two_windows_def by (elim conjE exE) (rule that; assumption)

lemma two_windows_step:
  assumes inv: "two_windows m window prev en A" and "prev \<le> now" "0 \<le> window" "m = max 1 rate"
    and step: "fw_step (rate, window) now (Some en) = (b, e')"
  obtains en' where "e' = Some en'" "two_windows m window now en' (A @ (if b then [now] else []))"
proof -
  obtain X B C where A: "A = X @ B @ C" "int (length B) \<le> m" "int (length C) = fe_count en" "fe_count en \<le> m"
      "\<forall>x \<in> set X. x < fe_windowStart en - window" "\<forall>x \<in> set (X @ B). x \<le> fe_windowStart en"
    and win: "\<forall>t. in_window window t A \<le> 2 * m" and prev: "\<forall>x \<in> set A. x \<le> prev" "fe_windowStart en \<le> prev"
    using inv by (rule two_windowsE)
  have "\<forall>x \<in> set A. x \<le> now" "fe_windowStart en \<le> now" using prev assms(2) by auto
  note le = win this
  consider (fresh) "now > fe_windowStart en + window" | (full) "\<not> now > fe_windowStart en + window" "fe_count en \<ge> rate"
    | (next_one) "\<not> now > fe_windowStart en + window" "fe_count en < rate" by linarith
  then show thesis
  proof cases
    case fresh
    have "two_windows m window now \<lparr>fe_count = 1, fe_windowStart = now\<rparr> (A @ [now])"
    proof (rule two_windows_admit [OF le(1,2)])
      show "A @ [now] = (X @ B) @ C @ [now]" using A(1) by simp
      show "int (length C) \<le> m" using A(3,4) by simp
      show "\<forall>x \<in> set (X @ B). x < fe_windowStart \<lparr>fe_count = 1, fe_windowStart = now\<rparr> - window" using A(6) fresh by force
      show "\<forall>x \<in> set ((X @ B) @ C). x \<le> fe_windowStart \<lparr>fe_count = 1, fe_windowStart = now\<rparr>" using le(2) A(1) by simp
    qed (use assms(4) in simp_all)
    then show thesis using that step fresh by (auto simp: fw_step_def)
  next
    case full
    have "two_windows m window now en A" using inv le(2,3) unfolding two_windows_def by (elim conjE) (intro conjI)
    then show thesis using that step full by (auto simp: fw_step_def)
  next
    case next_one
    have "two_windows m window now (en\<lparr>fe_count := fe_count en + 1\<rparr>) (A @ [now])"
    proof (rule two_windows_admit [OF le(1,2)])
      show "A @ [now] = X @ B @ C @ [now]" using A(1) by simp
    qed (use A(2,3,5,6) le(3) next_one assms(4) in simp_all)
    then show thesis using that step next_one by (auto simp: fw_step_def)
  qed
qed

lemma fixed_limit:
  assumes "two_windows m window prev en A" and "sorted (prev # ns)" and "0 \<le> window" "m = max 1 rate"
  shows "in_window window t (A @ entry_admitted (fw_step (rate, window)) ns (Some en)) \<le> 2 * m"
  using assms(1,2)
proof (induction ns arbitrary: prev en A)
  case Nil
  then show ?case by (simp add: two_windows_def)
next
  case (Cons now ns)
  obtain b e' where s: "fw_step (rate, window) now (Some en) = (b, e')" by fastforce
  from two_windows_step [OF Cons.prems(1) _ assms(3,4) s] Cons.prems(2)
  obtain en' where e: "e' = Some en'" "two_windows m window now en' (A @ (if b then [now] else []))" by auto
  show ?case using Cons.IH [OF e(2)] Cons.prems(2) s e(1) by simp
qed

section \<open>Properties\<close>

text \<open>C32: The sliding window answers every call as if it kept the log of all admitted calls of the key, so that the pruning loses
  nothing, and admits at most \<open>rate\<close> calls of a key in any interval of the length of the window.\<close>

theorem sliding_window_exact:
  assumes "sorted (map fst cs)" and "0 < window" and "0 \<le> rate"
  shows "map snd (filter (\<lambda>((t, k'), b). k' = k) (zip cs (calls sw_Allow cs (NewSlidingWindow rate window))))
      = entry_calls (log_step (rate, window)) (times_of k cs) []
    \<and> in_window window t (admitted k cs (calls sw_Allow cs (NewSlidingWindow rate window))) \<le> rate"
proof (cases "times_of k cs")
  case Nil
  then show ?thesis using assms(3)
    by (simp add: sliding.answers_of_key sliding.admitted_of_key NewSlidingWindow_def in_window_def)
next
  case (Cons now ns)
  have s: "sorted (now # times_of k cs)" using sorted_times [OF assms(1), of k] Cons by simp
  have w: "window_of now window [] []" by (auto simp: window_of_def)
  show ?thesis
    using window_log [OF w s assms(2), of rate] log_limit [OF s, of "[]" window rate t] assms(3)
    by (simp add: sliding.answers_of_key sliding.admitted_of_key NewSlidingWindow_def in_window_def)
qed

text \<open>C33: The fixed window admits at most twice its rate in any interval of the length of the window, or two calls if the rate
  is below one.\<close>

theorem fixed_window_bound:
  assumes "sorted (map fst cs)" and "0 \<le> window"
  shows "in_window window t (admitted k cs (calls fw_Allow cs (NewFixedWindow rate window))) \<le> 2 * max 1 rate"
proof (cases "times_of k cs")
  case Nil
  then show ?thesis by (simp add: fixed.admitted_of_key NewFixedWindow_def in_window_def)
next
  case (Cons now ns)
  have s: "sorted (now # ns)" using sorted_times [OF assms(1), of k] Cons by simp
  have "two_windows (max 1 rate) window now \<lparr>fe_count = 1, fe_windowStart = now\<rparr> ([] @ [now])"
    by (rule two_windows_admit [of _ _ _ _ "[]" "[]" "[now]"]) (simp_all add: in_window_def)
  from fixed_limit [OF this s assms(2) refl, of t] show ?thesis
    using Cons by (simp add: fixed.admitted_of_key NewFixedWindow_def fw_step_def)
qed

text \<open>With a rate of zero or less the sliding window refuses every call, while the fixed window admits the first call of every
  key.\<close>

lemma zero_rate_differs:
  assumes "rate \<le> 0"
  shows "fst (sw_Allow now k (NewSlidingWindow rate window)) = False \<and> fst (fw_Allow now k (NewFixedWindow rate window)) = True"
  using assms by (simp add: sw_Allow_def fw_Allow_def NewSlidingWindow_def NewFixedWindow_def)

theorem sliding_window_exact_witness:
  "in_window 10 11 (admitted ''k'' [(0, ''k''), (10, ''k''), (11, ''k''), (11, ''k'')]
     (calls sw_Allow [(0, ''k''), (10, ''k''), (11, ''k''), (11, ''k'')] (NewSlidingWindow 2 10))) \<le> 2"
  using sliding_window_exact [of "[(0, ''k''), (10, ''k''), (11, ''k''), (11, ''k'')]" 10 2 "''k''" 11] by simp

theorem fixed_window_bound_witness:
  "in_window 10 11 (admitted ''k'' [(0, ''k''), (10, ''k''), (11, ''k''), (11, ''k'')]
     (calls fw_Allow [(0, ''k''), (10, ''k''), (11, ''k''), (11, ''k'')] (NewFixedWindow 2 10))) = 3 \<and> (3 :: int) \<le> 2 * max 1 2"
  using fixed_window_bound [of "[(0, ''k''), (10, ''k''), (11, ''k''), (11, ''k'')]" 10 11 "''k''" 2]
  by (simp add: in_window_def admitted_def fw_Allow_def NewFixedWindow_def)

end
