(* ===== verification/Wolf_VO.thy ===== *)
theory Wolf_VO
  imports Wolf_Errors
begin

text \<open>
  Value objects (\<^verbatim>\<open>src/vo\<close>): money on 64-bit integers, and pages with their cursors. \<^verbatim>\<open>int64\<close> is a \<open>64 word\<close> read with \<open>sint\<close>; \<^verbatim>\<open>int\<close> has
  64 bits too. The formats of \<^verbatim>\<open>time\<close> and \<^verbatim>\<open>encoding/base64\<close> are arguments.
\<close>

section \<open>Money\<close>

record money =
  amount :: "64 word"
  currency :: string

definition NewMoney :: "64 word \<Rightarrow> string \<Rightarrow> money + goerr" where
  "NewMoney a cur =
     (if length cur \<noteq> 3 then Inr (NewValidation ''currency'' ''currency must be a 3-character ISO 4217 code'')
      else if sint a < 0 then Inr (NewValidation ''amount'' ''amount must be >= 0'')
      else Inl \<lparr>amount = a, currency = cur\<rparr>)"

definition Add :: "money \<Rightarrow> money \<Rightarrow> money + goerr" where
  "Add m other =
     (if currency m \<noteq> currency other
      then Inr (errorf (''currency mismatch: cannot add '' @ currency other @ '' to '' @ currency m))
      else Inl \<lparr>amount = amount m + amount other, currency = currency m\<rparr>)"

definition Subtract :: "money \<Rightarrow> money \<Rightarrow> money + goerr" where
  "Subtract m other =
     (if currency m \<noteq> currency other
      then Inr (errorf (''currency mismatch: cannot subtract '' @ currency other @ '' from '' @ currency m))
      else let result = amount m - amount other in
        if sint result < 0 then Inr (NewValidation ''amount'' ''subtraction result must be >= 0'')
        else Inl \<lparr>amount = result, currency = currency m\<rparr>)"

definition Multiply :: "money \<Rightarrow> 64 word \<Rightarrow> money" where
  "Multiply m factor = \<lparr>amount = amount m * factor, currency = currency m\<rparr>"

abbreviation IsZero :: "money \<Rightarrow> bool" where
  "IsZero m \<equiv> amount m = 0"

abbreviation Equals :: "money \<Rightarrow> money \<Rightarrow> bool" where
  "Equals m other \<equiv> amount m = amount other \<and> currency m = currency other"

abbreviation money_String :: "money \<Rightarrow> string" where
  "money_String m \<equiv> itoa (sint (amount m)) @ '' '' @ currency m"

section \<open>Pages\<close>

record page_request =
  Cursor :: string
  Limit :: "64 word"

definition page_Validate :: "page_request \<Rightarrow> goerr option" where
  "page_Validate p =
     (if sint (Limit p) < 0 then Some (errorf (''pagination limit must be >= 0, got '' @ itoa (sint (Limit p)))) else None)"

definition EffectiveLimit :: "page_request \<Rightarrow> 64 word" where
  "EffectiveLimit p = (if sint (Limit p) \<le> 0 then 20 else if sint (Limit p) > 100 then 100 else Limit p)"

record 'a page_response =
  Items :: "'a list"
  NextCursor :: string
  HasMore :: bool
  TotalCount :: "64 word"

definition MapPage :: "'a page_response \<Rightarrow> ('a \<Rightarrow> 'b) \<Rightarrow> 'b page_response" where
  "MapPage page fn = \<lparr>Items = map fn (Items page), NextCursor = NextCursor page, HasMore = HasMore page, TotalCount = TotalCount page\<rparr>"

definition EncodeCursor :: "(int \<Rightarrow> string) \<Rightarrow> (string \<Rightarrow> string) \<Rightarrow> int \<Rightarrow> string \<Rightarrow> string" where
  "EncodeCursor FormatRFC3339Nano EncodeToString createdAt i = EncodeToString (FormatRFC3339Nano createdAt @ ''|'' @ i)"

text \<open>\<^verbatim>\<open>strings.SplitN(raw, "|", 2)\<close>: up to the first bar and after it, or the whole string.\<close>

definition split_bar :: "string \<Rightarrow> string list" where
  "split_bar raw = (case dropWhile (\<lambda>c. c \<noteq> CHR ''|'') raw of [] \<Rightarrow> [raw] | _ # rest \<Rightarrow> [takeWhile (\<lambda>c. c \<noteq> CHR ''|'') raw, rest])"

definition DecodeCursor ::
  "(string \<Rightarrow> int + goerr) \<Rightarrow> (string \<Rightarrow> string + goerr) \<Rightarrow> string \<Rightarrow> (int \<times> string) + goerr" where
  "DecodeCursor ParseRFC3339Nano DecodeString cursor =
     (case DecodeString cursor of
        Inr err \<Rightarrow> Inr (errorf_w ''cursor: decode base64'' err)
      | Inl raw \<Rightarrow>
          (case split_bar raw of
             [ts, i] \<Rightarrow>
               (case ParseRFC3339Nano ts of
                  Inr err \<Rightarrow> Inr (errorf_w ''cursor: parse time'' err)
                | Inl t \<Rightarrow> Inl (t, i))
           | _ \<Rightarrow> Inr (errorf ''cursor: invalid format'')))"

section \<open>Wrap-around\<close>

text \<open>The signed value of a result, from the exact result \<open>k\<close>.\<close>

definition wrap64 :: "int \<Rightarrow> int" where
  "wrap64 k = (k + 2 ^ 63) mod 2 ^ 64 - 2 ^ 63"

lemma sint64_ops:
  fixes a b :: "64 word"
  shows "sint (a + b) = wrap64 (sint a + sint b)" "sint (a - b) = wrap64 (sint a - sint b)" "sint (a * b) = wrap64 (sint a * sint b)"
  by (simp_all add: sint_word_ariths wrap64_def signed_take_bit_eq_take_bit_shift take_bit_eq_mod)

lemma sint64_range: "- (2 ^ 63) \<le> sint (a :: 64 word)" "sint (a :: 64 word) < 2 ^ 63"
  using sint_ge [of a] sint_lt [of a] by simp_all

lemma wrap64_id: "- (2 ^ 63) \<le> k \<Longrightarrow> k < 2 ^ 63 \<Longrightarrow> wrap64 k = k"
  by (simp add: wrap64_def)

lemma wrap64_range: "- (2 ^ 63) \<le> wrap64 k" "wrap64 k < 2 ^ 63"
  by (simp_all add: wrap64_def)

lemma wrap64_over: "2 ^ 63 \<le> k \<Longrightarrow> k < 2 ^ 64 \<Longrightarrow> wrap64 k = k - 2 ^ 64"
proof -
  assume k: "2 ^ 63 \<le> k" "k < 2 ^ 64"
  have "(k + 2 ^ 63) mod 2 ^ 64 = (k - 2 ^ 63 + 2 ^ 64) mod 2 ^ 64" by (simp add: add.commute)
  also have "\<dots> = k - 2 ^ 63" using k by (subst mod_add_self2) (simp add: mod_pos_pos_trivial)
  finally show "wrap64 k = k - 2 ^ 64" by (simp add: wrap64_def)
qed

section \<open>Properties\<close>

text \<open>What \<^verbatim>\<open>NewMoney\<close> establishes.\<close>

definition money_ok :: "money \<Rightarrow> bool" where
  "money_ok m \<longleftrightarrow> length (currency m) = 3 \<and> 0 \<le> sint (amount m)"

text \<open>C27: Money from \<^verbatim>\<open>NewMoney\<close> is well-formed. The difference of well-formed money is exact and well-formed whenever there is one,
  and there is one exactly if the currencies agree and it is not negative. There is a sum exactly if the currencies agree, and it
  is exact and well-formed exactly if it fits into 63 bits. The product by a factor is exact exactly if it fits into 64 bits
  with sign, and exact and well-formed exactly if it is moreover not negative. A product that does not fit may still be
  well-formed, with a wrong amount.\<close>

theorem money_well_formed:
  assumes "money_ok m" and "money_ok other"
  shows "(NewMoney a cur = Inl n \<longrightarrow> money_ok n)
    \<and> (Subtract m other = Inl r \<longrightarrow> money_ok r \<and> sint (amount r) = sint (amount m) - sint (amount other))
    \<and> ((\<exists>r. Subtract m other = Inl r) \<longleftrightarrow> currency m = currency other \<and> sint (amount other) \<le> sint (amount m))
    \<and> (Add m other = Inl r \<longrightarrow> (money_ok r \<longleftrightarrow> sint (amount m) + sint (amount other) < 2 ^ 63))
    \<and> (Add m other = Inl r \<longrightarrow> money_ok r \<longrightarrow> sint (amount r) = sint (amount m) + sint (amount other))
    \<and> (sint (amount (Multiply m f)) = sint (amount m) * sint f
         \<longleftrightarrow> - (2 ^ 63) \<le> sint (amount m) * sint f \<and> sint (amount m) * sint f < 2 ^ 63)
    \<and> (money_ok (Multiply m f) \<and> sint (amount (Multiply m f)) = sint (amount m) * sint f
         \<longleftrightarrow> 0 \<le> sint (amount m) * sint f \<and> sint (amount m) * sint f < 2 ^ 63)
    \<and> ((\<exists>r. Add m other = Inl r) \<longleftrightarrow> currency m = currency other)"
proof -
  have p: "0 \<le> sint (amount m)" "0 \<le> sint (amount other)" "length (currency m) = 3" using assms by (auto simp: money_ok_def)
  note b = sint64_range [of "amount m"] sint64_range [of "amount other"]
  have d: "sint (amount m - amount other) = sint (amount m) - sint (amount other)"
    using p b by (simp add: sint64_ops wrap64_id)
  have s: "sint (amount m + amount other) = (if sint (amount m) + sint (amount other) < 2 ^ 63
      then sint (amount m) + sint (amount other) else sint (amount m) + sint (amount other) - 2 ^ 64)"
    using p b by (simp add: sint64_ops wrap64_id wrap64_over)
  have "NewMoney a cur = Inl n \<longrightarrow> money_ok n" by (auto simp: NewMoney_def money_ok_def split: if_splits)
  moreover have "Subtract m other = Inl r \<longrightarrow> money_ok r \<and> sint (amount r) = sint (amount m) - sint (amount other)"
    using p d by (auto simp: Subtract_def money_ok_def Let_def split: if_splits)
  moreover have "(\<exists>r. Subtract m other = Inl r) \<longleftrightarrow> currency m = currency other \<and> sint (amount other) \<le> sint (amount m)"
    using d by (auto simp: Subtract_def Let_def)
  moreover have "Add m other = Inl r \<longrightarrow> (money_ok r \<longleftrightarrow> sint (amount m) + sint (amount other) < 2 ^ 63)"
    using p b s by (auto simp: Add_def money_ok_def split: if_splits)
  moreover have "Add m other = Inl r \<longrightarrow> money_ok r \<longrightarrow> sint (amount r) = sint (amount m) + sint (amount other)"
    using p b s by (auto simp: Add_def money_ok_def split: if_splits)
  moreover have x: "sint (amount (Multiply m f)) = sint (amount m) * sint f
         \<longleftrightarrow> - (2 ^ 63) \<le> sint (amount m) * sint f \<and> sint (amount m) * sint f < 2 ^ 63"
    using wrap64_id [of "sint (amount m) * sint f"] wrap64_range [of "sint (amount m) * sint f"] by (auto simp: Multiply_def sint64_ops)
  moreover have "money_ok (Multiply m f) \<and> sint (amount (Multiply m f)) = sint (amount m) * sint f
         \<longleftrightarrow> 0 \<le> sint (amount m) * sint f \<and> sint (amount m) * sint f < 2 ^ 63"
    using x p(3) by (auto simp: money_ok_def Multiply_def)
  moreover have "(\<exists>r. Add m other = Inl r) \<longleftrightarrow> currency m = currency other" by (auto simp: Add_def)
  ultimately show ?thesis by blast
qed

text \<open>A product that does not fit and is well-formed all the same.\<close>

lemma money_product_wraps:
  "Multiply \<lparr>amount = 2 ^ 62, currency = ''USD''\<rparr> 4 = \<lparr>amount = 0, currency = ''USD''\<rparr>"
  by (simp add: Multiply_def)

text \<open>Two amounts of one currency whose sum does not fit into 63 bits add without an error to a negative amount, which
  \<^verbatim>\<open>NewMoney\<close> would have refused.\<close>

theorem money_add_overflows:
  assumes "money_ok m" and "money_ok other" and "currency m = currency other" and "2 ^ 63 \<le> sint (amount m) + sint (amount other)"
  shows "\<exists>r. Add m other = Inl r \<and> sint (amount r) = sint (amount m) + sint (amount other) - 2 ^ 64 \<and> sint (amount r) < 0
    \<and> NewMoney (amount r) (currency r) = Inr (NewValidation ''amount'' ''amount must be >= 0'')"
proof -
  have "sint (amount m + amount other) = sint (amount m) + sint (amount other) - 2 ^ 64"
    using assms(4) sint64_range [of "amount m"] sint64_range [of "amount other"] by (simp add: sint64_ops wrap64_over)
  moreover have "\<dots> < 0" using sint64_range(2) [of "amount m"] sint64_range(2) [of "amount other"] by simp
  ultimately show ?thesis using assms(1,3) by (simp add: Add_def NewMoney_def money_ok_def)
qed

lemma split_bar_first: "CHR ''|'' \<notin> set ts \<Longrightarrow> split_bar (ts @ CHR ''|'' # i) = [ts, i]"
proof -
  assume "CHR ''|'' \<notin> set ts"
  then have "\<And>c. c \<in> set ts \<Longrightarrow> c \<noteq> CHR ''|''" by auto
  then show ?thesis by (simp add: split_bar_def dropWhile_append2 takeWhile_append2)
qed

text \<open>A cursor decodes to the time and the identifier it was made from, whatever characters the identifier has.\<close>

theorem cursor_round_trip:
  assumes "\<And>x. DecodeString (EncodeToString x) = Inl x" and "ParseRFC3339Nano (FormatRFC3339Nano t) = Inl t"
    and "CHR ''|'' \<notin> set (FormatRFC3339Nano t)"
  shows "DecodeCursor ParseRFC3339Nano DecodeString (EncodeCursor FormatRFC3339Nano EncodeToString t i) = Inl (t, i)"
  using assms by (simp add: DecodeCursor_def EncodeCursor_def split_bar_first)

theorem money_well_formed_witness:
  "(\<exists>r. Subtract \<lparr>amount = 7, currency = ''USD''\<rparr> \<lparr>amount = 5, currency = ''USD''\<rparr> = Inl r)
   \<and> \<not> (\<exists>r. Subtract \<lparr>amount = 5, currency = ''USD''\<rparr> \<lparr>amount = 7, currency = ''USD''\<rparr> = Inl r)
   \<and> money_ok (Multiply \<lparr>amount = 7, currency = ''USD''\<rparr> 3)
   \<and> \<not> money_ok (Multiply \<lparr>amount = 5, currency = ''USD''\<rparr> (-1))"
  using money_well_formed [of "\<lparr>amount = 7, currency = ''USD''\<rparr>" "\<lparr>amount = 5, currency = ''USD''\<rparr>" _ _ _ _ 3]
    money_well_formed [of "\<lparr>amount = 5, currency = ''USD''\<rparr>" "\<lparr>amount = 7, currency = ''USD''\<rparr>" _ _ _ _ "-1"]
  by (simp add: money_ok_def Multiply_def)

theorem money_add_overflows_witness:
  "\<exists>r. Add \<lparr>amount = 9223372036854775807, currency = ''USD''\<rparr> \<lparr>amount = 1, currency = ''USD''\<rparr> = Inl r \<and> sint (amount r) < 0"
  using money_add_overflows [of "\<lparr>amount = 9223372036854775807, currency = ''USD''\<rparr>" "\<lparr>amount = 1, currency = ''USD''\<rparr>"]
  by (auto simp: money_ok_def)

theorem cursor_round_trip_witness:
  "DecodeCursor (\<lambda>x. Inl (int (length x))) Inl (EncodeCursor (\<lambda>t. replicate (nat t) CHR ''0'') id 3 ''a|b'') = Inl (3, ''a|b'')"
  by (rule cursor_round_trip) simp_all

end
