(* ===== verification/Wolf_Serde.thy ===== *)
theory Wolf_Serde
  imports Messenger_Bus
begin

text \<open>
  Serialization of envelopes (\<^verbatim>\<open>src/messenger/serde\<close>): the type registry with its upcasters, and the JSON serializer. A registered Go
  type is the name \<^verbatim>\<open>reflect\<close> gives it. \<^verbatim>\<open>encoding/json\<close> is the record \<open>json\<close> of its uses: of a message, of a stamp and of the wire
  envelope, and back. A raw message is its text.
\<close>

section \<open>Registry\<close>

type_synonym upcaster = "string \<Rightarrow> string + goerr"

record type_registry =
  tr_types :: "string \<rightharpoonup> (int \<rightharpoonup> string)"
  tr_upcasters :: "string \<rightharpoonup> (int \<rightharpoonup> upcaster)"

definition NewTypeRegistry :: type_registry where
  "NewTypeRegistry = \<lparr>tr_types = Map.empty, tr_upcasters = Map.empty\<rparr>"

definition RegisterMessage :: "string \<Rightarrow> type_registry \<Rightarrow> string \<Rightarrow> int \<Rightarrow> type_registry" where
  "RegisterMessage T r name ver =
     (let versions = (case tr_types r name of None \<Rightarrow> Map.empty | Some vs \<Rightarrow> vs) in
      r\<lparr>tr_types := (tr_types r)(name \<mapsto> versions(ver \<mapsto> T))\<rparr>)"

definition RegisterUpcaster :: "type_registry \<Rightarrow> string \<Rightarrow> int \<Rightarrow> upcaster \<Rightarrow> type_registry" where
  "RegisterUpcaster r name fromVersion fn =
     (let versions = (case tr_upcasters r name of None \<Rightarrow> Map.empty | Some vs \<Rightarrow> vs) in
      r\<lparr>tr_upcasters := (tr_upcasters r)(name \<mapsto> versions(fromVersion \<mapsto> fn))\<rparr>)"

text \<open>\<open>order\<close> lists the keys of the map of versions in the order in which the loop ranges over it. A nil type is \<open>None\<close>.\<close>

fun latest_loop :: "(int \<rightharpoonup> string) \<Rightarrow> int list \<Rightarrow> int \<Rightarrow> string option \<Rightarrow> string option \<times> int" where
  "latest_loop versions [] maxVer maxType = (maxType, maxVer)"
| "latest_loop versions (v # vs) maxVer maxType =
     (if v > maxVer then latest_loop versions vs v (versions v) else latest_loop versions vs maxVer maxType)"

definition LatestType :: "((int \<rightharpoonup> string) \<Rightarrow> int list) \<Rightarrow> type_registry \<Rightarrow> string \<Rightarrow> (string option \<times> int) + goerr" where
  "LatestType order r name =
     (case tr_types r name of
        None \<Rightarrow> Inr (errorf (''serde: unknown message type '' @ quote name))
      | Some versions \<Rightarrow> Inl (latest_loop versions (order versions) 0 None))"

definition GetUpcaster :: "type_registry \<Rightarrow> string \<Rightarrow> int \<Rightarrow> upcaster option" where
  "GetUpcaster r name fromVersion =
     (case tr_upcasters r name of None \<Rightarrow> None | Some versions \<Rightarrow> versions fromVersion)"

text \<open>The arrow in the message is the UTF-8 of U+2192.\<close>

function Upcast :: "type_registry \<Rightarrow> string \<Rightarrow> string \<Rightarrow> int \<Rightarrow> int \<Rightarrow> string + goerr" where
  "Upcast r name current v toVersion =
     (if v < toVersion
      then (case GetUpcaster r name v of
              None \<Rightarrow> Inr (errorf (''serde: no upcaster for '' @ quote name @ '' from version '' @ itoa v))
            | Some fn \<Rightarrow>
                (case fn current of
                   Inr err \<Rightarrow> Inr (errorf_w (''serde: upcaster failed for '' @ quote name @ '' v'' @ itoa v
                     @ [CHR 0xE2, CHR 0x86, CHR 0x92] @ ''v'' @ itoa (v + 1)) err)
                 | Inl next \<Rightarrow> Upcast r name next (v + 1) toVersion))
      else Inl current)"
  by pat_completeness auto
termination by (relation "measure (\<lambda>(r, name, current, v, toVersion). nat (toVersion - v))") auto

declare Upcast.simps [simp del]

section \<open>Wire format\<close>

record wire_stamp =
  ws_Name :: string
  ws_Value :: string

record wire_envelope =
  we_SchemaVersion :: int
  we_MessageType :: string
  we_MessageVersion :: int
  we_Payload :: string
  we_Stamps :: "wire_stamp list"
  we_ID :: string
  we_Source :: string
  we_CreatedAt :: int

text \<open>
  \<open>un_stamp name\<close> unmarshals into the struct of that stamp, \<open>un_message T\<close> into a new value of the type \<open>T\<close>.
\<close>

record ('p, 'v) json =
  of_message :: "'p msg \<Rightarrow> string + goerr"
  of_stamp :: "'v stamp \<Rightarrow> string + goerr"
  of_wire :: "wire_envelope \<Rightarrow> string + goerr"
  un_wire :: "string \<Rightarrow> wire_envelope + goerr"
  un_message :: "string \<Rightarrow> string \<Rightarrow> 'p msg + goerr"
  un_stamp :: "string \<Rightarrow> string \<Rightarrow> 'v stamp + goerr"

fun encodeStamps :: "('p, 'v) json \<Rightarrow> 'v stamp list \<Rightarrow> wire_stamp list + goerr" where
  "encodeStamps js [] = Inl []"
| "encodeStamps js (s # ss) =
     (case of_stamp js s of
        Inr err \<Rightarrow> Inr (errorf_w (''serde: marshal stamp '' @ quote (StampName s)) err)
      | Inl val \<Rightarrow>
          (case encodeStamps js ss of Inr err \<Rightarrow> Inr err | Inl ws \<Rightarrow> Inl (\<lparr>ws_Name = StampName s, ws_Value = val\<rparr> # ws)))"

text \<open>The cases of the switch that unmarshal.\<close>

definition decoded_stamps :: "string list" where
  "decoded_stamps = [''messenger.bus_name'', ''messenger.result'', ''messenger.sent'', ''messenger.received'',
     ''messenger.transport_name'', ''messenger.redelivery'', ''messenger.delay'', ''messenger.error'', ''messenger.trace'',
     ''messenger.force_transport'', ''messenger.consumed'', ''messenger.aggregate'', ''messenger.outbox_id'']"

definition decodeStamp :: "('p, 'v) json \<Rightarrow> wire_stamp \<Rightarrow> 'v stamp option" where
  "decodeStamp js ws =
     (if ws_Name ws = NameForceSync then Some ForceSyncStamp
      else if ws_Name ws \<in> set decoded_stamps
      then (case un_stamp js (ws_Name ws) (ws_Value ws) of Inl s \<Rightarrow> Some s | Inr err \<Rightarrow> None)
      else None)"

fun decodeStamps :: "('p, 'v) json \<Rightarrow> wire_stamp list \<Rightarrow> 'v stamp list" where
  "decodeStamps js [] = []"
| "decodeStamps js (ws # rest) =
     (case decodeStamp js ws of Some s \<Rightarrow> s # decodeStamps js rest | None \<Rightarrow> decodeStamps js rest)"

section \<open>Serializer\<close>

record json_serializer =
  sz_registry :: type_registry
  sz_source :: string

text \<open>\<open>MessageVersion\<close> is the method of a \<^verbatim>\<open>Versioned\<close> message, \<open>i\<close> a fresh UUID.\<close>

definition serde_Encode ::
  "('p, 'v) json \<Rightarrow> ('p msg \<Rightarrow> int option) \<Rightarrow> json_serializer \<Rightarrow> string \<Rightarrow> ('p, 'v) envelope \<Rightarrow> string + goerr" where
  "serde_Encode js MessageVersion s i env =
     (case of_message js (Message env) of
        Inr err \<Rightarrow> Inr (errorf_w ''serde: marshal payload'' err)
      | Inl pl \<Rightarrow>
          (case encodeStamps js (stamps env) of
             Inr err \<Rightarrow> Inr err
           | Inl wireStamps \<Rightarrow>
               of_wire js \<lparr>we_SchemaVersion = 1, we_MessageType = TypeNameOf (Message env),
                 we_MessageVersion = (case MessageVersion (Message env) of Some v \<Rightarrow> v | None \<Rightarrow> 1),
                 we_Payload = pl, we_Stamps = wireStamps, we_ID = i, we_Source = sz_source s, we_CreatedAt = env_createdAt env\<rparr>))"

text \<open>Decoding the payload into the type and rebuilding the envelope. \<^verbatim>\<open>reflect.New\<close> panics on a nil type.\<close>

definition decode_payload ::
  "('p, 'v) json \<Rightarrow> wire_envelope \<Rightarrow> string option \<Rightarrow> string \<Rightarrow> (('p, 'v) envelope + goerr) exec" where
  "decode_payload js wire goType pl =
     (case goType of
        None \<Rightarrow> Panic ''reflect: New(nil)''
      | Some T \<Rightarrow>
          (case un_message js T pl of
             Inr err \<Rightarrow> Ret (Inr (errorf_w (''serde: unmarshal payload for '' @ quote (we_MessageType wire)) err))
           | Inl m \<Rightarrow> Ret (Inl (NewEnvelopeWithTime m (we_CreatedAt wire) (decodeStamps js (we_Stamps wire))))))"

definition serde_Decode ::
  "('p, 'v) json \<Rightarrow> ((int \<rightharpoonup> string) \<Rightarrow> int list) \<Rightarrow> json_serializer \<Rightarrow> string \<Rightarrow> (('p, 'v) envelope + goerr) exec" where
  "serde_Decode js order s data =
     (case un_wire js data of
        Inr err \<Rightarrow> Ret (Inr (errorf_w ''serde: unmarshal wire'' err))
      | Inl wire \<Rightarrow>
          (case LatestType order (sz_registry s) (we_MessageType wire) of
             Inr err \<Rightarrow> Ret (Inr err)
           | Inl (goType, latestVersion) \<Rightarrow>
               if we_MessageVersion wire < latestVersion
               then (case Upcast (sz_registry s) (we_MessageType wire) (we_Payload wire) (we_MessageVersion wire) latestVersion of
                       Inr err \<Rightarrow> Ret (Inr err)
                     | Inl pl \<Rightarrow> decode_payload js wire goType pl)
               else decode_payload js wire goType (we_Payload wire)))"

section \<open>The latest version\<close>

text \<open>Whatever the order of the range, the loop finds the largest positive version.\<close>

lemma latest_loop_max:
  "snd (latest_loop versions vs m T) = Max (insert m (set vs)) \<and>
   fst (latest_loop versions vs m T) = (if Max (insert m (set vs)) = m then T else versions (Max (insert m (set vs))))"
proof (induction vs arbitrary: m T)
  case (Cons v vs)
  show ?case
  proof (cases "v > m")
    case True
    have ge: "v \<le> Max (insert v (set vs))" by (rule Max_ge) simp_all
    have "Max (insert m (set (v # vs))) = max m (Max (insert v (set vs)))" by (subst Max_insert) simp_all
    moreover have gt: "m < Max (insert v (set vs))" using ge True by linarith
    ultimately have "Max (insert m (set (v # vs))) = Max (insert v (set vs))" by (simp only: max_absorb2 less_imp_le)
    then show ?thesis using Cons [of v "versions v"] True gt by (auto simp del: Max_insert)
  next
    case False
    have ge: "m \<le> Max (insert m (set vs))" by (rule Max_ge) simp_all
    have "insert m (set (v # vs)) = insert v (insert m (set vs))" by auto
    then have "Max (insert m (set (v # vs))) = max v (Max (insert m (set vs)))" by (simp only:) (rule Max_insert, simp_all)
    moreover have "v \<le> Max (insert m (set vs))" using ge False by linarith
    ultimately have "Max (insert m (set (v # vs))) = Max (insert m (set vs))" by (simp only: max_absorb2)
    then show ?thesis using Cons [of m T] False by simp
  qed
qed simp

definition latest_version :: "(int \<rightharpoonup> string) \<Rightarrow> int" where
  "latest_version versions = Max (insert 0 (dom versions))"

lemma LatestType_latest:
  assumes "tr_types r name = Some versions" and "ranges (order versions) versions"
  shows "LatestType order r name = Inl (if latest_version versions = 0 then None else versions (latest_version versions), latest_version versions)"
  using latest_loop_max [of versions "order versions" 0 None] rangesD(2) [OF assms(2)] assms(1)
  by (simp add: LatestType_def latest_version_def prod_eq_iff)

section \<open>Properties\<close>

text \<open>The stamps that survive the wire, and what is assumed of \<^verbatim>\<open>encoding/json\<close> for a stamp.\<close>

definition on_wire :: "'v stamp \<Rightarrow> bool" where
  "on_wire s \<longleftrightarrow> StampName s = NameForceSync \<or> StampName s \<in> set decoded_stamps"

definition stamp_ok :: "('p, 'v) json \<Rightarrow> 'v stamp \<Rightarrow> bool" where
  "stamp_ok js s \<longleftrightarrow> (\<exists>val. of_stamp js s = Inl val \<and> (StampName s = NameForceSync \<longrightarrow> s = ForceSyncStamp) \<and>
     (StampName s \<in> set decoded_stamps \<longrightarrow> un_stamp js (StampName s) val = Inl s))"

lemma stamps_round_trip:
  assumes "\<forall>s \<in> set ss. stamp_ok js s"
  shows "\<exists>ws. encodeStamps js ss = Inl ws \<and> decodeStamps js ws = filter on_wire ss"
  using assms
proof (induction ss)
  case (Cons s ss)
  then obtain ws where ws: "encodeStamps js ss = Inl ws" "decodeStamps js ws = filter on_wire ss" by auto
  obtain val where val: "of_stamp js s = Inl val" "StampName s = NameForceSync \<longrightarrow> s = ForceSyncStamp"
      "StampName s \<in> set decoded_stamps \<longrightarrow> un_stamp js (StampName s) val = Inl s"
    using Cons.prems by (auto simp: stamp_ok_def)
  then show ?case using ws by (auto simp: decodeStamp_def on_wire_def [of s])
qed simp

text \<open>C28: An envelope whose message has the latest registered version is decoded to itself, without the stamps the serializer does
  not know.\<close>

theorem serde_round_trip:
  assumes json: "\<forall>s \<in> set (stamps env). stamp_ok js s" "of_message js (Message env) = Inl pl" "un_message js T pl = Inl (Message env)"
      "\<And>w. of_wire js w = Inl data \<Longrightarrow> un_wire js data = Inl w"
    and reg: "tr_types (sz_registry s) (TypeNameOf (Message env)) = Some versions" "ranges (order versions) versions"
      "versions v = Some T" "v = latest_version versions" "0 < v" "v = (case MessageVersion (Message env) of Some v \<Rightarrow> v | None \<Rightarrow> 1)"
    and enc: "serde_Encode js MessageVersion s i env = Inl data"
  shows "serde_Decode js order s data = Ret (Inl (env\<lparr>stamps := filter on_wire (stamps env)\<rparr>))"
proof -
  obtain ws where ws: "encodeStamps js (stamps env) = Inl ws" "decodeStamps js ws = filter on_wire (stamps env)"
    using stamps_round_trip [OF json(1)] by blast
  let ?w = "\<lparr>we_SchemaVersion = 1, we_MessageType = TypeNameOf (Message env), we_MessageVersion = v, we_Payload = pl, we_Stamps = ws,
    we_ID = i, we_Source = sz_source s, we_CreatedAt = env_createdAt env\<rparr>"
  have "of_wire js ?w = Inl data" using enc json(2) ws(1) reg(6) by (simp add: serde_Encode_def)
  then have "un_wire js data = Inl ?w" by (rule json(4))
  moreover have "LatestType order (sz_registry s) (TypeNameOf (Message env)) = Inl (Some T, v)"
    using LatestType_latest [where order = order, OF reg(1,2)] reg(3-5) by simp
  ultimately show ?thesis
    using ws(2) json(3) by (simp add: serde_Decode_def decode_payload_def NewEnvelopeWithTime_def)
qed

lemma Upcast_same [simp]: "Upcast r name d v v = Inl d"
  by (simp add: Upcast.simps)

lemma Upcast_split:
  assumes "a \<le> b" and "b \<le> c" and "Upcast r name d a b = Inl d'"
  shows "Upcast r name d a c = Upcast r name d' b c"
  using assms
proof (induction r name d a b rule: Upcast.induct)
  case (1 r name d a b)
  show ?case
  proof (cases "a < b")
    case True
    with "1.prems"(3) obtain fn n where fn: "GetUpcaster r name a = Some fn" "fn d = Inl n" "Upcast r name n (a + 1) b = Inl d'"
      by (subst (asm) Upcast.simps) (auto split: option.splits sum.splits)
    have "Upcast r name d a c = Upcast r name n (a + 1) c" using fn True "1.prems"(2) by (subst Upcast.simps) simp
    also have "\<dots> = Upcast r name d' b c" using "1.IH" [OF True fn(1,2)] fn(3) True "1.prems"(2) by simp
    finally show ?thesis .
  next
    case False
    then have "a = b" using "1.prems"(1) by simp
    then show ?thesis using "1.prems"(3) by simp
  qed
qed

text \<open>C29: A message of an old version decodes like the same message migrated by the upcasters to any later version that is
  not newer than the latest.\<close>

theorem old_versions_decode_alike:
  assumes "un_wire js data = Inl w" and "un_wire js data' = Inl (w\<lparr>we_MessageVersion := b, we_Payload := pl\<rparr>)"
    and "LatestType order (sz_registry s) (we_MessageType w) = Inl (T, latest)"
    and "we_MessageVersion w \<le> b" and "b \<le> latest"
    and "Upcast (sz_registry s) (we_MessageType w) (we_Payload w) (we_MessageVersion w) b = Inl pl"
  shows "serde_Decode js order s data = serde_Decode js order s data'"
proof -
  have up: "Upcast (sz_registry s) (we_MessageType w) (we_Payload w) (we_MessageVersion w) latest
      = Upcast (sz_registry s) (we_MessageType w) pl b latest"
    by (rule Upcast_split [OF assms(4,5,6)])
  show ?thesis
    using assms(1-5) up assms(6)
    by (cases "we_MessageVersion w < latest"; cases "b < latest")
       (auto simp: serde_Decode_def decode_payload_def split: option.splits sum.splits)
qed

text \<open>If every registered version of a type is zero or negative, decoding a message of the type panics.\<close>

theorem version_zero_panics:
  assumes "un_wire js data = Inl w" and "tr_types (sz_registry s) (we_MessageType w) = Some versions"
    and "ranges (order versions) versions" and "\<And>v. v \<in> dom versions \<Longrightarrow> v \<le> 0" and "0 \<le> we_MessageVersion w"
  shows "serde_Decode js order s data = Panic ''reflect: New(nil)''"
proof -
  have "finite (dom versions)" using rangesD(2) [OF assms(3)] by (metis finite_set)
  then have "latest_version versions = 0" unfolding latest_version_def using assms(4) by (intro Max_eqI) auto
  then have "LatestType order (sz_registry s) (we_MessageType w) = Inl (None, 0)"
    using LatestType_latest [where order = order, OF assms(2,3)] by simp
  then show ?thesis using assms(1,5) by (simp add: serde_Decode_def decode_payload_def)
qed

section \<open>Witnesses\<close>

definition serde_sample_env :: "(unit, unit) envelope" where
  "serde_sample_env = \<lparr>Message = \<lparr>m_rtype = ''T'', m_name = None, m_value = ()\<rparr>, stamps = [ForceSyncStamp, MemoryIDStamp ''1''], env_createdAt = 7\<rparr>"

definition serde_sample_wire :: wire_envelope where
  "serde_sample_wire = \<lparr>we_SchemaVersion = 1, we_MessageType = ''T'', we_MessageVersion = 1, we_Payload = ''p'',
     we_Stamps = [\<lparr>ws_Name = NameForceSync, ws_Value = ''s''\<rparr>, \<lparr>ws_Name = NameMemoryID, ws_Value = ''s''\<rparr>],
     we_ID = ''i'', we_Source = ''src'', we_CreatedAt = 7\<rparr>"

definition serde_sample_json :: "(unit, unit) json" where
  "serde_sample_json = \<lparr>of_message = (\<lambda>_. Inl ''p''), of_stamp = (\<lambda>_. Inl ''s''),
     of_wire = (\<lambda>w. if w = serde_sample_wire then Inl ''w'' else Inr (ErrorsNew ''unsupported'')),
     un_wire = (\<lambda>d. if d = ''w'' then Inl serde_sample_wire
       else Inl (serde_sample_wire\<lparr>we_MessageVersion := 2, we_Payload := ''pq''\<rparr>)),
     un_message = (\<lambda>T _. Inl \<lparr>m_rtype = T, m_name = None, m_value = ()\<rparr>), un_stamp = (\<lambda>_ _. Inr (ErrorsNew ''unsupported''))\<rparr>"

abbreviation serde_sample :: "int \<Rightarrow> json_serializer" where
  "serde_sample v \<equiv> \<lparr>sz_registry = RegisterUpcaster (RegisterMessage ''T'' NewTypeRegistry ''T'' v) ''T'' 1 (\<lambda>d. Inl (d @ ''q'')), sz_source = ''src''\<rparr>"

lemma serde_sample_types [simp]:
  "tr_types (RegisterUpcaster (RegisterMessage T NewTypeRegistry n v) n' k f) = [n \<mapsto> [v \<mapsto> T]]"
  by (simp add: RegisterUpcaster_def RegisterMessage_def NewTypeRegistry_def Let_def)

lemma serde_sample_latest [simp]: "latest_version [v \<mapsto> T] = max 0 v"
  by (simp add: latest_version_def)

theorem serde_round_trip_witness:
  "serde_Decode serde_sample_json (\<lambda>_. [1]) (serde_sample 1) ''w'' = Ret (Inl (serde_sample_env\<lparr>stamps := [ForceSyncStamp]\<rparr>))"
proof -
  have enc: "serde_Encode serde_sample_json (\<lambda>_. None) (serde_sample 1) ''i'' serde_sample_env = Inl ''w''"
    by (simp add: serde_Encode_def serde_sample_json_def serde_sample_env_def serde_sample_wire_def TypeNameOf_def)
  have "serde_Decode serde_sample_json (\<lambda>_. [1]) (serde_sample 1) ''w''
      = Ret (Inl (serde_sample_env\<lparr>stamps := filter on_wire (stamps serde_sample_env)\<rparr>))"
  proof (rule serde_round_trip [where pl = "''p''" and T = "''T''" and versions = "[1 \<mapsto> ''T'']" and v = 1, OF _ _ _ _ _ _ _ _ _ _ enc])
    show "\<forall>s \<in> set (stamps serde_sample_env). stamp_ok serde_sample_json s"
      by (simp add: serde_sample_env_def serde_sample_json_def stamp_ok_def decoded_stamps_def stamp_name_defs)
  qed (simp_all add: serde_sample_json_def serde_sample_env_def TypeNameOf_def ranges_def split: if_splits)
  then show ?thesis by (simp add: serde_sample_env_def on_wire_def decoded_stamps_def stamp_name_defs)
qed

theorem old_versions_decode_alike_witness:
  "serde_Decode serde_sample_json (\<lambda>_. [2]) (serde_sample 2) ''w'' = serde_Decode serde_sample_json (\<lambda>_. [2]) (serde_sample 2) ''x''"
proof (rule old_versions_decode_alike [where w = serde_sample_wire and b = 2 and pl = "''pq''" and T = "Some ''T''" and latest = 2])
  show "Upcast (sz_registry (serde_sample 2)) (we_MessageType serde_sample_wire) (we_Payload serde_sample_wire)
      (we_MessageVersion serde_sample_wire) 2 = Inl ''pq''"
    by (simp add: serde_sample_wire_def Upcast.simps GetUpcaster_def RegisterUpcaster_def RegisterMessage_def NewTypeRegistry_def Let_def)
  show "LatestType (\<lambda>_. [2]) (sz_registry (serde_sample 2)) (we_MessageType serde_sample_wire) = Inl (Some ''T'', 2)"
    by (subst LatestType_latest [where versions = "[2 \<mapsto> ''T'']"]) (simp_all add: serde_sample_wire_def ranges_def)
qed (simp_all add: serde_sample_json_def serde_sample_wire_def)

theorem version_zero_panics_witness:
  "serde_Decode serde_sample_json (\<lambda>_. [0]) (serde_sample 0) ''w'' = Panic ''reflect: New(nil)''"
  by (rule version_zero_panics [where w = serde_sample_wire and versions = "[0 \<mapsto> ''T'']"])
     (simp_all add: serde_sample_json_def serde_sample_wire_def ranges_def split: if_splits)

end
