(* ===== verification/Wolf_Authz.thy ===== *)
theory Wolf_Authz
  imports Wolf_JWT Error_Mapping
begin

text \<open>
  Access control (\<^verbatim>\<open>src/infra/middleware/http\<close>, \<^verbatim>\<open>src/infra/middleware/grpc\<close>, \<^verbatim>\<open>src/auth/context.go\<close>): the middlewares and
  interceptors that authenticate a request by its token and admit it by the roles and permissions of the user, and the
  middleware for API keys. A gin middleware takes the request and the rest of the handler chain; one that neither calls
  the rest nor aborts does not occur. The validator of tokens is an argument, which the properties instantiate with the
  JWT service. Log lines are left out.
\<close>

section \<open>Requests\<close>

text \<open>The request with its path parameters, the claims in its context and the keys set on the gin context.\<close>

record http_ctx =
  hc_request :: gin_request
  hc_params :: "string \<rightharpoonup> string"
  hc_claims :: "user_claims option"
  hc_keys :: "string \<rightharpoonup> string"

type_synonym 'w gin_handler = "http_ctx \<Rightarrow> ('w, gin_call list) go"
type_synonym 'w gin_middleware = "http_ctx \<Rightarrow> 'w gin_handler \<Rightarrow> ('w, gin_call list) go"
type_synonym 'w validator = "string \<Rightarrow> ('w, user_claims + goerr) go"

abbreviation GetHeader :: "http_ctx \<Rightarrow> string \<Rightarrow> string" where
  "GetHeader c name \<equiv> get_str (headers (hc_request c)) name"

abbreviation Param :: "http_ctx \<Rightarrow> string \<Rightarrow> string" where
  "Param c name \<equiv> get_str (hc_params c) name"

text \<open>The handlers of a route, the middlewares first.\<close>

fun gin_chain :: "'w gin_middleware list \<Rightarrow> 'w gin_handler \<Rightarrow> 'w gin_handler" where
  "gin_chain [] h c = h c"
| "gin_chain (m # ms) h c = m c (gin_chain ms h)"

section \<open>HTTP authentication\<close>

definition parseBearerToken :: "string \<Rightarrow> string option" where
  "parseBearerToken header =
     (let prefix = ''Bearer '' in
      if \<not> has_prefix header prefix then None
      else let token = trim_space (drop (length prefix) header) in
        if token = [] then None else Some token)"

definition Auth_Handler :: "'w validator \<Rightarrow> 'w gin_middleware" where
  "Auth_Handler validator c rest =
     (let raw = GetHeader c ''Authorization'' in
      if raw = [] then go_return (writeAuthError (hc_request c) (NewUnauthorized ''authorization header is required''))
      else case parseBearerToken raw of
        None \<Rightarrow> go_return (writeAuthError (hc_request c) (NewUnauthorized (''authorization header must be 'Bearer <token>'' @ [CHR 0x27])))
      | Some tokenString \<Rightarrow>
          go_bind (validator tokenString) (\<lambda>v.
            case v of
              Inr err \<Rightarrow> go_return (writeAuthError (hc_request c) err)
            | Inl claims \<Rightarrow>
                rest (c\<lparr>hc_claims := Some claims, hc_keys := (hc_keys c)(''user_id'' \<mapsto> uc_UserID claims)\<rparr>)))"

section \<open>HTTP role and permission checks\<close>

text \<open>The claims are shared by pointer: a check that builds their sets builds them for the rest of the chain too.\<close>

abbreviation unauthenticated :: "http_ctx \<Rightarrow> ('w, gin_call list) go" where
  "unauthenticated c \<equiv> go_return (AbortUnauthorized (hc_request c) (err_text (NewUnauthorized ''authentication required'')))"

definition RequireRoles :: "string list \<Rightarrow> 'w gin_middleware" where
  "RequireRoles roles c rest =
     (case hc_claims c of
        None \<Rightarrow> unauthenticated c
      | Some claims \<Rightarrow>
          (case HasAnyRole claims roles of (ok, claims') \<Rightarrow>
             if \<not> ok then go_return (AbortForbidden (hc_request c) (err_text (NewInsufficientRole roles)))
             else rest (c\<lparr>hc_claims := Some claims'\<rparr>)))"

text \<open>The first permission the user lacks, and the claims after the checks up to it.\<close>

fun missing_permission :: "user_claims \<Rightarrow> string list \<Rightarrow> string option \<times> user_claims" where
  "missing_permission claims [] = (None, claims)"
| "missing_permission claims (perm # perms) =
     (case HasPermission claims perm of (ok, claims') \<Rightarrow>
        if \<not> ok then (Some perm, claims') else missing_permission claims' perms)"

definition RequirePermissions :: "string list \<Rightarrow> 'w gin_middleware" where
  "RequirePermissions perms c rest =
     (case hc_claims c of
        None \<Rightarrow> unauthenticated c
      | Some claims \<Rightarrow>
          (case missing_permission claims perms of
             (Some perm, claims') \<Rightarrow>
               go_return (AbortForbidden (hc_request c) (err_text (NewInsufficientPermission perm)))
           | (None, claims') \<Rightarrow> rest (c\<lparr>hc_claims := Some claims'\<rparr>)))"

text \<open>The operands of a disjunction are evaluated from the left, the second only if the first is false.\<close>

definition RequireSelf :: "string \<Rightarrow> 'w gin_middleware" where
  "RequireSelf paramName c rest =
     (case hc_claims c of
        None \<Rightarrow> unauthenticated c
      | Some claims \<Rightarrow>
          let resourceID = Param c paramName in
          if uc_UserID claims = resourceID then rest c
          else (case HasRole claims ''admin'' of (ok, claims') \<Rightarrow>
             if ok then rest (c\<lparr>hc_claims := Some claims'\<rparr>)
             else go_return (AbortForbidden (hc_request c)
               (err_text (NewForbidden ''access denied: you can only access your own resources'')))))"

definition RequireRolesOrSelf :: "string \<Rightarrow> string list \<Rightarrow> 'w gin_middleware" where
  "RequireRolesOrSelf paramName roles c rest =
     (case hc_claims c of
        None \<Rightarrow> unauthenticated c
      | Some claims \<Rightarrow>
          let resourceID = Param c paramName in
          (case HasAnyRole claims roles of (ok, claims') \<Rightarrow>
             if ok \<or> uc_UserID claims = resourceID then rest (c\<lparr>hc_claims := Some claims'\<rparr>)
             else go_return (AbortForbidden (hc_request c) (err_text (NewInsufficientRole roles)))))"

section \<open>API keys\<close>

text \<open>The digest is the library's SHA-256; \<open>ks\<close> is the order in which the map is ranged over.\<close>

definition NewAPIKeyMiddleware :: "(string \<Rightarrow> 'h) \<Rightarrow> (string \<rightharpoonup> string) \<Rightarrow> (string \<rightharpoonup> 'h)" where
  "NewAPIKeyMiddleware Sum256 keys = (\<lambda>service. map_option Sum256 (keys service))"

definition APIKey_Handler ::
  "(string \<Rightarrow> 'h) \<Rightarrow> string list \<Rightarrow> (string \<rightharpoonup> 'h) \<Rightarrow> 'w gin_middleware" where
  "APIKey_Handler Sum256 ks keyHashes c rest =
     (let rawKey = GetHeader c ''X-API-Key'' in
      if rawKey = [] then go_return (AbortUnauthorized (hc_request c) ''X-API-Key header is required'')
      else
        let provided = Sum256 rawKey in
        case find (\<lambda>service. keyHashes service = Some provided) ks of
          Some service \<Rightarrow> rest (c\<lparr>hc_keys := (hc_keys c)(''api_key_service'' \<mapsto> service)\<rparr>)
        | None \<Rightarrow> go_return (AbortUnauthorized (hc_request c) ''invalid API key''))"

section \<open>gRPC interceptors\<close>

record grpc_ctx =
  gc_metadata :: "(string \<rightharpoonup> string list) option"
  gc_claims :: "user_claims option"

type_synonym 'r grpc_result = "'r option \<times> (goerr + grpc_status) option"
type_synonym ('w, 'q, 'r) grpc_handler = "grpc_ctx \<Rightarrow> 'q \<Rightarrow> ('w, 'r grpc_result) go"

abbreviation status_Error :: "grpc_code \<Rightarrow> string \<Rightarrow> ('w, 'r grpc_result) go" where
  "status_Error code msg \<equiv> go_return (None, Some (Inr (code, msg)))"

record 'w auth_interceptor =
  ai_validator :: "'w validator"
  ai_publicMethods :: "string set"

definition NewAuthInterceptor :: "'w validator \<Rightarrow> string list \<Rightarrow> 'w auth_interceptor" where
  "NewAuthInterceptor validator publicMethods =
     \<lparr>ai_validator = validator, ai_publicMethods = fold insert publicMethods {}\<rparr>"

definition extractBearerToken :: "grpc_ctx \<Rightarrow> string + grpc_status" where
  "extractBearerToken ctx =
     (case gc_metadata ctx of
        None \<Rightarrow> Inr (Unauthenticated, ''missing metadata'')
      | Some md \<Rightarrow>
          (case md ''authorization'' of
             None \<Rightarrow> Inr (Unauthenticated, ''authorization header is required'')
           | Some [] \<Rightarrow> Inr (Unauthenticated, ''authorization header is required'')
           | Some (raw # _) \<Rightarrow>
               let prefix = ''Bearer '' in
               if \<not> has_prefix raw prefix
               then Inr (Unauthenticated, (''authorization header must be 'Bearer <token>'' @ [CHR 0x27]))
               else let token = trim_space (drop (length prefix) raw) in
                 if token = [] then Inr (Unauthenticated, ''authorization token is empty'') else Inl token))"

definition Auth_UnaryInterceptor ::
  "'w auth_interceptor \<Rightarrow> string \<Rightarrow> ('w, 'q, 'r) grpc_handler \<Rightarrow> ('w, 'q, 'r) grpc_handler" where
  "Auth_UnaryInterceptor i FullMethod handler ctx req =
     (if FullMethod \<in> ai_publicMethods i then handler ctx req
      else case extractBearerToken ctx of
        Inr st \<Rightarrow> go_return (None, Some (Inr st))
      | Inl tokenString \<Rightarrow>
          go_bind (ai_validator i tokenString) (\<lambda>v.
            case v of
              Inr err \<Rightarrow> go_return (None, Some (Inr (mapAuthError err)))
            | Inl claims \<Rightarrow> handler (ctx\<lparr>gc_claims := Some claims\<rparr>) req))"

record rbac_rule =
  rule_Roles :: "string list"
  rule_Permissions :: "string list"

definition RBAC_UnaryInterceptor ::
  "(string \<rightharpoonup> rbac_rule) \<Rightarrow> string \<Rightarrow> ('w, 'q, 'r) grpc_handler \<Rightarrow> ('w, 'q, 'r) grpc_handler" where
  "RBAC_UnaryInterceptor rules FullMethod handler ctx req =
     (case rules FullMethod of
        None \<Rightarrow> handler ctx req
      | Some rule \<Rightarrow>
          (case gc_claims ctx of
             None \<Rightarrow> status_Error Unauthenticated (err_text (NewUnauthorized ''authentication required''))
           | Some claims \<Rightarrow>
               (case (if rule_Roles rule \<noteq> [] then HasAnyRole claims (rule_Roles rule) else (True, claims)) of (ok, claims1) \<Rightarrow>
                  if \<not> ok then status_Error PermissionDenied (err_text (NewInsufficientRole (rule_Roles rule)))
                  else (case missing_permission claims1 (rule_Permissions rule) of
                      (Some perm, _) \<Rightarrow> status_Error PermissionDenied (err_text (NewInsufficientPermission perm))
                    | (None, claims2) \<Rightarrow> handler (ctx\<lparr>gc_claims := Some claims2\<rparr>) req))))"

section \<open>What the checks decide\<close>

text \<open>The cached sets of the claims, where they are built, are those of the lists.\<close>

definition faithful :: "user_claims \<Rightarrow> bool" where
  "faithful u \<longleftrightarrow>
     (case uc_roleSet u of None \<Rightarrow> \<not> uc_initOnce u | Some S \<Rightarrow> S = set (uc_Roles u)) \<and>
     (case uc_permSet u of None \<Rightarrow> \<not> uc_initOnce u | Some S \<Rightarrow> S = set (uc_Permissions u))"

lemma faithful_New [simp]: "faithful (NewUserClaims a b rs ps s i e)"
  by (simp add: faithful_def NewUserClaims_def)

lemma ensureSets_sets:
  assumes "faithful u"
  shows "uc_roleSet (ensureSets u) = Some (set (uc_Roles u))" "uc_permSet (ensureSets u) = Some (set (uc_Permissions u))"
  using assms by (auto simp: faithful_def ensureSets_def split: option.splits)

lemma ensureSets_fields [simp]:
  "uc_Roles (ensureSets u) = uc_Roles u" "uc_Permissions (ensureSets u) = uc_Permissions u"
  "uc_UserID (ensureSets u) = uc_UserID u" "uc_initOnce (ensureSets u)" "ensureSets (ensureSets u) = ensureSets u"
  by (simp_all add: ensureSets_def)

lemma faithful_ensureSets [simp]: "faithful u \<Longrightarrow> faithful (ensureSets u)"
  using ensureSets_sets [of u] by (simp add: faithful_def)

lemma checks_faithful:
  assumes "faithful u"
  shows "HasAnyRole u rs = (list_ex (\<lambda>r. r \<in> set (uc_Roles u)) rs, ensureSets u)"
    and "HasRole u r = (r \<in> set (uc_Roles u), ensureSets u)"
    and "HasPermission u p = (p \<in> set (uc_Permissions u), ensureSets u)"
  using ensureSets_sets [OF assms] by (simp_all add: HasAnyRole_def HasRole_def HasPermission_def Let_def)

lemma missing_permission_find:
  assumes "faithful u"
  shows "missing_permission u ps =
    (find (\<lambda>p. p \<notin> set (uc_Permissions u)) ps, if ps = [] then u else ensureSets u)"
  using assms
proof (induction ps arbitrary: u)
  case (Cons p ps)
  have "faithful (ensureSets u)" using Cons.prems by simp
  from Cons.IH [OF this] show ?case by (simp add: checks_faithful(3) [OF Cons.prems])
qed simp

text \<open>
  The rule both transports enforce: one of the roles, where there are any, and all of the permissions. \<open>denial\<close> is the
  text of the refusal, \<open>checked\<close> the claims as the checks leave them.
\<close>

definition admitted :: "rbac_rule \<Rightarrow> string list \<Rightarrow> string list \<Rightarrow> bool" where
  "admitted rule roles perms \<longleftrightarrow>
     (rule_Roles rule = [] \<or> list_ex (\<lambda>r. r \<in> set roles) (rule_Roles rule)) \<and> set (rule_Permissions rule) \<subseteq> set perms"

definition denial :: "rbac_rule \<Rightarrow> user_claims \<Rightarrow> string" where
  "denial rule u = err_text
     (if rule_Roles rule = [] \<or> list_ex (\<lambda>r. r \<in> set (uc_Roles u)) (rule_Roles rule)
      then NewInsufficientPermission (the (find (\<lambda>p. p \<notin> set (uc_Permissions u)) (rule_Permissions rule)))
      else NewInsufficientRole (rule_Roles rule))"

definition checked :: "rbac_rule \<Rightarrow> user_claims \<Rightarrow> user_claims" where
  "checked rule u = (if rule_Roles rule = [] \<and> rule_Permissions rule = [] then u else ensureSets u)"

text \<open>
  The HTTP middlewares that a service puts before a route to enforce a rule: the repository has the two middlewares and
  leaves their composition to its users. The interceptor of gRPC skips the role check of a rule without roles, so such a
  rule is written here without \<open>RequireRoles\<close>, which refuses everybody when it is given no role.
\<close>

definition rule_guards :: "rbac_rule \<Rightarrow> 'w gin_middleware list" where
  "rule_guards rule =
     (if rule_Roles rule = [] then [] else [RequireRoles (rule_Roles rule)]) @ [RequirePermissions (rule_Permissions rule)]"

lemma RequireRoles_none:
  "faithful u \<Longrightarrow> RequireRoles [] (c\<lparr>hc_claims := Some u\<rparr>) rest =
     go_return (AbortForbidden (hc_request c) (err_text (NewInsufficientRole [])))"
  by (simp add: RequireRoles_def checks_faithful)

lemma AbortWithError_call: "\<exists>resp. AbortWithError c st code msg = [AbortWithStatusJSON st resp]"
  by (simp add: AbortWithError_def Let_def)

lemma refusals:
  "\<exists>resp. go_return (AbortForbidden c msg) = go_return [AbortWithStatusJSON 403 resp]"
  "\<exists>resp. go_return (AbortUnauthorized c msg) = go_return [AbortWithStatusJSON 401 resp]"
  using AbortWithError_call [of c 403 ErrForbidden msg] AbortWithError_call [of c 401 ErrUnauthorized msg]
  by (auto simp: AbortForbidden_def AbortUnauthorized_def)

lemma find_none_subset: "find (\<lambda>p. p \<notin> S) ps = None \<longleftrightarrow> set ps \<subseteq> S"
  by (auto simp: find_None_iff)

lemma gin_chain_Nil [simp]: "gin_chain [] h = h"
  by (simp add: fun_eq_iff)

lemma RequirePermissions_decides:
  assumes "faithful u"
  shows "RequirePermissions ps (c\<lparr>hc_claims := Some u\<rparr>) rest =
    (if set ps \<subseteq> set (uc_Permissions u) then rest (c\<lparr>hc_claims := Some (if ps = [] then u else ensureSets u)\<rparr>)
     else go_return (AbortForbidden (hc_request c)
       (err_text (NewInsufficientPermission (the (find (\<lambda>p. p \<notin> set (uc_Permissions u)) ps))))))"
  using find_none_subset [of "set (uc_Permissions u)" ps]
  by (auto simp: RequirePermissions_def missing_permission_find [OF assms] split: option.splits)

lemma rule_guards_decide:
  assumes "faithful u"
  shows "gin_chain (rule_guards rule) h (c\<lparr>hc_claims := Some u\<rparr>) =
    (if admitted rule (uc_Roles u) (uc_Permissions u) then h (c\<lparr>hc_claims := Some (checked rule u)\<rparr>)
     else go_return (AbortForbidden (hc_request c) (denial rule u)))"
  using assms
  by (auto simp: rule_guards_def RequireRoles_def checks_faithful RequirePermissions_decides admitted_def denial_def
      checked_def)

lemma RBAC_decides:
  assumes "faithful u" and "gc_claims ctx = Some u" and "rules m = Some rule"
  shows "RBAC_UnaryInterceptor rules m h ctx req =
    (if admitted rule (uc_Roles u) (uc_Permissions u) then h (ctx\<lparr>gc_claims := Some (checked rule u)\<rparr>) req
     else status_Error PermissionDenied (denial rule u))"
proof -
  have "faithful (ensureSets u)" using assms(1) by simp
  note find = missing_permission_find [OF assms(1)] missing_permission_find [OF this]
  have same: "ctx\<lparr>gc_claims := Some u\<rparr> = ctx" using assms(2) by (cases ctx) simp
  show ?thesis
    using find_none_subset [of "set (uc_Permissions u)" "rule_Permissions rule"] assms same
    by (auto simp: RBAC_UnaryInterceptor_def checks_faithful find admitted_def denial_def checked_def split: option.splits)
qed

text \<open>The checks of ownership, for a user with faithful claims.\<close>

lemma RequireSelf_decides:
  assumes "faithful u" and "hc_claims c = Some u"
  shows "if uc_UserID u = Param c param \<or> ''admin'' \<in> set (uc_Roles u)
    then \<exists>c'. RequireSelf param c rest = rest c' \<and> map_option uc_UserID (hc_claims c') = Some (uc_UserID u)
    else \<exists>resp. RequireSelf param c rest = go_return [AbortWithStatusJSON 403 resp]"
  using assms by (auto simp: RequireSelf_def checks_faithful refusals)

lemma RequireRolesOrSelf_decides:
  assumes "faithful u" and "hc_claims c = Some u"
  shows "if uc_UserID u = Param c param \<or> list_ex (\<lambda>r. r \<in> set (uc_Roles u)) roles
    then \<exists>c'. RequireRolesOrSelf param roles c rest = rest c' \<and> map_option uc_UserID (hc_claims c') = Some (uc_UserID u)
    else \<exists>resp. RequireRolesOrSelf param roles c rest = go_return [AbortWithStatusJSON 403 resp]"
  using assms by (auto simp: RequireRolesOrSelf_def checks_faithful refusals)

text \<open>
  An API key is accepted exactly if its digest is that of the key of some service, which is then set on the request,
  whatever the order in which the keys are tried; an empty key is refused even if a service has one.
\<close>

lemma api_key_admits:
  assumes "ranges ks keys" and "rawKey = GetHeader c ''X-API-Key''"
  shows "if rawKey \<noteq> [] \<and> (\<exists>service key. keys service = Some key \<and> Sum256 key = Sum256 rawKey)
    then \<exists>service key. keys service = Some key \<and> Sum256 key = Sum256 rawKey \<and>
      APIKey_Handler Sum256 ks (NewAPIKeyMiddleware Sum256 keys) c rest =
        rest (c\<lparr>hc_keys := (hc_keys c)(''api_key_service'' \<mapsto> service)\<rparr>)
    else \<exists>resp. APIKey_Handler Sum256 ks (NewAPIKeyMiddleware Sum256 keys) c rest = go_return [AbortWithStatusJSON 401 resp]"
proof (cases "find (\<lambda>service. map_option Sum256 (keys service) = Some (Sum256 rawKey)) ks")
  case None
  then have "\<not> (\<exists>service key. keys service = Some key \<and> Sum256 key = Sum256 rawKey)"
    using rangesD(2) [OF assms(1)] by (force simp: find_None_iff)
  then show ?thesis
    using None assms(2) by (auto simp: APIKey_Handler_def NewAPIKeyMiddleware_def Let_def refusals)
next
  case (Some service)
  then obtain key where "keys service = Some key" "Sum256 key = Sum256 rawKey" by (auto simp: find_Some_iff)
  then show ?thesis
    using Some assms(2) by (auto simp: APIKey_Handler_def NewAPIKeyMiddleware_def Let_def refusals)
qed

section \<open>Guarded routes and methods\<close>

text \<open>A route and a method behind the JWT service and the checks of a rule.\<close>

abbreviation guarded_route ::
  "'k jwt_lib \<Rightarrow> ('k, 'm jwt_world_scheme) jwt_service \<Rightarrow> rbac_rule \<Rightarrow> 'm jwt_world_scheme gin_handler \<Rightarrow> 'm jwt_world_scheme gin_handler" where
  "guarded_route lib s rule h \<equiv> gin_chain (Auth_Handler (ValidateAccessToken lib s) # rule_guards rule) h"

abbreviation guarded_method ::
  "'k jwt_lib \<Rightarrow> ('k, 'm jwt_world_scheme) jwt_service \<Rightarrow> string list \<Rightarrow> (string \<rightharpoonup> rbac_rule) \<Rightarrow> string \<Rightarrow>
   ('m jwt_world_scheme, 'q, 'r) grpc_handler \<Rightarrow> ('m jwt_world_scheme, 'q, 'r) grpc_handler" where
  "guarded_method lib s public rules m h \<equiv>
     Auth_UnaryInterceptor (NewAuthInterceptor (ValidateAccessToken lib s) public) m (RBAC_UnaryInterceptor rules m h)"

lemma ValidateAccessToken_faithful:
  assumes "ValidateAccessToken lib s tok w = (Ret (Inl u), w')"
  shows "faithful u"
  using assms
  by (auto simp: ValidateAccessToken_def go_bind_def Let_def split: prod.splits exec.splits sum.splits if_splits option.splits)

lemma fold_insert_set [simp]: "fold insert xs S = set xs \<union> S"
  by (induction xs arbitrary: S) auto

lemma NewAuthInterceptor_simps [simp]:
  "ai_validator (NewAuthInterceptor v public) = v" "ai_publicMethods (NewAuthInterceptor v public) = set public"
  by (simp_all add: NewAuthInterceptor_def)

lemma extract_parse:
  assumes "gc_metadata ctx = Some md" and "md ''authorization'' = Some (raw # rs)"
  shows "case extractBearerToken ctx of
      Inl tok \<Rightarrow> parseBearerToken raw = Some tok
    | Inr st \<Rightarrow> parseBearerToken raw = None \<and> fst st = Unauthenticated"
  using assms by (simp add: extractBearerToken_def parseBearerToken_def Let_def)

lemma parse_nonempty: "parseBearerToken raw = Some tok \<Longrightarrow> raw \<noteq> []"
  by (auto simp: parseBearerToken_def Let_def split: if_splits)

text \<open>Both transports refuse: the HTTP status of the one is that of the gRPC code of the other.\<close>

definition refused ::
  "gin_call list exec \<times> 'w \<Rightarrow> 'r grpc_result exec \<times> 'w \<Rightarrow> grpc_code \<Rightarrow> 'w \<Rightarrow> bool" where
  "refused http grpc code w \<longleftrightarrow>
     (\<exists>resp msg. http = (Ret [AbortWithStatusJSON (http_of_grpc code) resp], w) \<and>
        grpc = (Ret (None, Some (Inr (code, msg))), w))"

lemma writeAuthError_status:
  "\<exists>resp. writeAuthError c err = [AbortWithStatusJSON (http_of_grpc (fst (mapAuthError err))) resp]"
  using AbortWithError_call [of c 403 ErrForbidden "err_text err"] AbortWithError_call [of c 401 ErrUnauthorized "err_text err"]
  by (auto simp: writeAuthError_def mapAuthError_def AbortForbidden_def AbortUnauthorized_def split: option.splits)

lemma writeAuthError_unauthorized:
  "\<exists>resp. writeAuthError c (NewUnauthorized msg) = [AbortWithStatusJSON 401 resp]"
  using writeAuthError_status [of c "NewUnauthorized msg"]
  by (simp add: mapAuthError_def NewUnauthorized_def errors_As_def)

lemma Auth_Handler_token:
  assumes "parseBearerToken (GetHeader c ''Authorization'') = Some tok"
  shows "Auth_Handler v c rest w =
    (case v tok w of
       (Panic p, w') \<Rightarrow> (Panic p, w')
     | (Ret (Inr err), w') \<Rightarrow> (Ret (writeAuthError (hc_request c) err), w')
     | (Ret (Inl u), w') \<Rightarrow> rest (c\<lparr>hc_claims := Some u, hc_keys := (hc_keys c)(''user_id'' \<mapsto> uc_UserID u)\<rparr>) w')"
  using assms parse_nonempty [OF assms]
  by (auto simp: Auth_Handler_def go_bind_def split: prod.splits exec.splits sum.splits)

lemma Auth_Handler_no_token:
  assumes "parseBearerToken (GetHeader c ''Authorization'') = None"
  shows "\<exists>resp. Auth_Handler v c rest w = (Ret [AbortWithStatusJSON 401 resp], w)"
  using assms writeAuthError_unauthorized [of "hc_request c"] by (auto simp: Auth_Handler_def Let_def)

subsection \<open>The interface of the validator\<close>

text \<open>
  What the middlewares rely on: the claims of a token that validates have faithful sets. Under it a route and a method admit
  the user of the token by the rule.
\<close>

locale token_validator =
  fixes validate :: "'w validator"
  assumes validated_faithful: "validate tok w = (Ret (Inl u), w') \<Longrightarrow> faithful u"
begin

lemma route_decides:
  assumes "parseBearerToken (GetHeader c ''Authorization'') = Some tok" and "validate tok w = (Ret (Inl u), w')"
  shows "gin_chain (Auth_Handler validate # rule_guards rule) h c w =
    (if admitted rule (uc_Roles u) (uc_Permissions u)
     then h (c\<lparr>hc_claims := Some (checked rule u), hc_keys := (hc_keys c)(''user_id'' \<mapsto> uc_UserID u)\<rparr>) w'
     else (Ret (AbortForbidden (hc_request c) (denial rule u)), w'))"
proof -
  have swap: "c\<lparr>hc_claims := Some v, hc_keys := k\<rparr> = c\<lparr>hc_keys := k, hc_claims := Some v\<rparr>" for v k by simp
  show ?thesis
    by (simp add: Auth_Handler_token [OF assms(1)] assms(2) swap rule_guards_decide [OF validated_faithful [OF assms(2)]]
        del: http_ctx.update_convs)
qed

lemma method_decides:
  assumes "extractBearerToken ctx = Inl tok" and "validate tok w = (Ret (Inl u), w')" and "m \<notin> set public" and "rules m = Some rule"
  shows "Auth_UnaryInterceptor (NewAuthInterceptor validate public) m (RBAC_UnaryInterceptor rules m g) ctx req w =
    (if admitted rule (uc_Roles u) (uc_Permissions u) then g (ctx\<lparr>gc_claims := Some (checked rule u)\<rparr>) req w'
     else (Ret (None, Some (Inr (PermissionDenied, denial rule u))), w'))"
proof -
  have "RBAC_UnaryInterceptor rules m g (ctx\<lparr>gc_claims := Some u\<rparr>) req =
    (if admitted rule (uc_Roles u) (uc_Permissions u) then g (ctx\<lparr>gc_claims := Some (checked rule u)\<rparr>) req
     else status_Error PermissionDenied (denial rule u))"
    using validated_faithful [OF assms(2)] assms(4) by (simp add: RBAC_decides)
  then show ?thesis using assms(1-3) by (simp add: Auth_UnaryInterceptor_def go_bind_def)
qed

end

interpretation jwt: token_validator "ValidateAccessToken lib s" for lib s
  by unfold_locales (rule ValidateAccessToken_faithful)

section \<open>Properties\<close>

text \<open>C25: The HTTP middlewares and the gRPC interceptors give a caller with the same authorization header and the same rule the
  same access: both run their handler with the same claims in the same state, or both refuse with the status of one code,
  or both panic with the validator.\<close>

theorem http_grpc_guard_agree:
  assumes raw: "GetHeader c ''Authorization'' = raw" "gc_metadata ctx = Some md" "md ''authorization'' = Some [raw]"
    and m: "m \<notin> set public" "rules m = Some rule"
  shows "case parseBearerToken raw of
      None \<Rightarrow> refused (guarded_route lib s rule h c w) (guarded_method lib s public rules m g ctx req w) Unauthenticated w
    | Some tok \<Rightarrow>
        (case ValidateAccessToken lib s tok w of
           (Panic p, w') \<Rightarrow> guarded_route lib s rule h c w = (Panic p, w') \<and> guarded_method lib s public rules m g ctx req w = (Panic p, w')
         | (Ret (Inr err), w') \<Rightarrow>
             refused (guarded_route lib s rule h c w) (guarded_method lib s public rules m g ctx req w) (fst (mapAuthError err)) w'
         | (Ret (Inl u), w') \<Rightarrow>
             if admitted rule (uc_Roles u) (uc_Permissions u)
             then guarded_route lib s rule h c w =
                    h (c\<lparr>hc_claims := Some (checked rule u), hc_keys := (hc_keys c)(''user_id'' \<mapsto> uc_UserID u)\<rparr>) w' \<and>
                  guarded_method lib s public rules m g ctx req w = g (ctx\<lparr>gc_claims := Some (checked rule u)\<rparr>) req w'
             else refused (guarded_route lib s rule h c w) (guarded_method lib s public rules m g ctx req w) PermissionDenied w')"
proof (cases "parseBearerToken raw")
  case None
  then obtain msg where "extractBearerToken ctx = Inr (Unauthenticated, msg)"
    using extract_parse [OF raw(2,3)] by (cases "extractBearerToken ctx") auto
  then show ?thesis
    using None m(1) Auth_Handler_no_token [of c] raw(1) by (auto simp: refused_def Auth_UnaryInterceptor_def)
next
  case (Some tok)
  then have ex: "extractBearerToken ctx = Inl tok"
    using extract_parse [OF raw(2,3)] by (cases "extractBearerToken ctx") auto
  have hd: "parseBearerToken (GetHeader c ''Authorization'') = Some tok" using Some raw(1) by simp
  obtain r w' where v: "ValidateAccessToken lib s tok w = (r, w')" by fastforce
  show ?thesis
  proof (cases r)
    case (Panic p)
    then show ?thesis using v Some ex m by (simp add: Auth_Handler_token [OF hd] Auth_UnaryInterceptor_def go_bind_def)
  next
    case (Ret q)
    show ?thesis
    proof (cases q)
      case (Inr err)
      then show ?thesis
        using v Ret Some ex m writeAuthError_status [of "hc_request c" err]
        by (cases "mapAuthError err") (auto simp: refused_def Auth_Handler_token [OF hd] Auth_UnaryInterceptor_def go_bind_def)
    next
      case (Inl u)
      have u: "ValidateAccessToken lib s tok w = (Ret (Inl u), w')" using v Ret Inl by simp
      show ?thesis
        using AbortWithError_call [of "hc_request c" 403 ErrForbidden "denial rule u"]
        by (simp add: Some u jwt.route_decides [OF hd u] jwt.method_decides [where rules = rules and m = m, OF ex u m] refused_def AbortForbidden_def
            del: gin_chain.simps)
    qed
  qed
qed

text \<open>C24: From the issue of an access token to its expiry, a route behind the JWT service runs its handler for the user of
  the token exactly if the user was issued one of the roles of the rule and all of its permissions, and answers 403
  otherwise, as long as nothing is blacklisted.\<close>

theorem issued_token_access:
  assumes svc: "NewJWTService lib rf cfg bl = Inl s" and lib: "lib_ok lib s"
    and pair: "GenerateTokenPair lib s a b p w0 = (Ret (Inl pair), w1)"
    and ascii: "list_all ascii (jwt_Issuer cfg # jwt_Audience cfg @ [a, tp_UserID p, tp_Email p, tp_SessionID p] @ tp_Roles p @ tp_Permissions p)"
    and time: "jw_now w0 \<le> jw_now w" "jw_now w < jw_now w0 + AccessTokenTTL cfg"
    and clear: "\<And>k. bl_IsBlacklisted bl k w = (Ret (Inl False), w)"
    and hd: "parseBearerToken (GetHeader c ''Authorization'') = Some (pair_AccessToken pair)"
  shows "if admitted rule (tp_Roles p) (tp_Permissions p)
    then \<exists>c'. guarded_route lib s rule h c w = h c' w \<and> hc_request c' = hc_request c \<and>
      map_option uc_UserID (hc_claims c') = Some (tp_UserID p) \<and> hc_keys c' ''user_id'' = Some (tp_UserID p)
    else \<exists>resp. guarded_route lib s rule h c w = (Ret [AbortWithStatusJSON 403 resp], w)"
  using AbortWithError_call [of "hc_request c" 403 ErrForbidden]
  by (auto simp: jwt.route_decides [OF hd issued_access(2) [OF svc lib pair ascii time clear]] AbortForbidden_def
      NewUserClaims_def checked_def simp del: gin_chain.simps)

text \<open>C23: After a session is revoked with success, whatever the service does next and however often the store is out of reach
  meanwhile, no request with an access token of the session reaches the handler of a guarded route or method when the list
  can be asked, until the earliest of the expiries given to the revocation and to later revocations of the same session:
  the route answers 401 and the method \<open>Unauthenticated\<close>. The list is the one in Redis, bare or behind the circuit breaker.\<close>

theorem revoked_session_locked_out:
  assumes store: "store_ok k look up" and cb: "breaker_ok cb look up shut"
    and bl: "js_blacklist s = RedisBlacklist k \<and> reachable = up
      \<or> js_blacklist s = ResilientBlacklist cb (RedisBlacklist k) \<and> reachable = (\<lambda>w. shut w \<and> up w)"
    and ck: "checker_ok (js_sessionChecker s) look"
    and revoke: "RevokeSession s sid e w = (Ret None, w1)" "jw_wall w < e" and sid: "sid \<noteq> []"
    and run: "jwt_run lib s reachable (sessionKey sid) w1 es w2" and time: "\<forall>x \<in> set (e # es). jw_wall w2 < x - 1000000"
    and up: "reachable w2"
    and tok: "jwt_parse lib s tok w2 = (Ret (Inl cl), w2)" "cc_TokenType cl = ''access''" "cc_SessionID cl = sid"
    and hd: "parseBearerToken (GetHeader c ''Authorization'') = Some tok" and ex: "extractBearerToken ctx = Inl tok"
    and m: "m \<notin> set public"
  shows "(\<exists>resp w3. guarded_route lib s rule h c w2 = (Ret [AbortWithStatusJSON 401 resp], w3)) \<and>
    (\<exists>msg w3. guarded_method lib s public rules m g ctx req w2 = (Ret (None, Some (Inr (Unauthenticated, msg))), w3))"
proof -
  note ok = wired_bl_ok [OF store cb bl]
  obtain t where "jw_wall w2 < t" "listed look (sessionKey sid) t w2"
    by (rule revoked_session_listed [OF ok ck revoke run time])
  then obtain w3 where v: "ValidateAccessToken lib s tok w2 = (Ret (Inr NewTokenRevoked), w3)"
    using listed_session_rejected [OF ok up sid _ _ tok] by blast
  have code: "fst (mapAuthError NewTokenRevoked) = Unauthenticated" by (simp add: mapAuthError_def NewTokenRevoked_def errors_As_def)
  obtain msg where msg: "mapAuthError NewTokenRevoked = (Unauthenticated, msg)" using code by (cases "mapAuthError NewTokenRevoked") auto
  show ?thesis
    using v ex m writeAuthError_status [of "hc_request c" NewTokenRevoked]
    by (simp add: Auth_Handler_token [OF hd] Auth_UnaryInterceptor_def go_bind_def msg)
qed

section \<open>Witnesses\<close>

definition authz_sample_rule :: rbac_rule where
  "authz_sample_rule = \<lparr>rule_Roles = [''q'', ''r''], rule_Permissions = []\<rparr>"

definition authz_sample_request :: http_ctx where
  "authz_sample_request =
     \<lparr>hc_request = \<lparr>url_path = ''/x'', request_id = None, headers = [''Authorization'' \<mapsto> ''Bearer A'']\<rparr>,
      hc_params = Map.empty, hc_claims = None, hc_keys = Map.empty\<rparr>"

definition authz_sample_call :: grpc_ctx where
  "authz_sample_call = \<lparr>gc_metadata = Some [''authorization'' \<mapsto> [''Bearer A'']], gc_claims = None\<rparr>"

lemma authz_sample_parse: "parseBearerToken ''Bearer A'' = Some ''A''"
  by (simp add: parseBearerToken_def trim_space_def is_space_def)

lemma authz_sample_header: "GetHeader authz_sample_request ''Authorization'' = ''Bearer A''"
  by (simp add: authz_sample_request_def)

lemma authz_sample_extract: "extractBearerToken authz_sample_call = Inl ''A''"
  by (simp add: extractBearerToken_def authz_sample_call_def trim_space_def is_space_def)

lemma authz_sample_pair: "pair_AccessToken jwt_sample_pair = ''A''"
  by (simp add: jwt_sample_pair_def)

theorem issued_token_access_witness:
  "guarded_route jwt_sample_lib jwt_sample_service authz_sample_rule (\<lambda>c. go_return [SetKey ''ran'' (get_str (hc_keys c) ''user_id'')])
     authz_sample_request (jwt_sample_at (59 * second)) = (Ret [SetKey ''ran'' ''u''], jwt_sample_at (59 * second))"
  using issued_token_access [OF jwt_sample_new jwt_sample_lib_ok jwt_sample_issue, where w = "jwt_sample_at (59 * second)"
      and c = authz_sample_request and rule = authz_sample_rule and h = "\<lambda>c. go_return [SetKey ''ran'' (get_str (hc_keys c) ''user_id'')]"]
  by (simp add: redis_checks [OF jwt_sample_redis_ok] authz_sample_header authz_sample_parse authz_sample_pair del: gin_chain.simps)
     (auto simp: ascii_def jwt_sample_at_def jwt_sample_cfg_def jwt_sample_user_def admitted_def authz_sample_rule_def get_str_def
        simp del: gin_chain.simps)

lemma authz_sample_validate:
  "ValidateAccessToken jwt_sample_lib jwt_sample_service ''A'' (jwt_sample_at (59 * second)) =
     (Ret (Inl (NewUserClaims ''u'' ''e'' [''r''] [] ''s'' 0 (60 * second))), jwt_sample_at (59 * second))"
  using issued_access(2) [OF jwt_sample_new jwt_sample_lib_ok jwt_sample_issue, of "jwt_sample_at (59 * second)"]
  by (simp add: redis_checks [OF jwt_sample_redis_ok])
     (simp add: ascii_def jwt_sample_at_def jwt_sample_cfg_def jwt_sample_user_def jwt_sample_pair_def)

definition authz_sample_strict :: rbac_rule where
  "authz_sample_strict = \<lparr>rule_Roles = [''r''], rule_Permissions = [''p'']\<rparr>"

theorem http_grpc_guard_agree_witness:
  "refused
     (guarded_route jwt_sample_lib jwt_sample_service authz_sample_strict (\<lambda>_. go_panic ''ran'') authz_sample_request
       (jwt_sample_at (59 * second)))
     (guarded_method jwt_sample_lib jwt_sample_service [] [''/m'' \<mapsto> authz_sample_strict] ''/m'' (\<lambda>_ _. go_panic ''ran'')
       authz_sample_call () (jwt_sample_at (59 * second)))
     PermissionDenied (jwt_sample_at (59 * second))"
proof -
  have md: "gc_metadata authz_sample_call = Some [''authorization'' \<mapsto> [''Bearer A'']]" by (simp add: authz_sample_call_def)
  have no: "\<not> admitted authz_sample_strict (uc_Roles (NewUserClaims ''u'' ''e'' [''r''] [] ''s'' 0 e))
      (uc_Permissions (NewUserClaims ''u'' ''e'' [''r''] [] ''s'' 0 e))" for e
    by (simp add: admitted_def authz_sample_strict_def NewUserClaims_def)
  show ?thesis
    using http_grpc_guard_agree [OF authz_sample_header md, where m = "''/m''" and public = "[]" and rule = authz_sample_strict
        and rules = "[''/m'' \<mapsto> authz_sample_strict]" and w = "jwt_sample_at (59 * second)" and lib = jwt_sample_lib
        and s = jwt_sample_service and h = "\<lambda>_. go_panic ''ran''" and g = "\<lambda>_ _. go_panic ''ran''" and req = "()"]
    by (simp add: authz_sample_parse authz_sample_validate [simplified] no del: gin_chain.simps)
qed

theorem revoked_session_locked_out_witness:
  "jw_wall jwt_sample_later = 59 * second \<and>
     (\<exists>resp w. guarded_route jwt_sample_lib jwt_sample_resilient authz_sample_rule (\<lambda>_. go_panic ''ran'') authz_sample_request
        jwt_sample_later = (Ret [AbortWithStatusJSON 401 resp], w))"
proof -
  have hd: "parseBearerToken (GetHeader authz_sample_request ''Authorization'') = Some ''A''"
    using authz_sample_header authz_sample_parse by simp
  have "\<exists>resp w. guarded_route jwt_sample_lib jwt_sample_resilient authz_sample_rule (\<lambda>_. go_panic ''ran'') authz_sample_request
      jwt_sample_later = (Ret [AbortWithStatusJSON 401 resp], w)"
    by (rule conjunct1 [OF revoked_session_locked_out [OF reachable_store [OF jwt_sample_redis_ok] jwt_sample_breaker _ _
          jwt_sample_revoke(1) _ _ jwt_sample_history _ _ jwt_sample_later_parse _ _ hd authz_sample_extract, where public = "[]"]])
       (simp_all add: jwt_sample_resilient_def jwt_sample_service_def checker_ok_def jwt_sample_at_def jwt_sample_user_def
          jwt_sample_later_clock)
  then show ?thesis using jwt_sample_later_clock by simp
qed

end
