(* ===== verification/Wolf_Concurrency.thy ===== *)
theory Wolf_Concurrency
  imports Wolf_Errors "HOL-Library.Multiset"
begin

text \<open>
  Bounded concurrency (\<^verbatim>\<open>src/infra/middleware/http/load_shedder.go\<close>, \<^verbatim>\<open>src/infra/concurrency\<close>): the load shedder, the worker
  pool and the sharded loops. Goroutines interleave at their atomic operations: an action of a step function is one
  atomic piece of one goroutine, and the properties hold for every sequence of actions.
\<close>

section \<open>Load shedder\<close>

record load_shedder =
  ls_inflight :: int
  ls_limit :: int

definition NewLoadShedder :: "int \<Rightarrow> load_shedder" where
  "NewLoadShedder limit = \<lparr>ls_inflight = 0, ls_limit = limit\<rparr>"

text \<open>
  A goroutine inside the middleware: it holds the value its increment returned and is about to compare it, runs the rest
  of the chain, or has answered 503 and returns. The state lists the goroutines inside, in the order they entered.
\<close>

datatype ls_goroutine = Entered int | Serving int | Shedding int

fun ls_current :: "ls_goroutine \<Rightarrow> int" where
  "ls_current (Entered n) = n"
| "ls_current (Serving n) = n"
| "ls_current (Shedding n) = n"

type_synonym shed_state = "load_shedder \<times> ls_goroutine list"

datatype ls_action = Enter | Decide nat | Leave nat

text \<open>
  The deferred decrement runs when a goroutine leaves, whether the chain returned or panicked. An action of a goroutine
  that is not at that point is no step.
\<close>

definition shed_Middleware :: "ls_action \<Rightarrow> shed_state \<Rightarrow> shed_state option" where
  "shed_Middleware a st =
     (case st of (ls, gs) \<Rightarrow>
        (case a of
           Enter \<Rightarrow>
             let current = ls_inflight ls + 1 in
             Some (ls\<lparr>ls_inflight := current\<rparr>, gs @ [Entered current])
         | Decide i \<Rightarrow>
             if i < length gs then
               (case gs ! i of
                  Entered current \<Rightarrow>
                    Some (ls, gs[i := if current > ls_limit ls then Shedding current else Serving current])
                | _ \<Rightarrow> None)
             else None
         | Leave i \<Rightarrow>
             if i < length gs then
               (case gs ! i of
                  Entered _ \<Rightarrow> None
                | _ \<Rightarrow> Some (ls\<lparr>ls_inflight := ls_inflight ls - 1\<rparr>, take i gs @ drop (Suc i) gs))
             else None))"

text \<open>\<open>None\<close> is the middleware that passes every request on.\<close>

definition LoadShed :: "int \<Rightarrow> load_shedder option" where
  "LoadShed MaxConcurrent = (if MaxConcurrent \<le> 0 then None else Some (NewLoadShedder MaxConcurrent))"

inductive shed_reachable :: "int \<Rightarrow> shed_state \<Rightarrow> bool" for limit where
  Init: "shed_reachable limit (NewLoadShedder limit, [])"
| Step: "shed_reachable limit st \<Longrightarrow> shed_Middleware a st = Some st' \<Longrightarrow> shed_reachable limit st'"

abbreviation serving :: "ls_goroutine list \<Rightarrow> nat" where
  "serving gs \<equiv> length (filter (\<lambda>g. case g of Serving _ \<Rightarrow> True | _ \<Rightarrow> False) gs)"

text \<open>
  The counter counts the goroutines inside, a goroutine that was let in compared a value within the limit, and each holds
  a value no smaller than its place in the order of entry: those before it were inside when it entered.
\<close>

definition shed_inv :: "int \<Rightarrow> shed_state \<Rightarrow> bool" where
  "shed_inv limit st \<longleftrightarrow> (case st of (ls, gs) \<Rightarrow>
     ls_limit ls = limit \<and> ls_inflight ls = int (length gs) \<and>
     (\<forall>i < length gs. int i < ls_current (gs ! i)) \<and>
     (\<forall>n. Serving n \<in> set gs \<longrightarrow> n \<le> limit) \<and> (\<forall>n. Shedding n \<in> set gs \<longrightarrow> limit < n))"

lemma ls_current_update: "\<forall>i < length gs. int i < ls_current (gs ! i) \<Longrightarrow> k < length gs \<Longrightarrow> ls_current g = ls_current (gs ! k) \<Longrightarrow>
    \<forall>i < length gs. int i < ls_current (gs[k := g] ! i)"
  by (metis length_list_update nth_list_update_eq nth_list_update_neq)

lemma remove_nth_current:
  assumes "\<forall>i < length gs. int i < ls_current (gs ! i)" and "k < length gs"
  shows "\<forall>i < length (take k gs @ drop (Suc k) gs). int i < ls_current ((take k gs @ drop (Suc k) gs) ! i)"
proof (intro allI impI)
  fix i assume i: "i < length (take k gs @ drop (Suc k) gs)"
  show "int i < ls_current ((take k gs @ drop (Suc k) gs) ! i)"
  proof (cases "i < k")
    case True
    then show ?thesis using assms by (simp add: nth_append)
  next
    case False
    then have "(take k gs @ drop (Suc k) gs) ! i = gs ! Suc i" using i assms(2) by (simp add: nth_append)
    moreover have "Suc i < length gs" using i assms(2) by simp
    ultimately show ?thesis using assms(1) by fastforce
  qed
qed

lemma shed_inv_step:
  assumes "shed_inv limit st" and "shed_Middleware a st = Some st'"
  shows "shed_inv limit st'"
proof (cases a)
  case Enter
  then show ?thesis using assms by (auto simp: shed_inv_def shed_Middleware_def Let_def nth_append less_Suc_eq split: prod.splits)
next
  case (Decide k)
  then show ?thesis
    using assms ls_current_update [of "snd st" k]
    by (auto simp: shed_inv_def shed_Middleware_def split: prod.splits if_splits ls_goroutine.splits
        dest!: subsetD [OF set_update_subset_insert])
next
  case (Leave k)
  obtain ls gs where st: "st = (ls, gs)" by fastforce
  define rest where "rest = take k gs @ drop (Suc k) gs"
  have k: "k < length gs" and st': "st' = (ls\<lparr>ls_inflight := ls_inflight ls - 1\<rparr>, rest)"
    using assms(2) Leave st by (auto simp: shed_Middleware_def rest_def split: if_splits ls_goroutine.splits)
  have "\<forall>i < length rest. int i < ls_current (rest ! i)"
    using assms(1) st k unfolding rest_def by (intro remove_nth_current) (simp_all add: shed_inv_def)
  moreover have "set rest \<subseteq> set gs" unfolding rest_def by (auto dest: in_set_takeD in_set_dropD)
  moreover have "Suc (length rest) = length gs" using k by (simp add: rest_def)
  ultimately show ?thesis using assms(1) st st' unfolding shed_inv_def by fastforce
qed

lemma shed_reachable_inv: "shed_reachable limit st \<Longrightarrow> shed_inv limit st"
  by (induction rule: shed_reachable.induct) (auto intro: shed_inv_step, simp add: shed_inv_def NewLoadShedder_def)

lemma serving_bound:
  assumes "\<forall>i < length gs. int i < ls_current (gs ! i)" and "\<forall>n. Serving n \<in> set gs \<longrightarrow> n \<le> limit"
  shows "int (serving gs) \<le> max 0 limit"
  using assms
proof (induction gs rule: rev_induct)
  case (snoc g gs)
  have low: "\<forall>i < length gs. int i < ls_current (gs ! i)"
  proof (intro allI impI)
    fix i assume "i < length gs"
    then show "int i < ls_current (gs ! i)" using snoc.prems(1) [rule_format, of i] by (simp add: nth_append)
  qed
  have IH: "int (serving gs) \<le> max 0 limit" using snoc.IH [OF low] snoc.prems(2) by simp
  have top: "int (length gs) < ls_current g" using snoc.prems(1) [rule_format, of "length gs"] by simp
  show ?case
  proof (cases g)
    case (Serving n)
    then have "n \<le> limit" using snoc.prems(2) by simp
    moreover have "int (serving gs) \<le> int (length gs)" by (simp add: length_filter_le)
    ultimately have "int (serving gs) + 1 \<le> limit" using top [unfolded Serving ls_current.simps] by linarith
    then show ?thesis using Serving by simp
  qed (use IH in simp_all)
qed simp

text \<open>C20: At every moment at most \<open>limit\<close> handlers run behind a load shedder, however the requests interleave. The counter is
  the number of requests inside the middleware, so that none is leaked by a request that was shed or whose handler
  panicked, and a request is let in exactly if fewer than \<open>limit\<close> requests are inside when it arrives.\<close>

theorem load_shedder_bound:
  assumes "shed_reachable limit (ls, gs)"
  shows "int (serving gs) \<le> max 0 limit \<and> ls_inflight ls = int (length gs) \<and>
    (\<exists>ls' n. shed_Middleware Enter (ls, gs) = Some (ls', gs @ [Entered n]) \<and>
       shed_Middleware (Decide (length gs)) (ls', gs @ [Entered n]) =
         Some (ls', gs @ [if int (length gs) < limit then Serving n else Shedding n]))"
  using shed_reachable_inv [OF assms] serving_bound [of gs limit]
  by (auto simp: shed_inv_def shed_Middleware_def Let_def)

theorem load_shedder_bound_witness:
  "int (serving [Serving 1, Shedding 2]) \<le> max 0 1 \<and> shed_reachable 1 (\<lparr>ls_inflight = 2, ls_limit = 1\<rparr>, [Serving 1, Shedding 2])"
proof -
  note st = shed_reachable.Step
  have "shed_reachable 1 (\<lparr>ls_inflight = 1, ls_limit = 1\<rparr>, [Entered 1])"
    by (rule st [OF shed_reachable.Init, where a = Enter]) (simp add: shed_Middleware_def NewLoadShedder_def)
  then have "shed_reachable 1 (\<lparr>ls_inflight = 2, ls_limit = 1\<rparr>, [Entered 1, Entered 2])"
    by (rule st [where a = Enter]) (simp add: shed_Middleware_def)
  then have "shed_reachable 1 (\<lparr>ls_inflight = 2, ls_limit = 1\<rparr>, [Serving 1, Entered 2])"
    by (rule st [where a = "Decide 0"]) (simp add: shed_Middleware_def)
  then have r: "shed_reachable 1 (\<lparr>ls_inflight = 2, ls_limit = 1\<rparr>, [Serving 1, Shedding 2])"
    by (rule st [where a = "Decide 1"]) (simp add: shed_Middleware_def)
  then show ?thesis using load_shedder_bound [OF r] by blast
qed

section \<open>Worker pool\<close>

text \<open>
  A worker goroutine waits on the queue, holds an item it took, runs the handler on it or has returned. \<open>wp_accepted\<close> and
  \<open>wp_handled\<close> record the items \<^verbatim>\<open>Submit\<close> accepted and the items the handler was called with, in order. What the handler
  and \<^verbatim>\<open>onError\<close> do with an item is left out.
\<close>

datatype 'a pool_goroutine = Ranging | Holding 'a | Handling 'a | Returned

record 'a worker_pool =
  wp_workers :: int
  wp_capacity :: int
  wp_queue :: "'a list"
  wp_closed :: bool
  wp_cancelled :: bool
  wp_goroutines :: "'a pool_goroutine list"
  wp_accepted :: "'a list"
  wp_handled :: "'a list"

definition NewWorkerPool :: "int \<Rightarrow> int \<Rightarrow> 'a worker_pool" where
  "NewWorkerPool workers queueSize =
     (let workers = (if workers \<le> 0 then 1 else workers);
          queueSize = (if queueSize \<le> 0 then workers * 2 else queueSize) in
      \<lparr>wp_workers = workers, wp_capacity = queueSize, wp_queue = [], wp_closed = False, wp_cancelled = False,
       wp_goroutines = [], wp_accepted = [], wp_handled = []\<rparr>)"

definition pool_Start :: "'a worker_pool \<Rightarrow> 'a worker_pool" where
  "pool_Start p = p\<lparr>wp_goroutines := replicate (nat (wp_workers p)) Ranging\<rparr>"

text \<open>One step of the loop of worker \<open>i\<close>; \<open>None\<close> if it waits for an item or has returned.\<close>

definition pool_run :: "nat \<Rightarrow> 'a worker_pool \<Rightarrow> 'a worker_pool option" where
  "pool_run i p =
     (if i < length (wp_goroutines p) then
        (case wp_goroutines p ! i of
           Ranging \<Rightarrow>
             (case wp_queue p of
                item # rest \<Rightarrow> Some (p\<lparr>wp_queue := rest, wp_goroutines := (wp_goroutines p)[i := Holding item]\<rparr>)
              | [] \<Rightarrow> if wp_closed p then Some (p\<lparr>wp_goroutines := (wp_goroutines p)[i := Returned]\<rparr>) else None)
         | Holding item \<Rightarrow>
             if wp_cancelled p then Some (p\<lparr>wp_goroutines := (wp_goroutines p)[i := Returned]\<rparr>)
             else Some (p\<lparr>wp_goroutines := (wp_goroutines p)[i := Handling item], wp_handled := wp_handled p @ [item]\<rparr>)
         | Handling item \<Rightarrow> Some (p\<lparr>wp_goroutines := (wp_goroutines p)[i := Ranging]\<rparr>)
         | Returned \<Rightarrow> None)
      else None)"

definition pool_Submit :: "'a \<Rightarrow> ('a worker_pool, goerr option) go" where
  "pool_Submit item p =
     (if wp_closed p then (Panic ''send on closed channel'', p)
      else if int (length (wp_queue p)) < wp_capacity p
      then (Ret None, p\<lparr>wp_queue := wp_queue p @ [item], wp_accepted := wp_accepted p @ [item]\<rparr>)
      else (Ret (Some (errorf (''workerpool: queue is full (capacity '' @ itoa (wp_capacity p) @ '')''))), p))"

text \<open>\<^verbatim>\<open>Stop\<close> closes the queue, waits until every worker has returned (\<open>None\<close>: it still waits) and cancels the context.\<close>

definition pool_Stop_close :: "('a worker_pool, unit) go" where
  "pool_Stop_close p =
     (if wp_closed p then (Panic ''close of closed channel'', p) else (Ret (), p\<lparr>wp_closed := True\<rparr>))"

definition pool_Stop_wait :: "'a worker_pool \<Rightarrow> 'a worker_pool option" where
  "pool_Stop_wait p =
     (if list_all (\<lambda>g. g = Returned) (wp_goroutines p) then Some (p\<lparr>wp_cancelled := True\<rparr>) else None)"

text \<open>What can happen to a pool: items may be submitted before it is started, which happens once, and the parent of its
  context may be cancelled at any time.\<close>

inductive pool_reachable :: "int \<Rightarrow> int \<Rightarrow> 'a worker_pool \<Rightarrow> bool" for workers queueSize where
  Created: "pool_reachable workers queueSize (NewWorkerPool workers queueSize)"
| Started: "pool_reachable workers queueSize p \<Longrightarrow> wp_goroutines p = [] \<Longrightarrow> pool_reachable workers queueSize (pool_Start p)"
| Worked: "pool_reachable workers queueSize p \<Longrightarrow> pool_run i p = Some p' \<Longrightarrow> pool_reachable workers queueSize p'"
| Submitted: "pool_reachable workers queueSize p \<Longrightarrow> pool_Submit item p = (r, p') \<Longrightarrow> pool_reachable workers queueSize p'"
| Stopping: "pool_reachable workers queueSize p \<Longrightarrow> pool_Stop_close p = (r, p') \<Longrightarrow> pool_reachable workers queueSize p'"
| Cancelled: "pool_reachable workers queueSize p \<Longrightarrow> pool_reachable workers queueSize (p\<lparr>wp_cancelled := True\<rparr>)"

fun in_hand :: "'a pool_goroutine \<Rightarrow> 'a list" where
  "in_hand (Holding item) = [item]"
| "in_hand _ = []"

text \<open>The items the pool has handled or still has.\<close>

definition pool_items :: "'a worker_pool \<Rightarrow> 'a multiset" where
  "pool_items p = mset (wp_handled p) + mset (concat (map in_hand (wp_goroutines p))) + mset (wp_queue p)"

definition pool_inv :: "'a worker_pool \<Rightarrow> bool" where
  "pool_inv p \<longleftrightarrow> int (length (wp_queue p)) \<le> wp_capacity p \<and> pool_items p \<subseteq># mset (wp_accepted p) \<and>
     (\<not> wp_cancelled p \<longrightarrow> (Returned \<in> set (wp_goroutines p) \<longrightarrow> wp_closed p \<and> wp_queue p = []) \<and>
        pool_items p = mset (wp_accepted p))"

text \<open>The steps left: four for an item that waits, then one less after each step.\<close>

fun steps_left :: "'a pool_goroutine \<Rightarrow> nat" where
  "steps_left Ranging = 1"
| "steps_left (Holding item) = 3"
| "steps_left (Handling item) = 2"
| "steps_left Returned = 0"

definition pool_work :: "'a worker_pool \<Rightarrow> nat" where
  "pool_work p = 4 * length (wp_queue p) + sum_list (map steps_left (wp_goroutines p))"

lemma in_hand_update:
  "i < length gs \<Longrightarrow> mset (concat (map in_hand (gs[i := g]))) + mset (in_hand (gs ! i)) =
     mset (concat (map in_hand gs)) + mset (in_hand g)"
  by (induction gs arbitrary: i) (auto simp: nth_Cons ac_simps split: nat.splits)

lemma steps_left_update:
  "i < length gs \<Longrightarrow> sum_list (map steps_left (gs[i := g])) + steps_left (gs ! i) = sum_list (map steps_left gs) + steps_left g"
  by (induction gs arbitrary: i) (auto simp: nth_Cons split: nat.splits)

lemma Returned_update: "g \<noteq> Returned \<Longrightarrow> Returned \<in> set (gs[i := g]) \<Longrightarrow> Returned \<in> set gs"
  using set_update_subset_insert [of gs i g] by auto

text \<open>A step of a worker loses an item only if the context is cancelled.\<close>

lemma pool_run_items:
  assumes run: "pool_run i p = Some p'"
  shows "pool_items p' \<subseteq># pool_items p" and "\<not> wp_cancelled p \<Longrightarrow> pool_items p' = pool_items p"
    and "pool_work p' < pool_work p"
proof -
  have i: "i < length (wp_goroutines p)" using run by (auto simp: pool_run_def split: if_splits)
  note upd = in_hand_update [OF i] steps_left_update [OF i]
  have "pool_items p' \<subseteq># pool_items p \<and> (\<not> wp_cancelled p \<longrightarrow> pool_items p' = pool_items p) \<and> pool_work p' < pool_work p"
  proof (cases "wp_goroutines p ! i")
    case Ranging
    show ?thesis
      using Ranging run i upd(1) [of Returned] upd(2) [of Returned] upd(1) [of "Holding (hd (wp_queue p))"]
        upd(2) [of "Holding (hd (wp_queue p))"]
      by (auto simp: pool_run_def pool_items_def pool_work_def ac_simps split: list.splits if_splits)
  next
    case (Holding item)
    then show ?thesis
      using run i upd(1) [of "Handling item"] upd(2) [of "Handling item"] upd(1) [of Returned, symmetric] upd(2) [of Returned]
      by (auto simp: pool_run_def pool_items_def pool_work_def ac_simps split: if_splits)
  next
    case (Handling item)
    then show ?thesis
      using run i upd(1) [of Ranging] upd(2) [of Ranging] by (auto simp: pool_run_def pool_items_def pool_work_def)
  next
    case Returned
    then show ?thesis using run i by (simp add: pool_run_def)
  qed
  then show "pool_items p' \<subseteq># pool_items p" and "\<not> wp_cancelled p \<Longrightarrow> pool_items p' = pool_items p"
    and "pool_work p' < pool_work p" by auto
qed

lemma pool_run_frame:
  assumes "pool_run i p = Some p'"
  shows "wp_closed p' = wp_closed p" "wp_cancelled p' = wp_cancelled p" "wp_capacity p' = wp_capacity p"
    "wp_accepted p' = wp_accepted p" "length (wp_queue p') \<le> length (wp_queue p)"
    "\<not> wp_cancelled p \<Longrightarrow> Returned \<in> set (wp_goroutines p') \<Longrightarrow>
       (Returned \<in> set (wp_goroutines p) \<and> (wp_queue p = [] \<longrightarrow> wp_queue p' = [])) \<or> wp_closed p \<and> wp_queue p' = []"
  using assms
  by (auto simp: pool_run_def split: if_splits pool_goroutine.splits list.splits dest: Returned_update [rotated])

lemma pool_inv_run:
  assumes inv: "pool_inv p" and run: "pool_run i p = Some p'"
  shows "pool_inv p'"
  using inv pool_run_items(1,2) [OF run] pool_run_frame [OF run] unfolding pool_inv_def
  by (auto intro: subset_mset.order_trans)

lemma pool_reachable_inv: "pool_reachable workers queueSize p \<Longrightarrow> pool_inv p"
proof (induction rule: pool_reachable.induct)
  case Created
  show ?case by (simp add: NewWorkerPool_def pool_inv_def pool_items_def Let_def)
next
  case (Started p)
  then show ?case by (auto simp: pool_Start_def pool_inv_def pool_items_def map_replicate in_set_replicate)
next
  case (Worked p i p')
  then show ?case using pool_inv_run by blast
next
  case (Submitted p item r p')
  then show ?case by (auto simp: pool_Submit_def pool_inv_def pool_items_def ac_simps split: if_splits)
next
  case (Stopping p r p')
  then show ?case by (auto simp: pool_Stop_close_def pool_inv_def pool_items_def split: if_splits)
next
  case (Cancelled p)
  then show ?case by (simp add: pool_inv_def pool_items_def)
qed

text \<open>While a worker has not returned and the queue is closed, some worker can take a step.\<close>

lemma pool_not_stuck:
  assumes "wp_closed p" and "pool_Stop_wait p = None"
  shows "\<exists>i. pool_run i p \<noteq> None"
proof -
  obtain i where "i < length (wp_goroutines p)" "wp_goroutines p ! i \<noteq> Returned"
    using assms(2) by (auto simp: pool_Stop_wait_def list_all_length split: if_splits)
  then have "pool_run i p \<noteq> None"
    using assms(1) by (auto simp: pool_run_def split: pool_goroutine.splits list.splits)
  then show ?thesis ..
qed

text \<open>C19: \<^verbatim>\<open>Stop\<close> drains a started pool whose parent context is not cancelled: every item that \<^verbatim>\<open>Submit\<close> accepted, before or
  after the start, has been given to the handler exactly once when \<^verbatim>\<open>Stop\<close> returns. With a cancelled context an item may be
  dropped, but none is handled twice or unasked. In either case \<^verbatim>\<open>Stop\<close> does return, because once the queue is closed
  every step of a worker brings it closer to the end and some worker can take one until all have returned. The queue
  never exceeds its capacity.\<close>

theorem worker_pool_drains:
  assumes "pool_reachable workers queueSize p"
  shows "int (length (wp_queue p)) \<le> wp_capacity p \<and> mset (wp_handled p) \<subseteq># mset (wp_accepted p) \<and>
    (case pool_Stop_wait p of
       Some p' \<Rightarrow> wp_goroutines p \<noteq> [] \<and> \<not> wp_cancelled p \<longrightarrow>
         wp_closed p \<and> wp_queue p' = [] \<and> mset (wp_handled p') = mset (wp_accepted p')
     | None \<Rightarrow> wp_closed p \<longrightarrow>
         (\<exists>i. pool_run i p \<noteq> None) \<and>
         (\<forall>i p'. pool_run i p = Some p' \<longrightarrow> wp_closed p' \<and> pool_work p' < pool_work p))"
proof -
  have inv: "pool_inv p" using pool_reachable_inv [OF assms] .
  have "mset (wp_handled p) \<subseteq># pool_items p" by (simp add: pool_items_def)
  then have sub: "mset (wp_handled p) \<subseteq># mset (wp_accepted p)"
    using inv by (auto simp: pool_inv_def intro: subset_mset.order_trans)
  show ?thesis
  proof (cases "pool_Stop_wait p")
    case None
    have "wp_closed p' = wp_closed p \<and> pool_work p' < pool_work p" if "pool_run i p = Some p'" for i p'
      using pool_run_items(3) [OF that] pool_run_frame(1) [OF that] by blast
    then show ?thesis using None inv sub pool_not_stuck [of p] by (simp add: pool_inv_def)
  next
    case (Some p')
    then have all: "list_all (\<lambda>g. g = Returned) (wp_goroutines p)" and p': "p' = p\<lparr>wp_cancelled := True\<rparr>"
      by (auto simp: pool_Stop_wait_def split: if_splits)
    then have "wp_goroutines p \<noteq> [] \<longrightarrow> Returned \<in> set (wp_goroutines p)" by (cases "wp_goroutines p") auto
    moreover have "concat (map in_hand (wp_goroutines p)) = []" using all by (auto simp: list_all_iff)
    then have "pool_items p = mset (wp_handled p) + mset (wp_queue p)" by (simp only: pool_items_def mset.simps add_0_right)
    ultimately show ?thesis using Some inv p' sub by (auto simp: pool_inv_def)
  qed
qed

section \<open>Sharded loops\<close>

text \<open>
  The loop that cuts \<open>items\<close> into the slices of the workers \<open>i\<close>, \<open>i + 1\<close>, ... (\<open>k\<close> of them are left). A slice that
  exceeded its array would panic; \<open>shards_partition\<close> below shows that every slice has its full size, so that none does.
\<close>

fun shard_loop :: "'a list \<Rightarrow> nat \<Rightarrow> nat \<Rightarrow> nat \<Rightarrow> nat \<Rightarrow> nat \<Rightarrow> 'a list list" where
  "shard_loop items base remainder offset i 0 = []"
| "shard_loop items base remainder offset i (Suc k) =
     (let size = (if i < remainder then base + 1 else base);
          shard = take size (drop offset items) in
      shard # shard_loop items base remainder (offset + size) (i + 1) k)"

abbreviation clamp_workers :: "int \<Rightarrow> 'a list \<Rightarrow> nat" where
  "clamp_workers workers items \<equiv> nat (max 1 (min workers (int (length items))))"

abbreviation shards :: "'a list \<Rightarrow> int \<Rightarrow> 'a list list" where
  "shards items workers \<equiv>
     (let w = clamp_workers workers items in shard_loop items (length items div w) (length items mod w) 0 0 w)"

text \<open>
  The goroutines of the workers run in some order; each writes the cell of its own index, which holds the zero value
  before.
\<close>

definition ProcessSharded :: "'r \<Rightarrow> nat list \<Rightarrow> 'a list \<Rightarrow> int \<Rightarrow> ('a list \<Rightarrow> 'r) \<Rightarrow> 'r list" where
  "ProcessSharded zero order items workers fn =
     (if length items = 0 then []
      else fold (\<lambda>idx results. results[idx := fn (shards items workers ! idx)]) order
             (replicate (clamp_workers workers items) zero))"

text \<open>
  The variant with errors. The goroutines finish in the order \<open>order\<close>; the flag of each says whether its \<^verbatim>\<open>fn\<close> was still
  running, and looked at its context, when that was cancelled, if it was cancelled before the goroutine finished.
\<close>

fun first_error :: "('r \<times> goerr option) list \<Rightarrow> goerr option" where
  "first_error [] = None"
| "first_error ((value, err) # results) = (case err of Some e \<Rightarrow> Some e | None \<Rightarrow> first_error results)"

definition ProcessShardedWithError ::
  "'r \<Rightarrow> bool \<Rightarrow> (nat \<times> bool) list \<Rightarrow> 'a list \<Rightarrow> int \<Rightarrow> (bool \<Rightarrow> 'a list \<Rightarrow> 'r \<times> goerr option) \<Rightarrow> ('r list \<Rightarrow> 'r) \<Rightarrow> 'r \<times> goerr option" where
  "ProcessShardedWithError zero cancelled order items workers fn merge =
     (if length items = 0 then (zero, None)
      else
        let results = fst (fold (\<lambda>(idx, looks) (results, cancelled).
              let (v, err) = fn (looks \<and> cancelled) (shards items workers ! idx) in
              (results[idx := (v, err)], cancelled \<or> err \<noteq> None)) order
              (replicate (clamp_workers workers items) (zero, None), cancelled)) in
        case first_error results of
          Some err \<Rightarrow> (zero, Some err)
        | None \<Rightarrow> (merge (map fst results), None))"

lemma shard_loop_length [simp]: "length (shard_loop items base remainder offset i k) = k"
  by (induction k arbitrary: offset i) (simp_all add: Let_def)

lemma shard_loop_total:
  assumes "remainder \<le> i + k" and "length items - offset = base * k + (remainder - i)"
  shows "concat (shard_loop items base remainder offset i k) = drop offset items \<and>
    (\<forall>shard \<in> set (shard_loop items base remainder offset i k). length shard = base \<or> length shard = Suc base)"
  using assms
proof (induction k arbitrary: offset i)
  case 0
  then show ?case by simp
next
  case (Suc k)
  define size where "size = (if i < remainder then base + 1 else base)"
  have len: "length items - (offset + size) = base * k + (remainder - Suc i)" "size \<le> length items - offset"
    using Suc.prems(2) by (auto simp: size_def)
  have "remainder \<le> Suc i + k" using Suc.prems(1) by simp
  note IH = Suc.IH [OF this len(1)]
  have "length (take size (drop offset items)) = size" using len(2) by simp
  moreover have "take size (drop offset items) @ drop (offset + size) items = drop offset items"
    by (metis append_take_drop_id drop_drop add.commute)
  ultimately show ?case using IH by (simp add: Let_def size_def)
qed

lemma shard_loop_partition:
  assumes "w > 0"
  shows "concat (shard_loop items (length items div w) (length items mod w) 0 0 w) = items \<and>
    (\<forall>shard \<in> set (shard_loop items (length items div w) (length items mod w) 0 0 w).
       length shard = length items div w \<or> length shard = Suc (length items div w))"
proof -
  have "length items mod w \<le> 0 + w" using assms by (simp add: less_imp_le)
  moreover have "length items - 0 = length items div w * w + (length items mod w - 0)" by simp
  ultimately show ?thesis by (rule shard_loop_total [where offset = 0, unfolded drop_0])
qed

lemma clamp_positive: "clamp_workers workers items > 0"
  by simp

lemma shards_partition:
  "concat (shards items workers) = items" "length (shards items workers) = clamp_workers workers items"
  "\<forall>shard \<in> set (shards items workers).
     length shard = length items div clamp_workers workers items \<or> length shard = Suc (length items div clamp_workers workers items)"
  unfolding Let_def
  by (rule conjunct1 [OF shard_loop_partition [OF clamp_positive]], rule shard_loop_length,
      rule conjunct2 [OF shard_loop_partition [OF clamp_positive]])

lemma fold_write_own:
  "length (fold (\<lambda>idx rs. rs[idx := f idx]) order rs) = length rs"
  "j < length rs \<Longrightarrow> fold (\<lambda>idx rs. rs[idx := f idx]) order rs ! j = (if j \<in> set order then f j else rs ! j)"
  by (induction order arbitrary: rs) (auto simp: nth_list_update)

lemma fold_write_all:
  assumes "set order = {..<n}" and "length rs = n"
  shows "fold (\<lambda>idx rs. rs[idx := f idx]) order rs = map f [0..<n]"
  using assms by (intro nth_equalityI) (simp_all add: fold_write_own)

text \<open>Without a failure the context is never cancelled and the results of all slices are merged in their order.\<close>

lemma sharded_fold_ok:
  assumes "\<forall>(idx, looks) \<in> set order. snd (fn False (parts ! idx)) = None"
  shows "fold (\<lambda>(idx, looks) (results, cancelled).
      let (v, err) = fn (looks \<and> cancelled) (parts ! idx) in (results[idx := (v, err)], cancelled \<or> err \<noteq> None)) order (rs, False) =
    (fold (\<lambda>idx results. results[idx := fn False (parts ! idx)]) (map fst order) rs, False)"
  using assms by (induction order arbitrary: rs) (auto simp: Let_def split: prod.splits)

lemma first_error_None: "first_error results = None \<longleftrightarrow> (\<forall>r \<in> set results. snd r = None)"
  by (induction results rule: first_error.induct) (auto split: option.splits)

lemma sharded_all_succeed:
  assumes "items \<noteq> []" and "set (map fst order) = {..<clamp_workers workers items}"
    and ok: "\<forall>part \<in> set (shards items workers). snd (fn False part) = None"
  shows "ProcessShardedWithError zero False order items workers fn merge =
    (merge (map (fst \<circ> fn False) (shards items workers)), None)"
proof -
  define parts where "parts = shards items workers"
  have len: "length parts = clamp_workers workers items" unfolding parts_def by (rule shards_partition(2))
  have "snd (fn False (parts ! idx)) = None" if "(idx, looks) \<in> set order" for idx looks
  proof -
    have "idx \<in> set (map fst order)" using that by force
    then have "idx < length parts" unfolding assms(2) len by (rule iffD1 [OF lessThan_iff])
    then show ?thesis using ok nth_mem unfolding parts_def [symmetric] by blast
  qed
  then have "\<forall>(idx, looks) \<in> set order. snd (fn False (parts ! idx)) = None" by blast
  note fold = sharded_fold_ok [where fn = fn, OF this]
  have all: "fold (\<lambda>idx results. results[idx := fn False (parts ! idx)]) (map fst order) (replicate (clamp_workers workers items) (zero, None)) =
      map (\<lambda>i. fn False (parts ! i)) [0..<clamp_workers workers items]"
    by (rule fold_write_all [OF assms(2)]) simp
  have parts: "map (\<lambda>i. fn False (parts ! i)) [0..<clamp_workers workers items] = map (fn False) parts"
    using len by (intro nth_equalityI) simp_all
  have none: "first_error (map (fn False) parts) = None" using ok by (auto simp: first_error_None parts_def)
  show ?thesis
    unfolding ProcessShardedWithError_def parts_def [symmetric] fold all parts fst_conv Let_def [of "map (fn False) parts"] none
    using assms(1) by simp
qed

text \<open>C21: However the goroutines are scheduled, a sharded loop returns the results of the slices in their order. The slices are
  the items in their order, cut into as many pieces as there are workers, none empty, whose sizes differ by at most one.\<close>

theorem sharded_exact:
  assumes "items \<noteq> []" and "set order = {..<clamp_workers workers items}"
  shows "\<exists>parts. ProcessSharded zero order items workers fn = map fn parts \<and> concat parts = items \<and>
    int (length parts) = max 1 (min workers (int (length items))) \<and>
    (\<exists>base > 0. \<forall>part \<in> set parts. length part = base \<or> length part = Suc base)"
proof -
  define parts where "parts = shards items workers"
  define w where "w = clamp_workers workers items"
  note parts = shards_partition [where items = items and workers = workers, folded parts_def w_def]
  have "w \<le> length items" and w: "int w = max 1 (min workers (int (length items)))"
    using assms(1) by (cases items; simp add: w_def)+
  then have base: "length items div w > 0" by (simp add: div_greater_zero_iff)
  have "ProcessSharded zero order items workers fn = map (\<lambda>i. fn (parts ! i)) [0..<w]"
    unfolding ProcessSharded_def parts_def w_def using assms
    by (simp only: fold_write_all length_replicate if_False length_0_conv)
  also have "\<dots> = map fn parts" using parts(2) by (intro nth_equalityI) simp_all
  finally show ?thesis using parts w base by (intro exI [of _ parts]) auto
qed

text \<open>The error of a sharded loop is that of the first failing shard in the order of the items and not the error that came
  first: when the second of two shards fails and the first, which is cancelled for that reason, returns the error of its
  context, the loop reports the cancellation, whatever the cause was.\<close>

lemma sharded_error_masked:
  assumes "fn False [y] = (v, Some cause)" and "fn True [x] = (u, Some canceled)"
  shows "ProcessShardedWithError zero False [(1, looks), (0, True)] [x, y] 2 fn merge = (zero, Some canceled)"
  using assms by (simp add: ProcessShardedWithError_def numeral_2_eq_2)

section \<open>Async and Await\<close>

text \<open>
  The one result that the goroutine of \<^verbatim>\<open>Async\<close> sends. \<open>done\<close> is the error of the context when the goroutine starts; a panic
  value is its text.
\<close>

type_synonym 'a async_result = "'a \<times> goerr option"

definition Async :: "'a \<Rightarrow> goerr option \<Rightarrow> ('w, 'a \<times> goerr option) go \<Rightarrow> 'w \<Rightarrow> 'a async_result \<times> 'w" where
  "Async zero done fn w =
     (case done of
        Some err \<Rightarrow> ((zero, Some err), w)
      | None \<Rightarrow>
          (case fn w of
             (Ret (v, err), w') \<Rightarrow> ((v, err), w')
           | (Panic p, w') \<Rightarrow> ((zero, Some (errorf (''async: panic recovered: '' @ p))), w')))"

text \<open>
  What \<^verbatim>\<open>Await\<close> sees: the result, a channel that was closed and already emptied, or its own context done first.
\<close>

datatype 'a awaited = Received "'a async_result" | Closed | Cancelled goerr

fun Await :: "'a \<Rightarrow> 'a awaited \<Rightarrow> 'a \<times> goerr option" where
  "Await zero (Received result) = result"
| "Await zero Closed = (zero, Some (ErrorsNew ''context canceled''))"
| "Await zero (Cancelled err) = (zero, Some err)"

lemma Async_never_panics:
  "Await zero (Received (fst (Async zero None fn w))) =
     (case fst (fn w) of Ret r \<Rightarrow> r | Panic p \<Rightarrow> (zero, Some (errorf (''async: panic recovered: '' @ p))))"
  by (simp add: Async_def split: prod.splits exec.splits)

section \<open>Task consumer\<close>

text \<open>The answer to a delivery; the flag of \<open>Nack\<close> asks the broker to queue it again. Errors of the answer itself are ignored.\<close>

datatype acknowledgement = Ack | Nack bool

definition consumer_process ::
  "(string \<Rightarrow> 't option) \<Rightarrow> ('t \<Rightarrow> ('w, goerr option) go) \<Rightarrow> string \<Rightarrow> ('w, acknowledgement) go" where
  "consumer_process unmarshal handler body =
     (case unmarshal body of
        None \<Rightarrow> go_return (Nack False)
      | Some task \<Rightarrow>
          go_bind (handler task) (\<lambda>err. if err \<noteq> None then go_return (Nack True) else go_return Ack))"

text \<open>The loop of a worker over what it receives; a delivery and a done context are both events here.\<close>

fun consumer_work ::
  "(string \<Rightarrow> 't option) \<Rightarrow> ('t \<Rightarrow> ('w, goerr option) go) \<Rightarrow> string option list \<Rightarrow> ('w, acknowledgement list) go" where
  "consumer_work unmarshal handler [] = go_return []"
| "consumer_work unmarshal handler (None # events) = go_return []"
| "consumer_work unmarshal handler (Some body # events) =
     go_bind (consumer_process unmarshal handler body) (\<lambda>a.
     go_bind (consumer_work unmarshal handler events) (\<lambda>as. go_return (a # as)))"

text \<open>Every delivery taken before the context is done is answered once, in order; a malformed one is never queued again.\<close>

lemma consumer_answers_once:
  assumes "consumer_work unmarshal handler events w = (Ret as, w')"
  shows "length as = length (takeWhile (\<lambda>e. e \<noteq> None) events)"
    and "i < length as \<Longrightarrow> \<exists>body. events ! i = Some body \<and> (unmarshal body = None \<longrightarrow> as ! i = Nack False)"
proof -
  have "length as = length (takeWhile (\<lambda>e. e \<noteq> None) events) \<and>
    (\<forall>i < length as. \<exists>body. events ! i = Some body \<and> (unmarshal body = None \<longrightarrow> as ! i = Nack False))"
    using assms
  proof (induction unmarshal handler events arbitrary: w as rule: consumer_work.induct)
    case (3 unmarshal handler body events)
    from 3(2) [simplified] show ?case
      by (rule go_bind_cases; (elim go_bind_cases)?)
         (auto dest!: 3(1) simp: nth_Cons consumer_process_def split: nat.splits)
  qed auto
  then show "length as = length (takeWhile (\<lambda>e. e \<noteq> None) events)"
    and "i < length as \<Longrightarrow> \<exists>body. events ! i = Some body \<and> (unmarshal body = None \<longrightarrow> as ! i = Nack False)" by auto
qed

section \<open>Witnesses\<close>

theorem worker_pool_drains_witness:
  "\<exists>p. pool_reachable 1 1 p \<and> (\<exists>p'. pool_Stop_wait p = Some p' \<and> mset (wp_handled p') = {#7 :: nat#})"
proof -
  let ?p = "\<lambda>q c g h. \<lparr>wp_workers = 1, wp_capacity = 1, wp_queue = q, wp_closed = c, wp_cancelled = False, wp_goroutines = [g],
    wp_accepted = [7 :: nat], wp_handled = h\<rparr>"
  have "pool_reachable 1 1 (?p [7] False Ranging [])"
    by (rule pool_reachable.Submitted [OF pool_reachable.Started [OF pool_reachable.Created], where item = 7 and r = "Ret None"])
       (simp_all add: pool_Submit_def pool_Start_def NewWorkerPool_def)
  then have "pool_reachable 1 1 (?p [7] True Ranging [])"
    by (rule pool_reachable.Stopping [where r = "Ret ()"]) (simp add: pool_Stop_close_def)
  then have "pool_reachable 1 1 (?p [] True (Holding 7) [])"
    by (rule pool_reachable.Worked [where i = 0]) (simp add: pool_run_def)
  then have "pool_reachable 1 1 (?p [] True (Handling 7) [7])"
    by (rule pool_reachable.Worked [where i = 0]) (simp add: pool_run_def)
  then have "pool_reachable 1 1 (?p [] True Ranging [7])"
    by (rule pool_reachable.Worked [where i = 0]) (simp add: pool_run_def)
  then have r: "pool_reachable 1 1 (?p [] True Returned [7])"
    by (rule pool_reachable.Worked [where i = 0]) (simp add: pool_run_def)
  show ?thesis
    using r worker_pool_drains [OF r] by (intro exI [of _ "?p [] True Returned [7]"]) (simp add: pool_Stop_wait_def)
qed

theorem sharded_exact_witness:
  "\<exists>parts. ProcessSharded 0 [1, 0] [3, 4, 5 :: nat] 2 sum_list = map sum_list parts \<and> concat parts = [3, 4, 5] \<and> length parts = 2"
  using sharded_exact [of "[3, 4, 5 :: nat]" "[1, 0]" 2 0 sum_list] by (auto simp: lessThan_Suc numeral_2_eq_2)

lemma sharded_error_masked_sample:
  "ProcessShardedWithError 0 False [(1, False), (0, True)] [''a'', ''b''] 2
     (\<lambda>cancelled shard. if cancelled then (0, Some (ErrorsNew ''context canceled''))
        else if shard = [''b''] then (0, Some (ErrorsNew ''disk full'')) else (1, None)) sum_list =
   (0 :: nat, Some (ErrorsNew ''context canceled''))"
  by (rule sharded_error_masked [where cause = "ErrorsNew ''disk full''"]) simp_all

end
