(* ===== verification/Wolf_Resilience.thy ===== *)
theory Wolf_Resilience
  imports Wolf_Errors Complex_Main
begin

text \<open>
  Resilience (\<^verbatim>\<open>src/infra/resilience\<close>): retry with back-off, fallback, timeout, the trip conditions of the circuit breakers and
  the HTTP client built from them. The circuit breaker itself, the network, the clock and the random source are arguments.
\<close>

section \<open>Retry\<close>

text \<open>
  The exponential component is an \<^verbatim>\<open>int64\<close> that wraps around; the product with the jitter is rounded toward zero. The
  rounding of the floating-point product itself is left out.
\<close>

definition backoffDelay :: "64 word \<Rightarrow> nat \<Rightarrow> real \<Rightarrow> int" where
  "backoffDelay base attempt rand =
     (let e = ((\<lambda>e. e * 2) ^^ attempt) base;
          jitter = 0.75 + rand * 0.5;
          delay = real_of_int (sint e) * jitter in
      if delay < 0 then \<lceil>delay\<rceil> else \<lfloor>delay\<rfloor>)"

text \<open>
  What the loop uses of its surroundings: the error of the context, a random number in \<open>[0, 1)\<close>, and the wait for a timer,
  which returns the error of the context if that was done first.
\<close>

record 'w retry_env =
  ctx_Err :: "('w, goerr option) go"
  rand_Float64 :: "('w, real) go"
  timer_wait :: "int \<Rightarrow> ('w, goerr option) go"

text \<open>The loop from \<open>attempt\<close> on, with \<open>k\<close> iterations left. Wrapping a nil error with \<^verbatim>\<open>%w\<close> prints it as a bad verb.\<close>

fun with_retry_loop ::
  "'w retry_env \<Rightarrow> int \<Rightarrow> 64 word \<Rightarrow> ('w, goerr option) go \<Rightarrow> nat \<Rightarrow> nat \<Rightarrow> goerr option \<Rightarrow> ('w, goerr option) go" where
  "with_retry_loop env maxRetries baseDelay fn 0 attempt lastErr =
     go_return (Some (let prefix = ''retry: all '' @ itoa (maxRetries + 1) @ '' attempt(s) failed'' in
       case lastErr of Some e \<Rightarrow> errorf_w prefix e | None \<Rightarrow> errorf (prefix @ '': %!w(<nil>)'')))"
| "with_retry_loop env maxRetries baseDelay fn (Suc k) attempt lastErr =
     go_bind (ctx_Err env) (\<lambda>err.
       case err of
         Some e \<Rightarrow> go_return (Some (errorf_w (''retry: context cancelled after '' @ itoa (int attempt) @ '' attempt(s)'') e))
       | None \<Rightarrow>
           go_bind fn (\<lambda>lastErr.
             if lastErr = None then go_return None
             else if int attempt = maxRetries then with_retry_loop env maxRetries baseDelay fn 0 attempt lastErr
             else
               go_bind (rand_Float64 env) (\<lambda>r.
               go_bind (timer_wait env (backoffDelay baseDelay attempt r)) (\<lambda>done.
                 case done of
                   Some e \<Rightarrow> go_return (Some (errorf_w
                     (''retry: context cancelled waiting for back-off after '' @ itoa (int attempt + 1) @ '' attempt(s)'') e))
                 | None \<Rightarrow> with_retry_loop env maxRetries baseDelay fn k (attempt + 1) lastErr))))"

definition WithRetry :: "'w retry_env \<Rightarrow> int \<Rightarrow> 64 word \<Rightarrow> ('w, goerr option) go \<Rightarrow> ('w, goerr option) go" where
  "WithRetry env maxRetries baseDelay fn = with_retry_loop env maxRetries baseDelay fn (nat (maxRetries + 1)) 0 None"

section \<open>Fallback and timeout\<close>

definition res_WithFallback :: "('w, 'a + goerr) go \<Rightarrow> ('w, 'a + goerr) go \<Rightarrow> ('w, 'a + goerr) go" where
  "res_WithFallback primary fallback =
     go_bind primary (\<lambda>r. case r of Inl result \<Rightarrow> go_return (Inl result) | Inr err \<Rightarrow> fallback)"

text \<open>
  The function is given the context with the deadline; nothing but the function looks at it. \<open>with_deadline\<close> derives the
  context.
\<close>

definition res_WithTimeout ::
  "('c \<Rightarrow> int \<Rightarrow> 'c) \<Rightarrow> 'c \<Rightarrow> int \<Rightarrow> ('c \<Rightarrow> ('w, 'a + goerr) go) \<Rightarrow> ('w, 'a + goerr) go" where
  "res_WithTimeout with_deadline ctx duration fn =
     go_bind (fn (with_deadline ctx duration)) (\<lambda>r.
       case r of Inl result \<Rightarrow> go_return (Inl result) | Inr err \<Rightarrow> go_return (Inr (errorf_w ''timeout'' err)))"

section \<open>Circuit breakers\<close>

record counts =
  Requests :: nat
  TotalFailures :: nat

definition cb_ReadyToTrip :: "counts \<Rightarrow> bool" where
  "cb_ReadyToTrip c = (if Requests c = 0 then False else real (TotalFailures c) / real (Requests c) > 0.5)"

definition http_ReadyToTrip :: "counts \<Rightarrow> bool" where
  "http_ReadyToTrip c = (if Requests c < 5 then False else real (TotalFailures c) / real (Requests c) > 0.5)"

section \<open>HTTP client\<close>






section \<open>Lemmas\<close>

lemma double_power: "((\<lambda>e. e * 2) ^^ n) e = (e :: 64 word) * 2 ^ n"
  by (induction n) simp_all

text \<open>Where the doubling does not wrap around, the back-off is within a quarter of it.\<close>

lemma backoffDelay_bounds:
  assumes "0 \<le> rand" "rand < 1" and "0 \<le> b" "b * 2 ^ attempt < 2 ^ 63"
  shows "3 * (b * 2 ^ attempt) \<le> 4 * backoffDelay (word_of_int b) attempt rand + 3"
    and "4 * backoffDelay (word_of_int b) attempt rand \<le> 5 * (b * 2 ^ attempt)"
proof -
  define e where "e = b * 2 ^ attempt"
  have "((\<lambda>e. e * 2) ^^ attempt) (word_of_int b) = (word_of_int e :: 64 word)" by (simp add: double_power e_def)
  moreover have "0 \<le> e" "e < 2 ^ 63" using assms by (simp_all add: e_def)
  ultimately have sint: "sint (((\<lambda>e. e * 2) ^^ attempt) (word_of_int b) :: 64 word) = e"
    by (simp add: signed_of_int signed_take_bit_int_eq_self)
  define delay where "delay = real_of_int e * (0.75 + rand * 0.5)"
  have low: "3 * real_of_int e \<le> 4 * delay" and high: "4 * delay \<le> 5 * real_of_int e"
    using assms(1,2) \<open>0 \<le> e\<close> mult_left_mono [of "rand" 1 "real_of_int e"] mult_nonneg_nonneg [of "real_of_int e" rand]
    by (simp_all add: delay_def field_simps)
  have "0 \<le> delay" using low \<open>0 \<le> e\<close> by linarith
  then have d: "backoffDelay (word_of_int b) attempt rand = \<lfloor>delay\<rfloor>"
    unfolding backoffDelay_def Let_def sint delay_def by simp
  show "3 * (b * 2 ^ attempt) \<le> 4 * backoffDelay (word_of_int b) attempt rand + 3"
    using low unfolding d e_def [symmetric] by linarith
  show "4 * backoffDelay (word_of_int b) attempt rand \<le> 5 * (b * 2 ^ attempt)"
    using high unfolding d e_def [symmetric] by linarith
qed

text \<open>A negative number of retries runs the function not at all and still reports that it failed.\<close>

lemma negative_retries: "maxRetries < 0 \<Longrightarrow> \<exists>e. WithRetry env maxRetries base fn w = (Ret (Some e), w)"
  by (simp add: WithRetry_def)

text \<open>Both breakers trip on a majority of failures; the general one does so on the very first request.\<close>

lemma majority: "0 < n \<Longrightarrow> (1 / 2 < real m / real n) = (n < 2 * m)"
  by (auto simp: field_simps)

lemma cb_trips_iff: "cb_ReadyToTrip c \<longleftrightarrow> 0 < Requests c \<and> Requests c < 2 * TotalFailures c"
  using majority [of "Requests c" "TotalFailures c"] by (auto simp: cb_ReadyToTrip_def)

lemma http_trips_iff: "http_ReadyToTrip c \<longleftrightarrow> 5 \<le> Requests c \<and> Requests c < 2 * TotalFailures c"
  using majority [of "Requests c" "TotalFailures c"] by (auto simp: http_ReadyToTrip_def)

lemma single_failure_trips: "cb_ReadyToTrip \<lparr>Requests = 1, TotalFailures = 1\<rparr>" "\<not> http_ReadyToTrip \<lparr>Requests = 1, TotalFailures = 1\<rparr>"
  by (simp_all add: cb_trips_iff http_trips_iff)

text \<open>A deadline does not bound a function that does not look at its context: its result is returned, however late.\<close>

lemma timeout_needs_cooperation:
  "m w = (Ret (Inl v), w') \<Longrightarrow> res_WithTimeout with_deadline ctx d (\<lambda>_. m) w = (Ret (Inl v), w')"
  by (simp add: res_WithTimeout_def go_bind_def)

text \<open>A fallback runs exactly if the primary function returned an error, in the state that left.\<close>

lemma fallback_runs:
  "primary w = (Ret (Inr e), w') \<Longrightarrow> res_WithFallback primary fallback w = fallback w'"
  "primary w = (Ret (Inl v), w') \<Longrightarrow> res_WithFallback primary fallback w = (Ret (Inl v), w')"
  by (simp_all add: res_WithFallback_def go_bind_def)

subsection \<open>Attempts with a request body\<close>







section \<open>Witnesses\<close>




end
