(* ===== verification/Wolf_Idempotency.thy ===== *)
theory Wolf_Idempotency
  imports Wolf_Tx
begin

text \<open>
  The store of idempotency keys (\<^verbatim>\<open>src/infra/idempotency/store.go\<close>). The table maps a key to its one row. The time of the
  database is an argument; every call can fail.
\<close>

record cached_response =
  cr_StatusCode :: int
  cr_Body :: string
  cr_CreatedAt :: int
  cr_ExpiresAt :: int

type_synonym idempotency_keys = "string \<rightharpoonup> cached_response"

abbreviation ErrNoRows :: goerr where
  "ErrNoRows \<equiv> ErrorsNew ''sql: no rows in result set''"

abbreviation select_key :: "int \<Rightarrow> string \<Rightarrow> (idempotency_keys, cached_response) statement" where
  "select_key now key d \<equiv>
     (case d key of
        Some resp \<Rightarrow> if cr_ExpiresAt resp > now then (Inl resp, d) else (Inr ErrNoRows, d)
      | None \<Rightarrow> (Inr ErrNoRows, d))"

definition idem_Get ::
  "int \<Rightarrow> string \<Rightarrow> ((idempotency_keys, 'm) world_scheme, cached_response option + goerr) go" where
  "idem_Get now key =
     go_bind (on_db (db_Exec (select_key now key))) (\<lambda>r.
       case r of
         Inr err \<Rightarrow>
           if errors_Is (Some err) ErrNoRows then go_return (Inl None)
           else go_return (Inr (errorf_w (''idempotency: get key '' @ quote key) err))
       | Inl resp \<Rightarrow> go_return (Inl (Some resp)))"

definition idem_Set ::
  "string \<Rightarrow> cached_response \<Rightarrow> ((idempotency_keys, 'm) world_scheme, goerr option) go" where
  "idem_Set key resp =
     go_bind (on_db (db_Exec (\<lambda>d. (Inl (), d(key \<mapsto> resp))))) (\<lambda>r.
       case r of
         Inr err \<Rightarrow> go_return (Some (errorf_w (''idempotency: set key '' @ quote key) err))
       | Inl _ \<Rightarrow> go_return None)"

definition idem_Cleanup :: "int \<Rightarrow> ((idempotency_keys, 'm) world_scheme, goerr option) go" where
  "idem_Cleanup now =
     go_bind (on_db (db_Exec (\<lambda>d. (Inl (), \<lambda>key.
         case d key of Some resp \<Rightarrow> if cr_ExpiresAt resp \<le> now then None else Some resp | None \<Rightarrow> None)))) (\<lambda>r.
       case r of
         Inr err \<Rightarrow> go_return (Some (errorf_w ''idempotency: cleanup'' err))
       | Inl _ \<Rightarrow> go_return None)"

text \<open>What can happen to the store while nobody sets \<open>k\<close> again; the second component is the time.\<close>

inductive idem_run ::
  "string \<Rightarrow> (idempotency_keys, 'm) world_scheme \<times> int \<Rightarrow> (idempotency_keys, 'm) world_scheme \<times> int \<Rightarrow> bool"
  for k :: string and s where
  Start: "idem_run k s s"
| Tick: "idem_run k s (w, t) \<Longrightarrow> t \<le> t' \<Longrightarrow> idem_run k s (w, t')"
| Get: "idem_run k s (w, t) \<Longrightarrow> idem_Get t key w = (r, w') \<Longrightarrow> idem_run k s (w', t)"
| Set: "idem_run k s (w, t) \<Longrightarrow> key \<noteq> k \<Longrightarrow> idem_Set key resp w = (q, w') \<Longrightarrow> idem_run k s (w', t)"
| Cleanup: "idem_run k s (w, t) \<Longrightarrow> idem_Cleanup t w = (q, w') \<Longrightarrow> idem_run k s (w', t)"

abbreviation keys_of :: "(idempotency_keys, 'm) world_scheme \<Rightarrow> idempotency_keys" where
  "keys_of w \<equiv> committed (db w)"

lemma driver_call_committed: "driver_call q = (r, q') \<Longrightarrow> committed q' = committed q"
  using driver_call_keeps(1) [of q] by simp

lemma exec_keys:
  assumes "db_Exec st q = (r, q')"
  shows "committed q' = committed q \<or> committed q' = snd (st (committed q))"
  using assms driver_call_committed
  by (fastforce simp: db_Exec_def split: prod.splits option.splits sum.splits)

lemma idem_Get_keys: "idem_Get now key w = (r, w') \<Longrightarrow> keys_of w' = keys_of w"
  using exec_keys [of "select_key now key" "db w"]
  by (fastforce simp: idem_Get_def go_bind_def on_db_def split: prod.splits sum.splits if_splits option.splits)

lemma idem_Set_keys:
  assumes "idem_Set key resp w = (q, w')"
  shows "keys_of w' = keys_of w \<or> keys_of w' = (keys_of w)(key \<mapsto> resp)" and "q = Ret None \<Longrightarrow> keys_of w' = (keys_of w)(key \<mapsto> resp)"
  using assms driver_call_committed
  by (fastforce simp: idem_Set_def go_bind_def on_db_def db_Exec_def split: prod.splits sum.splits option.splits)+

lemma idem_Cleanup_keys:
  assumes "idem_Cleanup now w = (q, w')" and "keys_of w k = Some resp" and "now < cr_ExpiresAt resp"
  shows "keys_of w' k = Some resp"
  using assms driver_call_committed
  by (fastforce simp: idem_Cleanup_def go_bind_def on_db_def db_Exec_def split: prod.splits sum.splits option.splits)

lemma idem_run_keeps:
  assumes "idem_run k (w1, t1) st" and "keys_of w1 k = Some resp"
  shows "snd st < cr_ExpiresAt resp \<longrightarrow> keys_of (fst st) k = Some resp"
  using assms(1)
proof induction
  case Start
  then show ?case using assms(2) by simp
next
  case (Get w t key r w')
  then show ?case using idem_Get_keys [OF Get.hyps(2)] by simp
next
  case (Set w t key resp' q w')
  then show ?case using idem_Set_keys(1) [OF Set.hyps(3)] by auto
next
  case (Cleanup w t q w')
  then show ?case using idem_Cleanup_keys [OF Cleanup.hyps(2)] by auto
qed simp

text \<open>C30: A response that was stored is replayed until it expires: whatever is read, stored under other keys or cleaned up in
  between, a lookup of the key returns that response, and a failure of the database is reported as an error instead of
  as a first request.\<close>

theorem idempotency_replay:
  assumes "idem_Set k resp w = (Ret None, w1)" and "idem_run k (w1, t1) (w2, t2)" and "t2 < cr_ExpiresAt resp"
  shows "case driver_call (db w2) of
      (None, q) \<Rightarrow> idem_Get t2 k w2 = (Ret (Inl (Some resp)), w2\<lparr>db := q\<rparr>)
    | (Some e, q) \<Rightarrow> \<not> errors_Is (Some e) ErrNoRows \<longrightarrow> (\<exists>err. idem_Get t2 k w2 = (Ret (Inr err), w2\<lparr>db := q\<rparr>))"
proof -
  have "keys_of w1 k = Some resp" using idem_Set_keys(2) [OF assms(1)] by simp
  then have "keys_of w2 k = Some resp" using idem_run_keeps [OF assms(2)] assms(3) by simp
  moreover obtain f q where f: "driver_call (db w2) = (f, q)" by fastforce
  ultimately have "committed q k = Some resp" using driver_call_committed by metis
  then show ?thesis
    using assms(3) f by (cases f) (simp_all add: idem_Get_def go_bind_def on_db_def db_Exec_def)
qed

definition idem_sample_response :: cached_response where
  "idem_sample_response = \<lparr>cr_StatusCode = 201, cr_Body = ''{}'', cr_CreatedAt = 0, cr_ExpiresAt = 60\<rparr>"

definition idem_sample_world :: "idempotency_keys world" where
  "idem_sample_world = \<lparr>db = \<lparr>committed = [''k'' \<mapsto> idem_sample_response], txs = Map.empty, next_tx = 0, faults = []\<rparr>\<rparr>"

theorem idempotency_replay_witness:
  "idem_Get 59 ''k'' idem_sample_world = (Ret (Inl (Some idem_sample_response)), idem_sample_world)"
proof -
  have set: "idem_Set ''k'' idem_sample_response idem_sample_world = (Ret None, idem_sample_world)"
    by (simp add: idem_Set_def go_bind_def on_db_def db_Exec_def driver_call_def idem_sample_world_def)
  have run: "idem_run ''k'' (idem_sample_world, 0) (idem_sample_world, 59)"
    by (rule idem_run.Tick [OF idem_run.Start]) simp
  show ?thesis
    using idempotency_replay [OF set run] by (simp add: idem_sample_response_def driver_call_def idem_sample_world_def)
qed

end
