(* ===== verification/Wolf_Bootstrap.thy ===== *)
theory Wolf_Bootstrap
  imports Wolf_Seed Wolf_Config
begin

text \<open>
  The composition root (\<^verbatim>\<open>src/infra/bootstrap/app.go\<close>) and the interfaces of a module (\<^verbatim>\<open>src/runtime/module.go\<close>): acquiring the
  resources of the application with their release when a step fails, registering the modules of a manifest, and running
  the servers in an error group. The constructors, the servers and what a module does when it is called are arguments.
\<close>

section \<open>New\<close>

datatype resource = Tracer | WriteDB | ReadDB | CacheClient | EventBus | MessagingStream

text \<open>
  \<open>nb_Wire\<close> is the rest of the construction, after the last step that can fail; it can still panic. The flag of \<open>nb_JWT\<close>
  says whether tokens are blacklisted in Redis or not at all.
\<close>

record 'w builders =
  nb_Load :: "string \<Rightarrow> ('w, config + goerr) go"
  nb_Logger :: "config \<Rightarrow> ('w, goerr option) go"
  nb_open :: "resource \<Rightarrow> config \<Rightarrow> ('w, goerr option) go"
  nb_close :: "resource \<Rightarrow> ('w, unit) go"
  nb_JWT :: "bool \<Rightarrow> config \<Rightarrow> ('w, goerr option) go"
  nb_Wire :: "config \<Rightarrow> ('w, unit) go"

text \<open>The deferred function: the closers run in the reverse of the order in which they were added, here the newest first.\<close>

abbreviation release :: "'w builders \<Rightarrow> resource list \<Rightarrow> goerr \<Rightarrow> ('w, config + goerr) go" where
  "release b closers retErr \<equiv> foldr (\<lambda>r m. go_bind (nb_close b r) (\<lambda>_. m)) closers (go_return (Inr retErr))"

abbreviation or_release ::
  "'w builders \<Rightarrow> resource list \<Rightarrow> string \<Rightarrow> ('w, goerr option) go \<Rightarrow> ('w, config + goerr) go \<Rightarrow> ('w, config + goerr) go" where
  "or_release b closers what m k \<equiv>
     go_bind m (\<lambda>r. case r of Some err \<Rightarrow> release b closers (errorf_w (''bootstrap: '' @ what) err) | None \<Rightarrow> k)"

text \<open>
  From the write pool on; \<open>closers\<close> are those added before. The calls in between that only allocate, such as the transaction
  manager, the blacklist, the middlewares and the outbox store, do not show here, nor does the registration of metrics, which
  comes before the first resource.
\<close>

definition boot_resources :: "'w builders \<Rightarrow> config \<Rightarrow> resource list \<Rightarrow> ('w, config + goerr) go" where
  "boot_resources b cfg closers =
     or_release b closers ''write db pool'' (nb_open b WriteDB cfg) (
     let closers = WriteDB # closers in
     or_release b closers ''read db pool'' (nb_open b ReadDB cfg) (
     let closers = ReadDB # closers in
     or_release b closers ''cache client'' (nb_open b CacheClient cfg) (
     let closers = CacheClient # closers in
     or_release b closers ''jwt service'' (nb_JWT b (cache_Driver (cfg_Cache cfg) = ''redis'') cfg) (
     or_release b closers ''event bus'' (nb_open b EventBus cfg) (
     let closers = EventBus # closers in
     or_release b closers ''messaging stream'' (nb_open b MessagingStream cfg) (
     go_bind (nb_Wire b cfg) (\<lambda>_. go_return (Inl cfg))))))))"

definition boot_New :: "'w builders \<Rightarrow> string \<Rightarrow> ('w, config + goerr) go" where
  "boot_New b cfgPath =
     go_bind (nb_Load b cfgPath) (\<lambda>r.
       case r of
         Inr err \<Rightarrow> release b [] (errorf_w ''bootstrap: load config'' err)
       | Inl cfg \<Rightarrow>
           or_release b [] ''init logger'' (nb_Logger b cfg)
             (if otel_Enabled (cfg_Otel cfg)
              then or_release b [] ''init tracing'' (nb_open b Tracer cfg) (boot_resources b cfg [Tracer])
              else boot_resources b cfg []))"

section \<open>Modules\<close>

text \<open>
  A module with its optional interfaces: \<open>None\<close> where it does not implement one. An element of its HTTP middleware is \<open>None\<close> if
  it is a \<^verbatim>\<open>gin.HandlerFunc\<close> and otherwise the name of its type; the names of the health checks are in the order in which
  the map is ranged over. Interceptors come with the prefix of the services they are for. The dependencies are part of
  \<open>app_module\<close>; \<^verbatim>\<open>OnStop\<close> is called by the shutdown.
\<close>

record 'w boot_module = app_module +
  bm_RegisterEvents :: "('w, unit) go"
  bm_RegisterSubscribers :: "('w, goerr option) go"
  bm_RegisterStreams :: "('w, goerr option) go option"
  bm_HTTPMiddleware :: "string option list option"
  bm_HealthChecks :: "string list option"
  bm_SessionRevocationChecker :: "string option"
  bm_GRPCInterceptors :: "(string \<times> string list) option"
  bm_RegisterHTTP :: "nat \<Rightarrow> ('w, unit) go"
  bm_RegisterGRPC :: "('w, unit) go"
  bm_OnStart :: "('w, goerr option) go"
  bm_OnStop :: "('w, goerr option) go"

text \<open>The fields of the application that the operations below change, and the world outside.\<close>

record 'w boot_app =
  ba_modules :: "'w boot_module list"
  ba_readiness :: "string list"
  ba_sessionChecker :: "string option"
  ba_env :: 'w

abbreviation on_env :: "('w, 'a) go \<Rightarrow> ('w boot_app, 'a) go" where
  "on_env m \<equiv> (\<lambda>a. case m (ba_env a) of (r, w) \<Rightarrow> (r, a\<lparr>ba_env := w\<rparr>))"

definition RegisterModule :: "'w boot_module \<Rightarrow> ('w boot_app, goerr option) go" where
  "RegisterModule m =
     go_bind (on_env (bm_RegisterSubscribers m)) (\<lambda>err.
       case err of
         Some e \<Rightarrow> go_return (Some (errorf_w (''bootstrap: register subscribers for module '' @ quote (m_Name m)) e))
       | None \<Rightarrow>
     go_bind (case bm_RegisterStreams m of None \<Rightarrow> go_return None | Some reg \<Rightarrow> on_env reg) (\<lambda>err.
       case err of
         Some e \<Rightarrow> go_return (Some (errorf_w (''bootstrap: register streams for module '' @ quote (m_Name m)) e))
       | None \<Rightarrow>
           let raw = (case bm_HTTPMiddleware m of None \<Rightarrow> [] | Some raw \<Rightarrow> raw) in
           (case find (\<lambda>(i, h). h \<noteq> None) (enumerate 0 raw) of
              Some (i, h) \<Rightarrow>
                go_return (Some (errorf (''bootstrap: module '' @ quote (m_Name m) @ '': HTTPMiddleware element '' @ itoa (int i) @
                  '' is not gin.HandlerFunc (got '' @ the h @ '')'')))
            | None \<Rightarrow>
                go_bind (\<lambda>a. (Ret (), a\<lparr>ba_readiness := ba_readiness a @
                    map (\<lambda>name. m_Name m @ ''_'' @ name) (case bm_HealthChecks m of None \<Rightarrow> [] | Some names \<Rightarrow> names)\<rparr>)) (\<lambda>_.
                go_bind (on_env (bm_RegisterHTTP m (length raw))) (\<lambda>_.
                go_bind (on_env (bm_RegisterGRPC m)) (\<lambda>_.
                  (\<lambda>a. (Ret None, a\<lparr>ba_modules := ba_modules a @ [m]\<rparr>))))))))"

text \<open>An entry of the manifest: its name and its factory.\<close>

type_synonym 'w catalog_entry = "string \<times> ('w, 'w boot_module) go"

type_synonym 'w boot_registry = "('w, unit) boot_module_ext module_registry"

text \<open>The loop of \<^verbatim>\<open>RegisterModules\<close> over the manifest.\<close>

fun load_modules ::
  "(string \<Rightarrow> bool) \<Rightarrow> 'w catalog_entry list \<Rightarrow> 'w boot_registry \<Rightarrow> ('w boot_app, 'w boot_registry + goerr) go" where
  "load_modules enabled [] registry = go_return (Inl registry)"
| "load_modules enabled ((name, factory) # manifest) registry =
     (if \<not> enabled name then load_modules enabled manifest registry
      else
        go_bind (on_env factory) (\<lambda>m.
        go_bind (on_env (bm_RegisterEvents m)) (\<lambda>_.
          case module_Register m registry of
            (Some err, _) \<Rightarrow> go_return (Inr (errorf_w ''bootstrap'' err))
          | (None, registry') \<Rightarrow> load_modules enabled manifest registry')))"

text \<open>
  The first module that provides a checker of revoked sessions wires it into the JWT service. The sort is partial in the
  model; \<open>modules_wired_in_order\<close> below includes that it returns.
\<close>

definition RegisterModules ::
  "((string \<rightharpoonup> string list) \<Rightarrow> string list) \<Rightarrow> config \<Rightarrow> 'w catalog_entry list \<Rightarrow> ('w boot_app, goerr option) go" where
  "RegisterModules order cfg manifest =
     go_bind (load_modules (Modules_IsEnabled (cfg_Modules cfg)) manifest NewModuleRegistry) (\<lambda>r.
       case r of
         Inr err \<Rightarrow> go_return (Some err)
       | Inl registry \<Rightarrow>
           (case Modules order registry of
              None \<Rightarrow> go_panic ''the sort does not return''
            | Some (Inl err) \<Rightarrow> go_return (Some (errorf_w ''bootstrap'' err))
            | Some (Inr ordered) \<Rightarrow>
                go_bind (\<lambda>a. (Ret (), case find (\<lambda>m. bm_SessionRevocationChecker m \<noteq> None) ordered of
                    Some m \<Rightarrow> a\<lparr>ba_sessionChecker := bm_SessionRevocationChecker m\<rparr> | None \<Rightarrow> a)) (\<lambda>_.
                for_err RegisterModule ordered)))"

section \<open>Run\<close>

text \<open>The modules start before the error group \<open>serve\<close> of the servers, in the order of their registration.\<close>

abbreviation boot_start :: "'w boot_module \<Rightarrow> ('w boot_app, goerr option) go" where
  "boot_start m \<equiv> go_bind (on_env (bm_OnStart m)) (\<lambda>err.
     go_return (map_option (errorf_w (''bootstrap: module '' @ quote (m_Name m) @ '' OnStart'')) err))"

definition boot_Run :: "('w boot_app, goerr option) go \<Rightarrow> ('w boot_app, goerr option) go" where
  "boot_Run serve a =
     go_bind (for_err boot_start (ba_modules a)) (\<lambda>err. case err of Some e \<Rightarrow> go_return (Some e) | None \<Rightarrow> serve) a"

subsection \<open>The error group\<close>

datatype server = HTTPServer | MetricsServer | GRPCServer | OutboxWorker | OutboxNotifier

fun server_name :: "server \<Rightarrow> string" where
  "server_name HTTPServer = ''http server''"
| "server_name MetricsServer = ''metrics server''"
| "server_name GRPCServer = ''grpc server''"
| "server_name OutboxWorker = ''outbox worker''"
| "server_name OutboxNotifier = ''outbox notifier''"

text \<open>
  The goroutines that still run, whether the gRPC server is the disabled one, which returns at once, the servers that the
  watcher of the context has still to stop, whether it still runs, whether the context is done, the servers that were told
  to stop, and the first error of the group.
\<close>

record run_state =
  rs_up :: "server list"
  rs_grpcNoop :: bool
  rs_toStop :: "server list"
  rs_watching :: bool
  rs_done :: bool
  rs_stopped :: "server list"
  rs_err :: "goerr option"

text \<open>
  What can happen: the parent context is cancelled; a goroutine returns an error, or nil; the watcher stops the next server,
  whatever \<^verbatim>\<open>Stop\<close> answers, or returns. An enabled server returns nil only after it was told to stop, a relay only after the
  context is done, whose errors are then ignored.
\<close>

datatype run_action = Cancel | Fails server goerr | Returns server | Stop | Watch

abbreviation relay :: "server \<Rightarrow> bool" where
  "relay s \<equiv> s = OutboxWorker \<or> s = OutboxNotifier"

definition run_step :: "run_action \<Rightarrow> run_state \<Rightarrow> run_state option" where
  "run_step act st =
     (case act of
        Cancel \<Rightarrow> Some (st\<lparr>rs_done := True\<rparr>)
      | Fails s e \<Rightarrow>
          if s \<notin> set (rs_up st) then None
          else if relay s \<and> rs_done st then Some (st\<lparr>rs_up := remove1 s (rs_up st)\<rparr>)
          else Some (st\<lparr>rs_up := remove1 s (rs_up st), rs_done := True,
            rs_err := (case rs_err st of None \<Rightarrow> Some (errorf_w (''bootstrap: '' @ server_name s) e) | Some e' \<Rightarrow> Some e')\<rparr>)
      | Returns s \<Rightarrow>
          if s \<in> set (rs_up st) \<and> (if relay s then rs_done st else s \<in> set (rs_stopped st) \<or> s = GRPCServer \<and> rs_grpcNoop st)
          then Some (st\<lparr>rs_up := remove1 s (rs_up st)\<rparr>) else None
      | Stop \<Rightarrow>
          (case rs_toStop st of
             s # rest \<Rightarrow> if rs_done st then Some (st\<lparr>rs_toStop := rest, rs_stopped := s # rs_stopped st\<rparr>) else None
           | [] \<Rightarrow> None)
      | Watch \<Rightarrow>
          if rs_watching st \<and> rs_done st \<and> rs_toStop st = [] then Some (st\<lparr>rs_watching := False\<rparr>) else None)"

text \<open>\<^verbatim>\<open>g.Wait\<close>: it returns the first error once every goroutine has returned.\<close>

definition group_Wait :: "run_state \<Rightarrow> goerr option option" where
  "group_Wait st = (if rs_up st = [] \<and> \<not> rs_watching st then Some (rs_err st) else None)"

definition run_servers :: "bool \<Rightarrow> bool \<Rightarrow> bool \<Rightarrow> run_state" where
  "run_servers metrics notifier grpcEnabled =
     \<lparr>rs_up = [HTTPServer] @ (if metrics then [MetricsServer] else []) @ [GRPCServer, OutboxWorker] @
        (if notifier then [OutboxNotifier] else []),
      rs_grpcNoop = (\<not> grpcEnabled),
      rs_toStop = [HTTPServer] @ (if metrics then [MetricsServer] else []) @ [GRPCServer],
      rs_watching = True, rs_done = False, rs_stopped = [], rs_err = None\<rparr>"

section \<open>Nothing stays open when New fails\<close>

text \<open>
  \<open>holds\<close> observes the resources that are open, the newest first. A constructor opens its resource exactly if it succeeds,
  a closer closes the newest one, and nothing else opens or closes.
\<close>

definition builders_ok :: "'w builders \<Rightarrow> ('w \<Rightarrow> resource list) \<Rightarrow> bool" where
  "builders_ok b holds \<longleftrightarrow>
     (\<forall>path w x w'. nb_Load b path w = (x, w') \<longrightarrow> holds w' = holds w) \<and>
     (\<forall>cfg w x w'. nb_Logger b cfg w = (x, w') \<longrightarrow> holds w' = holds w) \<and>
     (\<forall>redis cfg w x w'. nb_JWT b redis cfg w = (x, w') \<longrightarrow> holds w' = holds w) \<and>
     (\<forall>cfg w x w'. nb_Wire b cfg w = (x, w') \<longrightarrow> holds w' = holds w) \<and>
     (\<forall>r cfg w x w'. nb_open b r cfg w = (x, w') \<longrightarrow> holds w' = (if x = Ret None then [r] else []) @ holds w) \<and>
     (\<forall>r w x w' rest. nb_close b r w = (x, w') \<longrightarrow> holds w = r # rest \<longrightarrow> x = Ret () \<and> holds w' = rest)"

text \<open>The resources of a running application, and what New promises: all of them, or none.\<close>

definition all_resources :: "config \<Rightarrow> resource list" where
  "all_resources cfg =
     [MessagingStream, EventBus, CacheClient, ReadDB, WriteDB] @ (if otel_Enabled (cfg_Otel cfg) then [Tracer] else [])"

definition all_or_none :: "('w \<Rightarrow> resource list) \<Rightarrow> resource list \<Rightarrow> (config + goerr) exec \<Rightarrow> 'w \<Rightarrow> bool" where
  "all_or_none holds before r w \<longleftrightarrow>
     (case r of Ret (Inl cfg) \<Rightarrow> holds w = all_resources cfg @ before | Ret (Inr e) \<Rightarrow> holds w = before | Panic p \<Rightarrow> True)"

lemma release_closes:
  assumes ok: "builders_ok b holds" and "holds w = closers @ before"
  shows "wp (release b closers e) (all_or_none holds before) w"
  using assms(2)
proof (induction closers arbitrary: w)
  case Nil
  then show ?case by (simp add: wp_def all_or_none_def)
next
  case (Cons r closers)
  obtain x w' where c: "nb_close b r w = (x, w')" by fastforce
  then have "x = Ret ()" "holds w' = closers @ before" using ok Cons.prems unfolding builders_ok_def by (metis append_Cons)+
  then show ?case using Cons.IH c by (simp add: wp_def go_bind_def)
qed

lemma or_release_wp:
  assumes ok: "builders_ok b holds" and w: "holds w = closers @ before"
    and m: "\<And>x w'. m w = (x, w') \<Longrightarrow> holds w' = (if x = Ret None then extra else []) @ holds w"
    and k: "\<And>w'. holds w' = extra @ closers @ before \<Longrightarrow> wp k (all_or_none holds before) w'"
  shows "wp (or_release b closers what m k) (all_or_none holds before) w"
proof -
  obtain x w' where x: "m w = (x, w')" by fastforce
  note h = m [OF x]
  show ?thesis
  proof (cases x)
    case (Panic p)
    then show ?thesis using x by (simp add: wp_def go_bind_def all_or_none_def)
  next
    case (Ret r)
    show ?thesis
    proof (cases r)
      case None
      then show ?thesis using k [of w'] h Ret x w by (simp add: wp_def go_bind_def)
    next
      case (Some err)
      then show ?thesis
        using release_closes [OF ok, of w' closers before] h Ret x w by (simp add: wp_def go_bind_def)
    qed
  qed
qed

lemma builder_laws:
  assumes ok: "builders_ok b holds"
  shows "\<And>res cfg w x w'. nb_open b res cfg w = (x, w') \<Longrightarrow> holds w' = (if x = Ret None then [res] else []) @ holds w"
    and "\<And>cfg w x w'. nb_Logger b cfg w = (x, w') \<Longrightarrow> holds w' = (if x = Ret None then [] else []) @ holds w"
    and "\<And>redis cfg w x w'. nb_JWT b redis cfg w = (x, w') \<Longrightarrow> holds w' = (if x = Ret None then [] else []) @ holds w"
    and "\<And>path w x w'. nb_Load b path w = (x, w') \<Longrightarrow> holds w' = holds w"
    and "\<And>cfg w x w'. nb_Wire b cfg w = (x, w') \<Longrightarrow> holds w' = holds w"
  using ok [unfolded builders_ok_def] by auto

lemma boot_resources_wp:
  assumes ok: "builders_ok b holds" and closers: "closers = (if otel_Enabled (cfg_Otel cfg) then [Tracer] else [])"
    and w: "holds w = closers @ before"
  shows "wp (boot_resources b cfg closers) (all_or_none holds before) w"
proof -
  note opens = builder_laws(1) [OF ok]
  have wired: "wp (go_bind (nb_Wire b cfg) (\<lambda>_. go_return (Inl cfg))) (all_or_none holds before) w1"
    if "holds w1 = all_resources cfg @ before" for w1
    using that builder_laws(5) [OF ok]
    by (cases "nb_Wire b cfg w1") (auto simp: wp_def go_bind_def all_or_none_def split: exec.splits)
  show ?thesis
    unfolding boot_resources_def Let_def
    by (rule or_release_wp [OF ok w opens], assumption, rule or_release_wp [OF ok _ opens], simp, assumption,
        rule or_release_wp [OF ok _ opens], simp, assumption, rule or_release_wp [OF ok _ builder_laws(3) [OF ok]], simp, assumption,
        rule or_release_wp [OF ok _ opens], simp, assumption, rule or_release_wp [OF ok _ opens], simp, assumption,
        rule wired) (simp add: all_resources_def closers)
qed

lemma boot_traced_wp:
  assumes ok: "builders_ok b holds" and w: "holds w = before"
  shows "wp (if otel_Enabled (cfg_Otel cfg)
      then or_release b [] ''init tracing'' (nb_open b Tracer cfg) (boot_resources b cfg [Tracer])
      else boot_resources b cfg []) (all_or_none holds before) w"
proof (cases "otel_Enabled (cfg_Otel cfg)")
  case True
  have "wp (or_release b [] ''init tracing'' (nb_open b Tracer cfg) (boot_resources b cfg [Tracer])) (all_or_none holds before) w"
    by (rule or_release_wp [OF ok _ builder_laws(1) [OF ok]], simp add: w, assumption, rule boot_resources_wp [OF ok])
      (simp_all add: True)
  then show ?thesis by (simp only: True if_True)
next
  case False
  then show ?thesis using boot_resources_wp [OF ok, of "[]" cfg w before] w by simp
qed

text \<open>C10: Constructing the application opens all of its resources or none: when a step fails, those opened before are closed
  again, in the reverse of the order in which they were opened.\<close>

theorem boot_New_all_or_nothing:
  assumes ok: "builders_ok b holds" and run: "boot_New b cfgPath w = (Ret r, w')"
  shows "case r of Inl cfg \<Rightarrow> holds w' = all_resources cfg @ holds w | Inr e \<Rightarrow> holds w' = holds w"
proof -
  obtain x w1 where load: "nb_Load b cfgPath w = (x, w1)" by fastforce
  note w1 = builder_laws(4) [OF ok load]
  have "wp (boot_New b cfgPath) (all_or_none holds (holds w)) w"
  proof (cases x)
    case (Panic p)
    then show ?thesis using load by (simp add: boot_New_def wp_def go_bind_def all_or_none_def)
  next
    case (Ret v)
    show ?thesis
    proof (cases v)
      case (Inr e)
      then show ?thesis using load Ret w1 by (simp add: boot_New_def wp_def go_bind_def all_or_none_def)
    next
      case (Inl cfg)
      have "wp (or_release b [] ''init logger'' (nb_Logger b cfg) (if otel_Enabled (cfg_Otel cfg)
          then or_release b [] ''init tracing'' (nb_open b Tracer cfg) (boot_resources b cfg [Tracer])
          else boot_resources b cfg [])) (all_or_none holds (holds w)) w1"
        by (rule or_release_wp [OF ok _ builder_laws(2) [OF ok]], simp add: w1, assumption, rule boot_traced_wp [OF ok]) simp
      then show ?thesis using load Ret Inl unfolding boot_New_def wp_def go_bind_def [of "nb_Load b cfgPath"] by simp
    qed
  qed
  then show ?thesis using run by (simp add: wp_def all_or_none_def)
qed

text \<open>The world is the list of the open resources; opening \<open>broken\<close> fails.\<close>

definition sample_builders :: "resource \<Rightarrow> resource list builders" where
  "sample_builders broken =
     \<lparr>nb_Load = (\<lambda>_. go_return (Inl (sample_config []))), nb_Logger = (\<lambda>_. go_return None),
      nb_open = (\<lambda>r _ w. if r = broken then (Ret (Some (ErrorsNew ''refused'')), w) else (Ret None, r # w)),
      nb_close = (\<lambda>_ w. (Ret (), tl w)), nb_JWT = (\<lambda>_ _. go_return None), nb_Wire = (\<lambda>_. go_return ())\<rparr>"

lemma sample_builders_ok: "builders_ok (sample_builders broken) id"
  by (auto simp: builders_ok_def sample_builders_def)

lemma sample_New_fails:
  "boot_New (sample_builders EventBus) [] [] = (Ret (Inr (errorf_w ''bootstrap: event bus'' (ErrorsNew ''refused''))), [])"
  by (simp add: boot_New_def boot_resources_def sample_builders_def sample_config_def go_bind_def)

theorem boot_New_all_or_nothing_witness:
  "builders_ok (sample_builders EventBus) id \<and> snd (boot_New (sample_builders EventBus) [] []) = []"
  using boot_New_all_or_nothing [OF sample_builders_ok sample_New_fails] sample_builders_ok [of EventBus]
  by (simp add: sample_New_fails)

section \<open>Modules are wired in the order of their dependencies\<close>

lemma RegisterModule_appends:
  assumes "RegisterModule m a = (Ret None, a')"
  shows "ba_modules a' = ba_modules a @ [m]"
  using assms
  by (auto simp: RegisterModule_def go_bind_def Let_def split: prod.splits exec.splits option.splits)

lemma RegisterModule_all:
  assumes "for_err RegisterModule ms a = (Ret None, a')"
  shows "ba_modules a' = ba_modules a @ ms"
  using assms
proof (induction ms arbitrary: a)
  case (Cons m ms)
  obtain a1 where "RegisterModule m a = (Ret None, a1)" "for_err RegisterModule ms a1 = (Ret None, a')"
    using Cons.prems by (auto elim!: go_bind_cases split: option.splits)
  then show ?case using Cons.IH RegisterModule_appends by fastforce
qed simp

text \<open>The registry holds one module for each enabled entry of the manifest, under distinct names.\<close>

lemma load_modules_registry:
  assumes "load_modules enabled manifest reg a = (Ret (Inl reg'), a')" and "module_registry_ok reg"
  shows "module_registry_ok reg' \<and> ba_modules a' = ba_modules a \<and>
    length (mr_modules reg') = length (mr_modules reg) + length (filter (enabled \<circ> fst) manifest)"
  using assms
proof (induction enabled manifest reg arbitrary: a rule: load_modules.induct)
  case (2 enabled name factory manifest reg)
  show ?case
  proof (cases "enabled name")
    case True
    then obtain m a1 a2 where m: "on_env factory a = (Ret m, a1)" "on_env (bm_RegisterEvents m) a1 = (Ret (), a2)"
      and reg: "module_Register m reg = (None, snd (module_Register m reg))"
      and rest: "load_modules enabled manifest (snd (module_Register m reg)) a2 = (Ret (Inl reg'), a')"
      using "2.prems"(1) by (fastforce elim!: go_bind_cases simp del: split_paired_Ex split: prod.splits option.splits)
    have "length (mr_modules (snd (module_Register m reg))) = Suc (length (mr_modules reg))"
      using reg by (auto simp: module_Register_def split: if_splits)
    moreover have "ba_modules a2 = ba_modules a" using m by (auto split: prod.splits)
    ultimately show ?thesis
      using "2.IH"(2) [OF _ reg [symmetric] refl rest module_Register_ok [OF "2.prems"(2)]] True by simp
  next
    case False
    then show ?thesis using 2 by simp
  qed
qed simp

lemma empty_registry_ok: "module_registry_ok NewModuleRegistry"
  by (simp add: module_registry_ok_def NewModuleRegistry_def)

lemma RegisterModules_sorted:
  assumes load: "load_modules (Modules_IsEnabled (cfg_Modules cfg)) manifest NewModuleRegistry a = (Ret (Inl registry), a1)"
    and sorted: "Modules order registry = Some (Inr ordered)"
  obtains a2 where "ba_modules a2 = ba_modules a1" and "ba_env a2 = ba_env a1"
    and "RegisterModules order cfg manifest a = for_err RegisterModule ordered a2"
proof
  let ?wired = "case find (\<lambda>m. bm_SessionRevocationChecker m \<noteq> None) ordered of
    Some m \<Rightarrow> a1\<lparr>ba_sessionChecker := bm_SessionRevocationChecker m\<rparr> | None \<Rightarrow> a1"
  show "RegisterModules order cfg manifest a = for_err RegisterModule ordered ?wired"
    unfolding RegisterModules_def go_bind_def load prod.case exec.case sum.case sorted option.case ..
  show "ba_modules ?wired = ba_modules a1" "ba_env ?wired = ba_env a1" by (simp_all split: option.split)
qed

lemma RegisterModules_unsorted:
  assumes "load_modules (Modules_IsEnabled (cfg_Modules cfg)) manifest NewModuleRegistry a = (Ret (Inl registry), a1)"
    and "Modules order registry = Some (Inl e)"
  shows "RegisterModules order cfg manifest a = (Ret (Some (errorf_w ''bootstrap'' e)), a1)"
  unfolding RegisterModules_def go_bind_def assms prod.case exec.case sum.case option.case by (simp add: go_return_def)

text \<open>C11: Registering a manifest whose enabled factories have given modules of distinct names does not hang in the sort. If some
  order has every module after those it depends on and none of these is missing, the modules, one for each entry that
  the configuration enables, are registered one after the other in such an order, with nothing done to the outside
  between the factories and the first registration; when all are registered, Run starts them in the same order, and the
  servers after them. Otherwise the manifest is refused with an error and no module is registered.\<close>

theorem modules_wired_in_order:
  assumes order: "valid_order order" and new: "ba_modules a = []"
    and load: "load_modules (Modules_IsEnabled (cfg_Modules cfg)) manifest NewModuleRegistry a = (Ret (Inl registry), a1)"
  shows "if sortable m_Name module_deps (mr_modules registry)
    then \<exists>ordered a2. RegisterModules order cfg manifest a = for_err RegisterModule ordered a2 \<and>
      ba_modules a2 = [] \<and> ba_env a2 = ba_env a1 \<and>
      mset ordered = mset (mr_modules registry) \<and> deps_before m_Name module_deps ordered \<and> distinct (map m_Name ordered) \<and>
      length ordered = length (filter (Modules_IsEnabled (cfg_Modules cfg) \<circ> fst) manifest) \<and>
      (\<forall>a' serve. for_err RegisterModule ordered a2 = (Ret None, a') \<longrightarrow>
         boot_Run serve a' =
           go_bind (for_err boot_start ordered) (\<lambda>err. case err of Some e \<Rightarrow> go_return (Some e) | None \<Rightarrow> serve) a')
    else \<exists>e. RegisterModules order cfg manifest a = (Ret (Some e), a1) \<and> ba_modules a1 = []"
proof -
  have reg: "module_registry_ok registry" "ba_modules a1 = []"
      "length (mr_modules registry) = length (filter (Modules_IsEnabled (cfg_Modules cfg) \<circ> fst) manifest)"
    using load_modules_registry [OF load empty_registry_ok] new by (simp_all add: NewModuleRegistry_def)
  have names: "distinct (map m_Name (mr_modules registry))" using reg(1) by (simp add: module_registry_ok_def)
  have sorts: "module_sorts (mr_modules registry) (Modules order registry)" using order by (auto simp: module_sorts_def)
  show ?thesis
  proof (cases "sortable m_Name module_deps (mr_modules registry)")
    case True
    then obtain ys where ys: "Modules order registry = Some (Inr ys)" "mset ys = mset (mr_modules registry)"
        "deps_before m_Name module_deps ys"
      using module_sort.sorts_ok [OF sorts names] by blast
    have d: "distinct (map m_Name ys)" using names ys(2) by (metis mset_eq_imp_distinct_iff mset_map)
    have n: "length ys = length (mr_modules registry)" using ys(2) by (rule mset_eq_length)
    obtain a2 where a2: "ba_modules a2 = ba_modules a1" "ba_env a2 = ba_env a1"
        "RegisterModules order cfg manifest a = for_err RegisterModule ys a2"
      using RegisterModules_sorted [OF load ys(1)] by blast
    have "boot_Run serve a' =
        go_bind (for_err boot_start ys) (\<lambda>err. case err of Some e \<Rightarrow> go_return (Some e) | None \<Rightarrow> serve) a'"
      if "for_err RegisterModule ys a2 = (Ret None, a')" for a' serve
      using RegisterModule_all [OF that] a2(1) reg(2) by (simp add: boot_Run_def)
    with True ys(2,3) d n reg(2,3) a2 show ?thesis by (simp only: if_True) blast
  next
    case False
    then show ?thesis using module_sort.sorts_refused [OF sorts names False] RegisterModules_unsorted [OF load] reg(2)
      by (simp only: if_False) blast
  qed
qed

text \<open>Two modules that do nothing when they are called, the first of which depends on the second.\<close>

definition sample_module :: "string \<Rightarrow> string list option \<Rightarrow> unit boot_module" where
  "sample_module name deps =
     \<lparr>m_Name = name, m_DependsOn = deps, bm_RegisterEvents = go_return (), bm_RegisterSubscribers = go_return None,
      bm_RegisterStreams = None, bm_HTTPMiddleware = Some [None], bm_HealthChecks = Some [''db''],
      bm_SessionRevocationChecker = None, bm_GRPCInterceptors = None, bm_RegisterHTTP = (\<lambda>_. go_return ()),
      bm_RegisterGRPC = go_return (), bm_OnStart = go_return None,
      bm_OnStop = go_return None\<rparr>"

definition sample_manifest :: "unit catalog_entry list" where
  "sample_manifest =
     [(''orders'', go_return (sample_module ''orders'' (Some [''iam'']))), (''iam'', go_return (sample_module ''iam'' None))]"

abbreviation sample_loaded :: "unit boot_module list" where
  "sample_loaded \<equiv> [sample_module ''orders'' (Some [''iam'']), sample_module ''iam'' None]"

definition sample_app :: "unit boot_app" where
  "sample_app = \<lparr>ba_modules = [], ba_readiness = [''database''], ba_sessionChecker = None, ba_env = ()\<rparr>"

lemma sample_load:
  "load_modules (Modules_IsEnabled (cfg_Modules (sample_config []))) sample_manifest NewModuleRegistry sample_app =
     (Ret (Inl \<lparr>mr_modules = sample_loaded, mr_seen = {''orders'', ''iam''}\<rparr>), sample_app)"
  by (auto simp: sample_manifest_def sample_config_def Modules_IsEnabled_def go_bind_def sample_module_def module_Register_def
      NewModuleRegistry_def sample_app_def)

lemma sample_loaded_sortable: "sortable m_Name module_deps sample_loaded"
proof -
  have r: "item_rel m_Name module_deps sample_loaded = {(''iam'', ''orders'')}"
    by (simp add: sample_module_def)
  show ?thesis unfolding sortable_def r by (auto simp: sample_module_def acyclic_insert acyclic_empty)
qed

lemma sample_RegisterModule: "fst (RegisterModule (sample_module name deps) a) = Ret None"
  by (simp add: RegisterModule_def sample_module_def go_bind_def)

lemma sample_RegisterModule_all: "set ms \<subseteq> set sample_loaded \<Longrightarrow> fst (for_err RegisterModule ms a) = Ret None"
proof (induction ms arbitrary: a)
  case (Cons m ms)
  then have "fst (RegisterModule m a) = Ret None" using sample_RegisterModule by auto
  then show ?case using Cons by (cases "RegisterModule m a") (simp add: go_bind_def)
qed simp

theorem modules_wired_in_order_witness:
  "valid_order name_order \<and> ba_modules sample_app = [] \<and>
   (\<exists>ordered a'. RegisterModules name_order (sample_config []) sample_manifest sample_app = (Ret None, a') \<and>
     ba_modules a' = ordered \<and> deps_before m_Name module_deps ordered \<and> length ordered = 2)"
proof -
  have new: "ba_modules sample_app = []" by (simp add: sample_app_def)
  have n: "length (filter (Modules_IsEnabled (cfg_Modules (sample_config [])) \<circ> fst) sample_manifest) = 2"
    by (simp add: sample_manifest_def sample_config_def Modules_IsEnabled_def)
  from modules_wired_in_order [OF name_order_valid new sample_load] sample_loaded_sortable
  obtain ordered a2 where o: "RegisterModules name_order (sample_config []) sample_manifest sample_app = for_err RegisterModule ordered a2"
      "ba_modules a2 = []" "mset ordered = mset sample_loaded" "deps_before m_Name module_deps ordered" "length ordered = 2"
    using n by auto
  have "fst (for_err RegisterModule ordered a2) = Ret None"
    by (rule sample_RegisterModule_all) (simp only: mset_eq_setD [OF o(3)] subset_refl)
  then obtain a' where a': "for_err RegisterModule ordered a2 = (Ret None, a')" by (metis prod.collapse)
  then have "ba_modules a' = ordered" using RegisterModule_all o(2) by (metis append_Nil)
  then show ?thesis using o a' name_order_valid new by auto
qed

text \<open>
  A module that declares interceptors for its gRPC services (\<^verbatim>\<open>runtime.GRPCInterceptorProvider\<close>) is registered as one that
  declares none: nothing reads them.
\<close>

lemma interceptors_ignored:
  "fst (RegisterModule (m\<lparr>bm_GRPCInterceptors := declared\<rparr>) a) = fst (RegisterModule m a) \<and>
   ba_env (snd (RegisterModule (m\<lparr>bm_GRPCInterceptors := declared\<rparr>) a)) = ba_env (snd (RegisterModule m a))"
  by (simp add: RegisterModule_def go_bind_def Let_def split: prod.splits exec.splits option.splits)

text \<open>A server takes traffic only after every module has started; a module that fails keeps the servers from starting.\<close>

lemma boot_Run_serves:
  assumes "boot_Run serve a = (r, a')"
  obtains (serving) a1 where "serve a1 = (r, a')" and "ba_modules a1 = ba_modules a"
  | (refused) e where "r = Ret (Some e)"
  | (panicked) p where "r = Panic p"
  using assms [unfolded boot_Run_def]
proof (rule go_bind_cases)
  fix v a1
  assume "for_err boot_start (ba_modules a) a = (Ret v, a1)"
    and v: "(case v of Some e \<Rightarrow> go_return (Some e) | None \<Rightarrow> serve) a1 = (r, a')"
  then have "ba_modules a1 = ba_modules a"
    by (rule_tac for_err_inv [where P = "\<lambda>x. ba_modules x = ba_modules a"]) (auto simp: go_bind_def split: prod.splits exec.splits)
  then show thesis using v serving refused by (cases v) auto
qed (rule panicked)

section \<open>Run returns once its context is done\<close>

text \<open>The interleavings of the goroutines, from the start of the group.\<close>

inductive run_trace :: "run_state \<Rightarrow> run_action list \<Rightarrow> run_state \<Rightarrow> bool" for start where
  run_start: "run_trace start [] start"
| run_next: "run_trace start acts st \<Longrightarrow> run_step act st = Some st' \<Longrightarrow> run_trace start (acts @ [act]) st'"

lemma run_traceI: "foldl (\<lambda>st act. Option.bind st (run_step act)) (Some start) acts = Some st \<Longrightarrow> run_trace start acts st"
proof (induction acts arbitrary: st rule: rev_induct)
  case (snoc act acts)
  then show ?case by (auto simp: bind_eq_Some_conv intro: run_next)
qed (simp add: run_start)

text \<open>The error is that of a goroutine that failed.\<close>

definition server_failure :: "run_action list \<Rightarrow> goerr \<Rightarrow> bool" where
  "server_failure acts err \<longleftrightarrow> (\<exists>s e. Fails s e \<in> set acts \<and> err = errorf_w (''bootstrap: '' @ server_name s) e)"

lemma server_failure_keeps: "server_failure acts err \<Longrightarrow> server_failure (acts @ [act]) err"
  by (auto simp only: server_failure_def set_append)

lemma server_failure_last: "server_failure (acts @ [Fails s e]) (errorf_w (''bootstrap: '' @ server_name s) e)"
  unfolding server_failure_def by (rule exI [of _ s], rule exI [of _ e]) simp

text \<open>Every server that runs is a relay, or the watcher has still to stop it, or has.\<close>

definition run_covered :: "run_state \<Rightarrow> bool" where
  "run_covered st \<longleftrightarrow> set (rs_up st) \<subseteq> {OutboxWorker, OutboxNotifier} \<union> set (rs_toStop st) \<union> set (rs_stopped st)"

lemma run_step_covered:
  assumes "run_covered st" and "run_step act st = Some st'"
  shows "run_covered st'"
proof (cases act)
  case (Fails s e)
  then have "set (rs_up st') \<subseteq> set (rs_up st)" "rs_toStop st' = rs_toStop st" "rs_stopped st' = rs_stopped st"
    using assms(2) set_remove1_subset [of s "rs_up st"] by (auto simp: run_step_def split: if_splits)
  then show ?thesis using assms(1) by (auto simp: run_covered_def)
next
  case (Returns s)
  then have "set (rs_up st') \<subseteq> set (rs_up st)" "rs_toStop st' = rs_toStop st" "rs_stopped st' = rs_stopped st"
    using assms(2) set_remove1_subset [of s "rs_up st"] by (auto simp: run_step_def split: if_splits)
  then show ?thesis using assms(1) by (auto simp: run_covered_def)
qed (use assms in \<open>auto simp: run_step_def run_covered_def split: list.splits if_splits\<close>)

definition run_invariant :: "run_action list \<Rightarrow> run_state \<Rightarrow> bool" where
  "run_invariant acts st \<longleftrightarrow>
     run_covered st \<and> (rs_watching st \<or> rs_done st \<and> rs_toStop st = []) \<and>
     (rs_done st \<longrightarrow> rs_err st = None \<longrightarrow> Cancel \<in> set acts) \<and>
     (case rs_err st of
        None \<Rightarrow> \<forall>s e. Fails s e \<in> set acts \<longrightarrow> relay s
      | Some err \<Rightarrow> server_failure acts err) \<and>
     length (filter (\<lambda>act. act \<noteq> Cancel) acts) + length (rs_up st) + length (rs_toStop st) + of_bool (rs_watching st) \<le> 9"

lemma remove1_up: "s \<in> set xs \<Longrightarrow> length xs = Suc (length (remove1 s xs))"
  using length_pos_if_in_set [of s xs] by (simp add: length_remove1)

lemma run_step_invariant:
  assumes "run_invariant acts st" and "run_step act st = Some st'"
  shows "run_invariant (acts @ [act]) st'"
proof -
  have "run_covered st" using assms(1) by (simp add: run_invariant_def)
  note covered = run_step_covered [OF this assms(2)]
  show ?thesis
  proof (cases act)
    case (Fails s e)
    then have "s \<in> set (rs_up st)" using assms(2) by (auto simp: run_step_def split: if_splits)
    note up = remove1_up [OF this]
    show ?thesis
      using assms Fails up covered
      by (auto simp: run_step_def run_invariant_def server_failure_keeps server_failure_last [simplified]
          split: if_splits option.splits)
  next
    case (Returns s)
    then have "s \<in> set (rs_up st)" using assms(2) by (auto simp: run_step_def split: if_splits)
    note up = remove1_up [OF this]
    show ?thesis
      using assms Returns up covered
      by (auto simp: run_step_def run_invariant_def server_failure_keeps split: if_splits option.splits)
  next
    case Stop
    then show ?thesis using assms covered
      by (auto simp: run_step_def run_invariant_def server_failure_keeps split: list.splits if_splits option.splits)
  qed (use assms covered in \<open>auto simp: run_step_def run_invariant_def server_failure_keeps split: if_splits option.splits\<close>)
qed

lemma run_trace_invariant: "run_trace (run_servers metrics notifier grpcEnabled) acts st \<Longrightarrow> run_invariant acts st"
proof (induction rule: run_trace.induct)
  case run_start
  then show ?case by (simp add: run_invariant_def run_covered_def run_servers_def)
qed (rule run_step_invariant)

lemma run_progress:
  assumes "run_invariant acts st" and "rs_done st" and "group_Wait st = None"
  shows "\<exists>act st'. (act = Stop \<or> act = Watch \<or> (\<exists>s. act = Returns s)) \<and> run_step act st = Some st'"
proof (cases "rs_watching st")
  case True
  then have "run_step Stop st \<noteq> None \<or> run_step Watch st \<noteq> None"
    using assms(2) by (auto simp: run_step_def split: list.split)
  then show ?thesis by blast
next
  case False
  then obtain s where "s \<in> set (rs_up st)" using assms(3) by (cases "rs_up st") (auto simp: group_Wait_def split: if_splits)
  then have "run_step (Returns s) st \<noteq> None" using assms(1,2) False by (auto simp: run_step_def run_invariant_def run_covered_def)
  then show ?thesis by blast
qed

text \<open>C12: Whatever the interleaving of the servers, at most nine things happen besides cancellations: six goroutines return and
  three servers are stopped. Once the context is done, through the signal or because a server failed, one of them can
  happen, without a failure, until the whole group has returned. Run returns nil only if the signal came and no server
  failed, and otherwise the error of a server that did.\<close>

theorem run_returns:
  assumes trace: "run_trace (run_servers metrics notifier grpcEnabled) acts st"
  shows "length (filter (\<lambda>act. act \<noteq> Cancel) acts) \<le> 9 \<and>
    (case group_Wait st of
       None \<Rightarrow> rs_done st \<longrightarrow> (\<exists>act st'. (act = Stop \<or> act = Watch \<or> (\<exists>s. act = Returns s)) \<and> run_step act st = Some st')
     | Some None \<Rightarrow> Cancel \<in> set acts \<and> (\<forall>s e. Fails s e \<in> set acts \<longrightarrow> s = OutboxWorker \<or> s = OutboxNotifier)
     | Some (Some err) \<Rightarrow> server_failure acts err)"
proof -
  note inv = run_trace_invariant [OF trace]
  have "length (filter (\<lambda>act. act \<noteq> Cancel) acts) \<le> 9" using inv by (simp add: run_invariant_def)
  moreover have "case group_Wait st of
       None \<Rightarrow> rs_done st \<longrightarrow> (\<exists>act st'. (act = Stop \<or> act = Watch \<or> (\<exists>s. act = Returns s)) \<and> run_step act st = Some st')
     | Some None \<Rightarrow> Cancel \<in> set acts \<and> (\<forall>s e. Fails s e \<in> set acts \<longrightarrow> s = OutboxWorker \<or> s = OutboxNotifier)
     | Some (Some err) \<Rightarrow> server_failure acts err"
  proof (cases "group_Wait st")
    case None
    then show ?thesis using run_progress [OF inv] by (simp only: option.case) blast
  next
    case (Some r)
    then have "r = rs_err st" "\<not> rs_watching st" by (auto simp: group_Wait_def split: if_splits)
    then show ?thesis using Some inv by (auto simp: run_invariant_def split: option.splits)
  qed
  ultimately show ?thesis by blast
qed

theorem run_returns_witness:
  "let acts = [Returns GRPCServer, Fails HTTPServer (ErrorsNew ''address in use''), Stop, Stop, Returns OutboxWorker, Watch];
     st = \<lparr>rs_up = [], rs_grpcNoop = True, rs_toStop = [], rs_watching = False, rs_done = True,
       rs_stopped = [GRPCServer, HTTPServer],
       rs_err = Some (errorf_w ''bootstrap: http server'' (ErrorsNew ''address in use''))\<rparr>
   in run_trace (run_servers False False False) acts st \<and>
     server_failure acts (errorf_w ''bootstrap: http server'' (ErrorsNew ''address in use''))"
proof -
  have trace: "run_trace (run_servers False False False)
      [Returns GRPCServer, Fails HTTPServer (ErrorsNew ''address in use''), Stop, Stop, Returns OutboxWorker, Watch]
      \<lparr>rs_up = [], rs_grpcNoop = True, rs_toStop = [], rs_watching = False, rs_done = True,
       rs_stopped = [GRPCServer, HTTPServer],
       rs_err = Some (errorf_w ''bootstrap: http server'' (ErrorsNew ''address in use''))\<rparr>"
    by (rule run_traceI) (simp add: run_servers_def run_step_def)
  then show ?thesis using run_returns [OF trace] by (simp add: group_Wait_def Let_def)
qed

end
