(* ===== verification/Spec2Isabelle.thy ===== *)
theory Spec2Isabelle
  imports Error_Mapping Wolf_UoW Outbox_Worker Wolf_Inbox Messenger_Outbox Wolf_Seed Wolf_Config Wolf_DI Wolf_CQRS Wolf_Shutdown Wolf_JWT Wolf_Limits Wolf_VO Wolf_Serde
    Wolf_Authz Wolf_Concurrency Wolf_Resilience Wolf_Idempotency Wolf_Bootstrap
begin

text \<open>
  A verification of wolf-core, a Go library for event-driven services.

  \<^bold>\<open>The program.\<close> An application changes aggregates in a unit of work, which stores the pending domain events in
  an outbox table in the same transaction. A relay worker claims rows of that table, publishes them to a stream and
  retires them; a consumer deduplicates with an inbox. The messenger is a second, in-memory or outbox-backed way
  to dispatch messages through middlewares. Around them are the CQRS pipelines with their caches, the
  dependency container, the configuration, the seeding of a database, the module registry and the composition of the
  application, the tokens of the users and the checks of access by them, the rate limiters, retries and pools, the value
  objects and the shutdown.

  \<^bold>\<open>How Go is modelled\<close> (\<^theory_text>\<open>Go_Prelude\<close>). A function with effects is a function from a state to an outcome, a value or a
  panic, and a state. A result with an error is a pair or a sum. Structs are records, interfaces are records of
  functions, a string is a list of bytes. Time, identifiers and random numbers are arguments. The order in which a map is
  ranged over is an argument that is only assumed to list its keys. Integers are unbounded except where wrap-around
  matters, where it is written out. Code that is not in the repository is an argument with named hypotheses; the
  database is a model of \<^verbatim>\<open>database/sql\<close> in which every call may fail.

  \<^bold>\<open>Theories and sources\<close>, and what their lemmas show.
  \<^item> \<^theory_text>\<open>Wolf_Errors\<close>, \<^theory_text>\<open>Error_Mapping\<close>: \<^verbatim>\<open>errors\<close> and the HTTP and gRPC error mappers. The search through an error tree, and
    where the mappers agree.
  \<^item> \<^theory_text>\<open>Wolf_Event\<close>: \<^verbatim>\<open>event\<close>, \<^verbatim>\<open>aggregate\<close>, \<^verbatim>\<open>entity\<close>. Events, their metadata and the in-memory bus.
  \<^item> \<^theory_text>\<open>Wolf_Tx\<close>: \<^verbatim>\<open>tx\<close>, \<^verbatim>\<open>infra/db/tx.go\<close>. The driver, and the contract \<open>tx_runner\<close> of a transaction runner.
  \<^item> \<^theory_text>\<open>Outbox_Store\<close>, \<^theory_text>\<open>Wolf_UoW\<close>, \<^theory_text>\<open>Outbox_Worker\<close>, \<^theory_text>\<open>Wolf_Inbox\<close>: \<^verbatim>\<open>infra/events/outbox\<close>, \<^verbatim>\<open>infra/events/deadletter\<close>, \<^verbatim>\<open>uow\<close>,
    \<^verbatim>\<open>infra/events/inbox\<close>. Claims are exclusive, a unit of work is atomic and publishes its events, the worker loses none over
    any sequence of signals and failures, the inbox makes redelivery harmless.
  \<^item> \<^theory_text>\<open>Wolf_Chain\<close>, \<^theory_text>\<open>Messenger_Bus\<close>, \<^theory_text>\<open>Messenger_Middleware\<close>, \<^theory_text>\<open>Messenger_Transport\<close>, \<^theory_text>\<open>Messenger_Worker\<close>,
    \<^theory_text>\<open>Messenger_Outbox\<close>: \<^verbatim>\<open>messenger\<close>. Chains compose their middlewares, routing, retries, recovery, the transports and their
    delivery guarantees: a consumer of the outbox transport loses no message over any failures, and the operations of the
    in-memory one are split into steps between which other goroutines run (\<open>mem_step\<close>).
  \<^item> \<^theory_text>\<open>Wolf_Toposort\<close>, \<^theory_text>\<open>Wolf_Seed\<close>: \<^verbatim>\<open>infra/seed\<close>, \<^verbatim>\<open>infra/modular/registry.go\<close>. The queue loop of the sort returns for every input;
    it lists the items after their dependencies or reports that there is no order (\<open>dependency_sorter\<close>, for seeders
    and for modules). After the truncation it was asked for, a global seed run is all or nothing; a dry run that also
    truncates is not dry.
  \<^item> \<^theory_text>\<open>Wolf_Config\<close>: \<^verbatim>\<open>infra/config\<close>, \<^verbatim>\<open>infra/middleware/http/cors.go\<close>. What holds of every configuration that loads, and
    which of these the code that reads it does not agree with. \<^verbatim>\<open>cors.New\<close> of the library is an argument.
  \<^item> \<^theory_text>\<open>Wolf_DI\<close>: \<^verbatim>\<open>infra/di\<close> and the two transaction middlewares. A singleton has one value, a container without
    cycles resolves, a scoped factory can block on its own scope; a request is atomic, but requests that
    overlap share a connection, and a client may not see that a commit failed.
  \<^item> \<^theory_text>\<open>Wolf_Cache\<close>, \<^theory_text>\<open>Wolf_CQRS\<close>: \<^verbatim>\<open>infra/cache\<close>, \<^verbatim>\<open>cqrs\<close>, \<^verbatim>\<open>infra/decorator\<close>. The contract \<open>cache_client\<close>, kept by every client, and
    that a query reads what the command before it wrote, or the failed deletion is logged. Times to live are no part of
    the contract.
  \<^item> \<^theory_text>\<open>Wolf_Shutdown\<close>: \<^verbatim>\<open>infra/concurrency/shutdown.go\<close>, \<^verbatim>\<open>infra/bootstrap/lifecycle.go\<close>. Everything is closed once, in order of
    priority, under every schedule.
  \<^item> \<^theory_text>\<open>Wolf_Bootstrap\<close>: \<^verbatim>\<open>infra/bootstrap/app.go\<close>, \<^verbatim>\<open>runtime/module.go\<close>. Constructing the application opens all resources or
    none, modules are wired in the order of their dependencies, and under every interleaving of the servers (\<open>run_trace\<close>) Run
    can return once its context is done.
  \<^item> \<^theory_text>\<open>Wolf_JWT\<close>: \<^verbatim>\<open>auth/claims.go\<close>, \<^verbatim>\<open>auth/token.go\<close>, \<^verbatim>\<open>infra/auth\<close> without passwords. Issued tokens validate and are not mixed up; a
    revoked session stays out over any history of the service (\<open>jwt_run\<close>) whenever the blacklist can be asked. The history
    has outages of Redis and further revocations, of which the earliest expiry counts; the blacklist is bare or behind the
    circuit breaker, which lets tokens pass while it cannot ask. In the leeway after its expiry a token cannot be revoked.
  \<^item> \<^theory_text>\<open>Wolf_Authz\<close>: \<^verbatim>\<open>auth.go\<close> and \<^verbatim>\<open>rbac.go\<close> of \<^verbatim>\<open>infra/middleware/http\<close> and \<^verbatim>\<open>infra/middleware/grpc\<close>, \<^verbatim>\<open>apikey.go\<close>. A route
    behind the JWT service admits the user of an issued token by its roles and permissions, both transports decide alike, and
    a revoked session is locked out of both. The repository leaves it to its users to put the checks of a rule before a
    route; \<open>rule_guards\<close> is that composition.
  \<^item> \<^theory_text>\<open>Wolf_Concurrency\<close>: \<^verbatim>\<open>infra/middleware/http/load_shedder.go\<close>, \<^verbatim>\<open>infra/concurrency\<close>, \<^verbatim>\<open>infra/worker/consumer.go\<close>. Step relations
    over the atomic operations of goroutines: the load shedder keeps its limit, the worker pool drains and stops, also
    with a cancelled context, where it may drop items; the sharded loops do not depend on the schedule, but the error they report does.
  \<^item> \<^theory_text>\<open>Wolf_Resilience\<close>: \<^verbatim>\<open>infra/resilience\<close>. The bounds of the back-off, when the breakers trip, and that the HTTP client cannot
    send a request body twice, unless \<^verbatim>\<open>net/http\<close> can rewind it.
  \<^item> \<^theory_text>\<open>Wolf_Idempotency\<close>: \<^verbatim>\<open>infra/idempotency\<close>. A stored response is replayed until it expires.
  \<^item> \<^theory_text>\<open>Wolf_Limits\<close>: \<^verbatim>\<open>infra/ratelimit\<close>. The contract \<open>keyed_limiter\<close>, by which keys do not affect each other, kept by all three
    strategies; how many calls the two windows admit.
  \<^item> \<^theory_text>\<open>Wolf_Serde\<close>: \<^verbatim>\<open>messenger/serde\<close>. Round trip of an envelope, old versions decode like their migration, and the version that
    makes decoding panic.
  \<^item> \<^theory_text>\<open>Wolf_VO\<close>: \<^verbatim>\<open>vo\<close>. Money on 64-bit words and when it wraps, pages, and the round trip of a cursor.
  \<^item> This theory: the path of an event from the aggregate through the unit of work, the outbox and the worker.

  \<^bold>\<open>Bounds and fuel.\<close> The sort is a partial function in the option type, and returning is proved (\<open>topo_sort_spec\<close>). The
  container resolves with fuel: more fuel does not change a result (\<open>fuel_mono\<close>), and without cycles some fuel is enough
  (\<open>acyclic_container_resolves\<close>). The other loops are total functions, that of the upcasters by the distance to the
  version it goes to.

  \<^bold>\<open>Not modelled.\<close> Log lines, metrics outside the CQRS pipelines, spans outside them and durations. Races between
  goroutines, except where a schedule or an interleaving is an argument, and the rounding of floating-point numbers. The
  NATS adapter, the PostgreSQL notifier, the AMQP connection, the database pool, the servers, the remaining HTTP and
  gRPC middlewares, request validation and observability only call their libraries. After the last step that can fail,
  the construction of the application only calls the constructors of the other parts. Password hashing is a call of
  bcrypt; the typed streams format times and report to libraries. The bulkhead, the semaphore, the channel pipelines and the sender group each wrap one channel or semaphore,
  and the specifications, policies and collections are pure combinators of a few lines. Most named constants of the
  sources, the one-line predicates on errors and the texts of single SQL statements are abbreviations, and
  \<^verbatim>\<open>encoding/json\<close> is an argument wherever it is used.
\<close>

section \<open>From the aggregate to the broker\<close>

lemma rows_of_ids:
  assumes "rows_of marshal ctx m lease es rows"
  shows "map row_id rows = map ev_id es" and "\<forall>r \<in> set rows. row_published_at r = None"
  using assms unfolding rows_of_def by (induction rule: list_all2_induct) auto

lemma committed_rows:
  assumes "rows_of marshal ctx m lease es rows" and "outbox_key d"
    and "distinct (map ev_id es)" and "ev_id ` set es \<inter> row_id ` set (outbox_events d) = {}"
  shows "outbox_key (d\<lparr>outbox_events := outbox_events d @ rows\<rparr>)
     \<and> pending_ids (d\<lparr>outbox_events := outbox_events d @ rows\<rparr>) = pending_ids d \<union> ev_id ` set es"
proof -
  note ids = rows_of_ids [OF assms(1)]
  have rows: "row_id ` set rows = ev_id ` set es" using ids(1) by (metis list.set_map)
  have "outbox_key (d\<lparr>outbox_events := outbox_events d @ rows\<rparr>)"
    using assms(2-) rows by (simp add: outbox_key_def ids(1) Int_commute)
  moreover have "filter (\<lambda>r. row_published_at r = None) rows = rows" using ids(2) by simp
  ultimately show ?thesis using rows by (simp add: pending_ids_def)
qed

text \<open>C1: an event that a unit of work has committed is never lost. If a unit of work over aggregates
  reports success, every event that was pending in them is afterwards waiting in the
  outbox, dead-lettered or delivered, whatever signals the relay worker on that database receives and
  whichever of its database calls fail. The business function leaves the aggregates' event lists and
  the outbox table to the unit of work.\<close>

theorem committed_events_are_relayed:
  fixes w :: "('x database_scheme, 'p, 'n) uow_world_scheme" and v :: "('x database_scheme, 'm) worker_world_scheme"
    and delivered :: "'m \<Rightarrow> string set"
  assumes "uow_New (Some RunInTx) (Some (Insert marshal)) src = Ret u" and "distinct as"
    and "ExecuteMulti u ctx as fn w = (Ret None, w1)"
    and fn: "\<And>c y y' d. fn c y = (Ret None, y') \<Longrightarrow> world_view c y = Some d \<Longrightarrow>
        aggs y' = aggs y \<and> (\<exists>d'. world_view c y' = Some d' \<and> outbox_events d' = outbox_events d)"
    and es: "es = concat (map (\<lambda>a. events (aggs w a)) as)"
    and key: "outbox_key (world_committed w)"
    and wk: "w_store wk = pg_store" "w_dlqStore wk = Some (DLQ_Insert dnow)"
    and bus: "\<And>evt. settles pg_okay pg_pending (pg_settled delivered) (ev_id evt) (w_bus wk evt)"
    and breaker: "\<And>cb i m. w_cb wk = Some cb \<Longrightarrow>
        settles pg_okay pg_pending (pg_settled delivered) i m \<Longrightarrow>
        settles pg_okay pg_pending (pg_settled delivered) i (cb m)"
    and same: "db v = db w1" and start: "worker_Start wk sigs v = (x, v')"
  shows "ev_id ` set es
       \<subseteq> pending_ids (committed (db v')) \<union> dead_ids (committed (db v')) \<union> delivered (worker_world.more v')"
proof -
  have u: "txRunner u = RunInTx" "outboxStore u = Insert marshal" using uow_New_Ret [OF assms(1)] by auto
  obtain raw y1 y2 d where y: "aggs y1 = aggs w" "world_view (Inject ctx raw) y1 = Some (world_committed w)"
      "fn (Inject ctx raw) y1 = (Ret None, y2)" "world_view (Inject ctx raw) y2 = Some d"
    and c: "add_all (\<lambda>e. outbox_add marshal (Inject ctx raw) e (uow_meta u))
        (concat (map (\<lambda>a. events (aggs y2 a)) as)) d = Some (world_committed w1)"
    using pg_uow.ExecuteMulti_ok [OF u assms(2,3)] by auto
  from fn [OF y(3,2)] y(1,4) have f: "aggs y2 = aggs w" "outbox_events d = outbox_events (world_committed w)" by auto
  have "outbox_key d" using key f(2) by (simp add: outbox_key_def)
  moreover obtain rows where "rows_of marshal (Inject ctx raw) (uow_meta u) (lease_default d) es rows"
      "world_committed w1 = d\<lparr>outbox_events := outbox_events d @ rows\<rparr>" "distinct (map ev_id es)"
      "ev_id ` set es \<inter> row_id ` set (outbox_events d) = {}"
    using add_all_rows [OF c] unfolding es f(1) by auto
  ultimately have committed: "outbox_key (world_committed w1) \<and> pending_ids (world_committed w1) = pending_ids d \<union> ev_id ` set es"
    using committed_rows by metis
  have "settles pg_okay pg_pending (pg_settled delivered) (oe_ID e) (poll_entry wk e)" for e
    by (rule pg_worker.poll_entry_settles [OF wk(2)]) (use bus breaker in auto)
  then have "keeps pg_okay pg_pending (pg_settled delivered) v v'"
    by (rule wpD [OF pg_worker.worker_Start_keeps [OF wk(1)] start])
  with committed same show ?thesis by (auto simp: keeps_def pg_defs world_committed_def)
qed

theorem committed_events_are_relayed_witness:
  "\<exists>w1 x v'. ExecuteMulti sample_uow sample_ctx [0] (\<lambda>ctx. go_return None) (sample_uow_world []) = (Ret None, w1)
     \<and> worker_Start sample_worker [Tick ''t1'' 100, Tick ''t2'' 200] (sample_broker_world\<lparr>db := db w1\<rparr>) = (x, v')
     \<and> ''e1'' \<in> pending_ids (committed (db v')) \<union> dead_ids (committed (db v')) \<union> worker_world.more v'"
proof -
  let ?run = "ExecuteMulti sample_uow sample_ctx [0] (\<lambda>ctx. go_return None) (sample_uow_world [])"
  have run: "?run = (Ret None, snd ?run)" using sample_commits by (metis prod.collapse)
  let ?v = "sample_broker_world\<lparr>db := db (snd ?run)\<rparr>"
  obtain x v' where start: "worker_Start sample_worker [Tick ''t1'' 100, Tick ''t2'' 200] ?v = (x, v')" by fastforce
  let ?es = "concat (map (\<lambda>a. events (aggs (sample_uow_world []) a)) [0])"
  have ids: "ev_id ` set ?es = {''e1''}" "distinct (map ev_id (events sample_agg))"
    by (simp_all add: uow_eval)
  have "ev_id ` set ?es \<subseteq> pending_ids (committed (db v')) \<union> dead_ids (committed (db v')) \<union> worker_world.more v'"
    by (rule committed_events_are_relayed [where dnow = 50 and delivered = "\<lambda>m. m" and v = ?v,
          OF sample_uow_New _ run _ refl _ _ _ _ _ _ start])
      (auto simp: sample_worker_def WithDLQ_def NewWorker_def sample_bus_settles ids sample_uow_world_def sample_world_def
        world_committed_def outbox_key_def)
  with run start ids show ?thesis by auto
qed

end
